(* ===== verification/Prelude.thy ===== *)
theory Prelude
  imports Main "HOL-Library.Word"
begin

text \<open>
  Shared vocabulary of the development: the machine integers of the target
  (x86-64, so \<open>usize\<close> is 64 bits wide), the outcome of a piece of Rust code that
  may panic or be undefined, the pieces of the Rust core library the sources use
  (slice splitting, checked arithmetic, rounding to a multiple, little-endian
  loads), and the lemmas about them that every component uses.
\<close>

unbundle bit_operations_syntax

section \<open>Machine integers\<close>

type_synonym u8 = "8 word"
type_synonym u16 = "16 word"
type_synonym u32 = "32 word"
type_synonym u64 = "64 word"
type_synonym usize = "64 word"

section \<open>Collections of facts\<close>

named_theorems layout_simps \<open>layouts of the fixed-size headers and table entries\<close>
named_theorems exec_simps \<open>equations for outcomes of code that may panic\<close>
named_theorems state_simps \<open>projections of updated component states\<close>

section \<open>Outcomes\<close>

text \<open>
  Every function of the source that can panic, or whose \<open>unsafe\<close> code can be
  undefined, returns an \<open>exec\<close>: \<open>Ret\<close> the value, \<open>Panic\<close> with the reason, or
  \<open>Undefined\<close> for behaviour the language does not define (an invalid pointer,
  \<open>unreachable_unchecked\<close>, reading uninitialised memory).
\<close>

datatype 'a exec = Ret 'a | Panic string | Undefined

fun bind_exec :: "'a exec \<Rightarrow> ('a \<Rightarrow> 'b exec) \<Rightarrow> 'b exec" where
  "bind_exec (Ret x) f = f x"
| "bind_exec (Panic s) f = Panic s"
| "bind_exec Undefined f = Undefined"

fun is_ret :: "'a exec \<Rightarrow> bool" where
  "is_ret (Ret _) = True"
| "is_ret (Panic _) = False"
| "is_ret Undefined = False"

definition assert_exec :: "bool \<Rightarrow> string \<Rightarrow> 'a exec \<Rightarrow> 'a exec" where
  "assert_exec b msg k = (if b then k else Panic msg)"

lemma bind_exec_Ret_iff [exec_simps]:
  "bind_exec m f = Ret y \<longleftrightarrow> (\<exists>x. m = Ret x \<and> f x = Ret y)"
  by (cases m) auto

lemma bind_exec_assoc [exec_simps]:
  "bind_exec (bind_exec m f) g = bind_exec m (\<lambda>x. bind_exec (f x) g)"
  by (cases m) auto

lemma bind_exec_cong [fundef_cong]:
  "m = m' \<Longrightarrow> (\<And>x. m' = Ret x \<Longrightarrow> f x = g x) \<Longrightarrow> bind_exec m f = bind_exec m' g"
  by (cases m') auto

lemma is_ret_iff [exec_simps]: "is_ret m \<longleftrightarrow> (\<exists>x. m = Ret x)"
  by (cases m) auto

lemma case_sum_Panic_Ret [exec_simps]:
  "(case r of Inl e \<Rightarrow> Panic (s e) | Inr x \<Rightarrow> f x) = Ret y \<longleftrightarrow> (\<exists>x. r = Inr x \<and> f x = Ret y)"
  by (cases r) auto

text \<open>A \<open>for\<close> loop whose body may panic.\<close>

fun fold_exec :: "('a \<Rightarrow> 's \<Rightarrow> 's exec) \<Rightarrow> 'a list \<Rightarrow> 's \<Rightarrow> 's exec" where
  "fold_exec f [] s = Ret s"
| "fold_exec f (x # xs) s = bind_exec (f x s) (fold_exec f xs)"

lemma fold_exec_append [exec_simps]:
  "fold_exec f (xs @ ys) s = bind_exec (fold_exec f xs s) (fold_exec f ys)"
  by (induction xs arbitrary: s) (auto simp: bind_exec_assoc intro: bind_exec_cong)

lemma fold_exec_total:
  assumes "I s" and "\<And>x s. x \<in> set xs \<Longrightarrow> I s \<Longrightarrow> f x s = Ret (g x s) \<and> I (g x s)"
  shows "fold_exec f xs s = Ret (fold g xs s) \<and> I (fold g xs s)"
  using assms by (induction xs arbitrary: s) auto

section \<open>Slices\<close>

text \<open>Rust's \<open>[T]::split_at_checked\<close>.\<close>

definition split_at_checked :: "'a list \<Rightarrow> usize \<Rightarrow> ('a list \<times> 'a list) option" where
  "split_at_checked xs mid =
     (if unat mid \<le> length xs then Some (take (unat mid) xs, drop (unat mid) xs) else None)"

lemma split_at_checked_Some [simp]:
  "split_at_checked xs mid = Some (ys, zs) \<longleftrightarrow>
     unat mid \<le> length xs \<and> ys = take (unat mid) xs \<and> zs = drop (unat mid) xs"
  by (auto simp: split_at_checked_def)

lemma split_at_checked_None [simp]:
  "split_at_checked xs mid = None \<longleftrightarrow> length xs < unat mid"
  by (auto simp: split_at_checked_def)

section \<open>Checked and rounded arithmetic\<close>

definition checked_sub :: "'a::len word \<Rightarrow> 'a word \<Rightarrow> 'a word option" where
  "checked_sub a b = (if b \<le> a then Some (a - b) else None)"

definition checked_add :: "'a::len word \<Rightarrow> 'a word \<Rightarrow> 'a word option" where
  "checked_add a b = (if unat a + unat b < 2 ^ LENGTH('a) then Some (a + b) else None)"

lemma checked_add_Some_unat:
  "checked_add a b = Some c \<Longrightarrow> unat c = unat a + unat b"
  by (auto simp: checked_add_def unat_word_ariths split: if_splits)

lemma checked_sub_1_unat:
  "checked_sub n 1 = Some m \<Longrightarrow> unat n = Suc (unat m)"
  by (auto simp: checked_sub_def unat_sub word_le_nat_alt split: if_splits)

lemma checked_sub_1_None [simp]: "checked_sub n 1 = None \<longleftrightarrow> n = 0"
  by (auto simp: checked_sub_def word_le_nat_alt unat_eq_0 not_le less_Suc0 simp flip: unat_0_iff)

text \<open>A widening cast (\<open>as usize\<close>) keeps the value.\<close>

lemma unat_ucast_widen [simp]:
  fixes w :: "'a::len word"
  assumes "LENGTH('a) \<le> LENGTH('b::len)"
  shows "unat (ucast w :: 'b word) = unat w"
proof -
  have "unat w < 2 ^ LENGTH('a)" by simp
  also have "(2::nat) ^ LENGTH('a) \<le> 2 ^ LENGTH('b)"
    using assms by (rule power_increasing) simp
  finally show ?thesis by (simp add: unsigned_ucast_eq take_bit_nat_eq_self_iff)
qed

lemma unat_word_pos: "n \<noteq> 0 \<Longrightarrow> 1 \<le> (n :: 'a::len word)"
  by (metis One_nat_def Suc_leI neq0_conv unat_1 unat_eq_0 word_le_nat_alt)

lemma unat_add_1_less:
  fixes x y :: "'a::len word"
  assumes "x < y"
  shows "unat (x + 1) = Suc (unat x)"
proof -
  have "Suc (unat x) \<le> unat y" using assms by (simp add: word_less_nat_alt)
  also have "unat y < 2 ^ LENGTH('a)" by simp
  finally show ?thesis by (simp add: unat_word_ariths)
qed

text \<open>
  \<open>usize::next_multiple_of\<close>. The bootloader is built with the release profile, in
  which the addition wraps.
\<close>

definition next_multiple_of :: "usize \<Rightarrow> usize \<Rightarrow> usize" where
  "next_multiple_of x n = (if x mod n = 0 then x else x + (n - x mod n))"

section \<open>Words bit by bit\<close>

lemma word_eq_bits:
  fixes x y :: "'a::len word"
  shows "x = y \<longleftrightarrow> (\<forall>n. bit x n = bit y n)"
  by (auto intro: bit_word_eqI)

lemma bit_single:
  assumes "k < LENGTH('a::len)"
  shows "bit (push_bit k 1 :: 'a word) n \<longleftrightarrow> n = k"
  using assms by (auto simp: push_bit_of_1 bit_exp_iff possible_bit_word)

section \<open>Little-endian loads\<close>

text \<open>
  \<open>read_unaligned\<close> of an integer on the little-endian target: the byte at the
  lowest address is the least significant one.
\<close>

fun le_word :: "u8 list \<Rightarrow> 'a::len word" where
  "le_word [] = 0"
| "le_word (b # bs) = ucast b OR push_bit 8 (le_word bs)"

text \<open>The store that \<open>le_word\<close> inverts: the \<open>n\<close> low bytes of a word.\<close>

fun le_bytes :: "nat \<Rightarrow> 'a::len word \<Rightarrow> u8 list" where
  "le_bytes 0 w = []"
| "le_bytes (Suc n) w = ucast w # le_bytes n (drop_bit 8 w)"

lemma length_le_bytes [simp]: "length (le_bytes n w) = n"
  by (induction n arbitrary: w) auto

lemma le_word_le_bytes_aux:
  fixes w :: "'a::len word"
  shows "le_word (le_bytes n w) = take_bit (8 * n) w"
proof (induction n arbitrary: w)
  case 0
  then show ?case by simp
next
  case (Suc n)
  show ?case
    by (rule bit_word_eqI)
      (auto simp: Suc bit_simps le_Suc_eq not_le less_diff_conv2)
qed

lemma le_word_le_bytes [simp]:
  fixes w :: "'a::len word"
  shows "8 * n = LENGTH('a) \<Longrightarrow> le_word (le_bytes n w) = w"
  by (simp add: le_word_le_bytes_aux)

text \<open>A field of \<open>n\<close> bytes at byte offset \<open>off\<close> of a packed structure.\<close>

definition le_field :: "nat \<Rightarrow> nat \<Rightarrow> u8 list \<Rightarrow> 'a::len word" where
  "le_field off n bs = le_word (take n (drop off bs))"

end
