(* ===== verification/Elf_Sys.thy ===== *)
theory Elf_Sys
  imports Prelude
begin

text \<open>
  The on-disk structures of the ELF loader (\<open>elf/src/sys\<close>): the prologue, the
  64-bit file header, the program header and the section header, with their flag
  sets, and the way \<open>read_unaligned\<close> reads each of them from packed bytes. The
  encoders are the specification the decoders are inverted against: they write the
  fields of the \<open>repr(C)\<close> structure in declaration order.
\<close>

section \<open>File header\<close>

record elf_header_prologue =
  magic :: "u8 list"
  arch :: u8
  endian :: u8
  header_version :: u8
  os_abi :: u8
  prologue_padding :: "u8 list"
  elf_type :: u16
  instruction_set :: u16
  elf_version :: u32

definition size_of_prologue :: usize where
  "size_of_prologue = 24"

definition decode_prologue :: "u8 list \<Rightarrow> elf_header_prologue" where
  "decode_prologue bs =
     \<lparr> magic = take 4 bs,
       arch = le_field 4 1 bs,
       endian = le_field 5 1 bs,
       header_version = le_field 6 1 bs,
       os_abi = le_field 7 1 bs,
       prologue_padding = take 8 (drop 8 bs),
       elf_type = le_field 16 2 bs,
       instruction_set = le_field 18 2 bs,
       elf_version = le_field 20 4 bs \<rparr>"

definition encode_prologue :: "elf_header_prologue \<Rightarrow> u8 list" where
  "encode_prologue p =
     magic p @ le_bytes 1 (arch p) @ le_bytes 1 (endian p) @ le_bytes 1 (header_version p) @
     le_bytes 1 (os_abi p) @ prologue_padding p @ le_bytes 2 (elf_type p) @
     le_bytes 2 (instruction_set p) @ le_bytes 4 (elf_version p)"

record elf_header64 =
  program_entry_offset :: u64
  program_header_table_offset :: u64
  section_header_table_offset :: u64
  header_flags :: u32
  header_size :: u16
  program_header_entry_size :: u16
  program_header_entry_len :: u16
  section_header_entry_size :: u16
  section_header_entry_len :: u16
  section_header_string_table_index :: u16

definition size_of_header64 :: usize where
  "size_of_header64 = 40"

definition decode_header64 :: "u8 list \<Rightarrow> elf_header64" where
  "decode_header64 bs =
     \<lparr> program_entry_offset = le_field 0 8 bs,
       program_header_table_offset = le_field 8 8 bs,
       section_header_table_offset = le_field 16 8 bs,
       header_flags = le_field 24 4 bs,
       header_size = le_field 28 2 bs,
       program_header_entry_size = le_field 30 2 bs,
       program_header_entry_len = le_field 32 2 bs,
       section_header_entry_size = le_field 34 2 bs,
       section_header_entry_len = le_field 36 2 bs,
       section_header_string_table_index = le_field 38 2 bs \<rparr>"

definition encode_header64 :: "elf_header64 \<Rightarrow> u8 list" where
  "encode_header64 h =
     le_bytes 8 (program_entry_offset h) @ le_bytes 8 (program_header_table_offset h) @
     le_bytes 8 (section_header_table_offset h) @ le_bytes 4 (header_flags h) @
     le_bytes 2 (header_size h) @ le_bytes 2 (program_header_entry_size h) @
     le_bytes 2 (program_header_entry_len h) @ le_bytes 2 (section_header_entry_size h) @
     le_bytes 2 (section_header_entry_len h) @
     le_bytes 2 (section_header_string_table_index h)"

section \<open>Program header\<close>

type_synonym elf_program_flags = u32

definition EXECUTABLE :: elf_program_flags where "EXECUTABLE = push_bit 0 1"
definition WRITABLE :: elf_program_flags where "WRITABLE = push_bit 1 1"
definition READABLE :: elf_program_flags where "READABLE = push_bit 2 1"

text \<open>The \<open>contains\<close> of a \<open>bitflags\<close> type: every bit of \<open>g\<close> is set in \<open>f\<close>.\<close>

definition contains :: "'a::len word \<Rightarrow> 'a word \<Rightarrow> bool" where
  "contains f g \<longleftrightarrow> f AND g = g"

record elf_program_header64 =
  ph_type :: u32
  ph_flags :: elf_program_flags
  segment_offset :: u64
  segment_virtual_address :: u64
  segment_physical_address :: u64
  segment_file_size :: u64
  segment_memory_size :: u64
  section_alignment :: u64

definition size_of_program_header64 :: usize where
  "size_of_program_header64 = 56"

definition decode_program_header64 :: "u8 list \<Rightarrow> elf_program_header64" where
  "decode_program_header64 bs =
     \<lparr> ph_type = le_field 0 4 bs,
       ph_flags = le_field 4 4 bs,
       segment_offset = le_field 8 8 bs,
       segment_virtual_address = le_field 16 8 bs,
       segment_physical_address = le_field 24 8 bs,
       segment_file_size = le_field 32 8 bs,
       segment_memory_size = le_field 40 8 bs,
       section_alignment = le_field 48 8 bs \<rparr>"

definition encode_program_header64 :: "elf_program_header64 \<Rightarrow> u8 list" where
  "encode_program_header64 h =
     le_bytes 4 (ph_type h) @ le_bytes 4 (ph_flags h) @ le_bytes 8 (segment_offset h) @
     le_bytes 8 (segment_virtual_address h) @ le_bytes 8 (segment_physical_address h) @
     le_bytes 8 (segment_file_size h) @ le_bytes 8 (segment_memory_size h) @
     le_bytes 8 (section_alignment h)"

section \<open>Section header\<close>

type_synonym elf_section_type = u32
type_synonym elf_section_flags = u64

definition section_type_names :: "(string \<times> elf_section_type) list" where
  "section_type_names =
     [(''NULL'', 0), (''PROGBITS'', 1), (''SYMTAB'', 2), (''STRTAB'', 3), (''RELA'', 4),
      (''HASH'', 5), (''DYNAMIC'', 6), (''NOTE'', 7), (''NOBITS'', 8), (''REL'', 9),
      (''SHLIB'', 10), (''DYNSYM'', 11)]"

definition section_flag_names :: "(string \<times> elf_section_flags) list" where
  "section_flag_names =
     [(''WRITE'', push_bit 0 1), (''ALLOC'', push_bit 1 1), (''EXECUTABLE'', push_bit 2 1),
      (''MERGE'', push_bit 4 1), (''STRINGS'', push_bit 5 1), (''INFO_LINK'', push_bit 6 1),
      (''LINK_ORDER'', push_bit 7 1), (''OS_NONCONFORMING'', push_bit 8 1),
      (''GROUP'', push_bit 9 1), (''TLS'', push_bit 10 1)]"

record elf_section_header64 =
  sh_name_offset :: u32
  section_type :: elf_section_type
  sh_flags :: elf_section_flags
  sh_virtual_address :: u64
  file_offset :: u64
  sh_size :: u64
  link :: u32
  info :: u32
  sh_alignment :: u64
  entry_size :: u64

definition size_of_section_header64 :: usize where
  "size_of_section_header64 = 64"

definition decode_section_header64 :: "u8 list \<Rightarrow> elf_section_header64" where
  "decode_section_header64 bs =
     \<lparr> sh_name_offset = le_field 0 4 bs,
       section_type = le_field 4 4 bs,
       sh_flags = le_field 8 8 bs,
       sh_virtual_address = le_field 16 8 bs,
       file_offset = le_field 24 8 bs,
       sh_size = le_field 32 8 bs,
       link = le_field 40 4 bs,
       info = le_field 44 4 bs,
       sh_alignment = le_field 48 8 bs,
       entry_size = le_field 56 8 bs \<rparr>"

definition encode_section_header64 :: "elf_section_header64 \<Rightarrow> u8 list" where
  "encode_section_header64 h =
     le_bytes 4 (sh_name_offset h) @ le_bytes 4 (section_type h) @ le_bytes 8 (sh_flags h) @
     le_bytes 8 (sh_virtual_address h) @ le_bytes 8 (file_offset h) @ le_bytes 8 (sh_size h) @
     le_bytes 4 (link h) @ le_bytes 4 (info h) @ le_bytes 8 (sh_alignment h) @
     le_bytes 8 (entry_size h)"

section \<open>Layout and round trips\<close>

lemma unat_sizes [layout_simps]:
  "unat size_of_prologue = 24" "unat size_of_header64 = 40"
  "unat size_of_program_header64 = 56" "unat size_of_section_header64 = 64"
  by (simp_all add: size_of_prologue_def size_of_header64_def size_of_program_header64_def
      size_of_section_header64_def)

lemma length_encode_header64 [layout_simps]:
  "length (encode_header64 h) = unat size_of_header64"
  by (simp add: encode_header64_def size_of_header64_def)

lemma length_encode_program_header64 [layout_simps]:
  "length (encode_program_header64 h) = unat size_of_program_header64"
  by (simp add: encode_program_header64_def size_of_program_header64_def)

lemma length_encode_section_header64 [layout_simps]:
  "length (encode_section_header64 h) = unat size_of_section_header64"
  by (simp add: encode_section_header64_def size_of_section_header64_def)

text \<open>A field read back from the place it was written at, whatever surrounds it.\<close>

lemma le_field_append:
  fixes w :: "'a::len word"
  assumes "length pre = off" and "8 * n = LENGTH('a)"
  shows "le_field off n (pre @ le_bytes n w @ post) = w"
  using assms by (simp add: le_field_def)

lemma decode_prologue_encode:
  assumes "length (magic p) = 4" and "length (prologue_padding p) = 8"
  shows "decode_prologue (encode_prologue p @ rest) = p"
  using assms
  by (simp add: decode_prologue_def encode_prologue_def le_field_def drop_Cons' take_Cons'
      del: le_bytes.simps)

lemma decode_header64_encode: "decode_header64 (encode_header64 h @ rest) = h"
  by (simp add: decode_header64_def encode_header64_def le_field_def)

lemma decode_program_header64_encode:
  "decode_program_header64 (encode_program_header64 h @ rest) = h"
  by (simp add: decode_program_header64_def encode_program_header64_def le_field_def)

lemma decode_section_header64_encode:
  "decode_section_header64 (encode_section_header64 h @ rest) = h"
  by (simp add: decode_section_header64_def encode_section_header64_def le_field_def)

end
