(* ===== verification/Elf_File.thy ===== *)
theory Elf_File
  imports Elf_Sys
begin

text \<open>
  The ELF program loader (\<open>elf/src/lib.rs\<close>): the byte \<open>Reader\<close>, the parser of a file
  (\<open>Elf::from_bytes\<close> and \<open>Elf64::from_bytes\<close>) and the two table iterators
  (\<open>Elf64Programs\<close>, \<open>Elf64Sections\<close>). The errors are values of \<open>elf_error\<close>; a panic of
  the parser is an outcome of \<open>exec\<close>.
\<close>

section \<open>Errors\<close>

datatype elf_error =
    InvalidMagic "u8 list"
  | InvalidArch u8
  | InvalidEndian u8
  | InvalidSegmentType u32
  | IntDoesntFit
  | MissingStringTable
  | Eof

text \<open>\<open>try_into\<close> a \<open>usize\<close>: the value, when the target's \<open>usize\<close> can hold it.\<close>

definition int_fit :: "'a::len word \<Rightarrow> elf_error + usize" where
  "int_fit x = (if unat x < 2 ^ LENGTH(64) then Inr (ucast x) else Inl IntDoesntFit)"

definition ok_or :: "'a option \<Rightarrow> 'e \<Rightarrow> 'e + 'a" where
  "ok_or x e = (case x of None \<Rightarrow> Inl e | Some y \<Rightarrow> Inr y)"

fun bind_res :: "'e + 'a \<Rightarrow> ('a \<Rightarrow> 'e + 'b) \<Rightarrow> 'e + 'b" where
  "bind_res (Inl e) f = Inl e"
| "bind_res (Inr x) f = f x"

section \<open>Reader\<close>

record reader =
  bytes :: "u8 list"

definition fork :: "reader \<Rightarrow> usize \<Rightarrow> reader option" where
  "fork r offset = map_option (\<lambda>(_, bs). \<lparr>bytes = bs\<rparr>) (split_at_checked (bytes r) offset)"

text \<open>\<open>take\<close> and \<open>read\<close> advance the reader only when enough bytes are left.\<close>

definition reader_take :: "reader \<Rightarrow> usize \<Rightarrow> u8 list option \<times> reader" where
  "reader_take r count =
     (case split_at_checked (bytes r) count of
        None \<Rightarrow> (None, r)
      | Some (taken, bs) \<Rightarrow> (Some taken, r\<lparr>bytes := bs\<rparr>))"

definition reader_read :: "usize \<Rightarrow> (u8 list \<Rightarrow> 't) \<Rightarrow> reader \<Rightarrow> 't option \<times> reader" where
  "reader_read sz decode r =
     (case reader_take r sz of
        (None, r') \<Rightarrow> (None, r')
      | (Some taken, r') \<Rightarrow> (Some (decode taken), r'))"

section \<open>Parsed files\<close>

record elf_section64 =
  name_offset :: usize
  section_data :: "u8 list"
  section_virtual_address :: u64

record elf64 =
  header :: elf_header64
  file_reader :: reader
  program_table_reader :: reader
  section_table_reader :: reader
  string_table :: elf_section64

text \<open>\<open>Elf::N32\<close> carries the never type, so only the 64-bit constructor has values.\<close>

datatype elf = N64 elf64

datatype elf_segment_type =
    SegNull | SegLoad | SegDynamic | SegInterp | SegNote | SegShlib | SegHeader | SegTls
  | SegUnknown u32

record elf_segment64 =
  segment_type :: elf_segment_type
  segment_data :: "u8 list"
  segment_flags :: elf_program_flags
  virtual_address :: u64
  physical_address :: u64
  memory_size :: u64
  alignment :: u64

fun segment_type_eq :: "elf_segment_type \<Rightarrow> elf_segment_type \<Rightarrow> bool" where
  "segment_type_eq SegNull SegNull = True"
| "segment_type_eq SegLoad SegLoad = True"
| "segment_type_eq SegDynamic SegDynamic = True"
| "segment_type_eq SegInterp SegInterp = True"
| "segment_type_eq SegNote SegNote = True"
| "segment_type_eq SegShlib SegShlib = True"
| "segment_type_eq SegHeader SegHeader = True"
| "segment_type_eq SegTls SegTls = True"
| "segment_type_eq (SegUnknown l) (SegUnknown r) = (l = r)"
| "segment_type_eq _ _ = False"

definition segment_type_of :: "u32 \<Rightarrow> elf_segment_type" where
  "segment_type_of n =
     (if n = 0 then SegNull else if n = 1 then SegLoad else if n = 2 then SegDynamic
      else if n = 3 then SegInterp else if n = 4 then SegNote else if n = 5 then SegShlib
      else if n = 6 then SegHeader else if n = 7 then SegTls else SegUnknown n)"

section \<open>The program header iterator\<close>

record elf64_programs =
  programs_len :: u16
  programs_stride :: u16
  programs_file_reader :: reader
  programs_table_reader :: reader

text \<open>The \<open>data\<close> of a segment or section: \<open>sz\<close> bytes at \<open>offset\<close> of the file.\<close>

definition read_data :: "reader \<Rightarrow> u64 \<Rightarrow> u64 \<Rightarrow> elf_error + u8 list" where
  "read_data file offset sz =
     bind_res (int_fit offset) (\<lambda>off.
     bind_res (ok_or (fork file off) Eof) (\<lambda>forked.
     bind_res (int_fit sz) (\<lambda>n.
       ok_or (fst (reader_take forked n)) Eof)))"

definition segment_of_header :: "reader \<Rightarrow> elf_program_header64 \<Rightarrow> elf_error + elf_segment64" where
  "segment_of_header file h =
     bind_res (read_data file (segment_offset h) (segment_file_size h)) (\<lambda>data.
       Inr \<lparr> segment_type = segment_type_of (ph_type h),
             segment_data = data,
             segment_flags = ph_flags h,
             virtual_address = segment_virtual_address h,
             physical_address = segment_physical_address h,
             memory_size = segment_memory_size h,
             alignment = section_alignment h \<rparr>)"

definition programs_next ::
  "elf64_programs \<Rightarrow> (elf_error + elf_segment64) option \<times> elf64_programs" where
  "programs_next it =
     (case checked_sub (programs_len it) 1 of
        None \<Rightarrow> (None, it)
      | Some n \<Rightarrow>
          let it1 = it\<lparr>programs_len := n\<rparr> in
          (case fst (reader_read size_of_program_header64 decode_program_header64
                       (programs_table_reader it1)) of
             None \<Rightarrow> (None, it1)
           | Some h \<Rightarrow>
               (Some (segment_of_header (programs_file_reader it1) h),
                it1\<lparr>programs_table_reader :=
                     snd (reader_take (programs_table_reader it1)
                            (ucast (programs_stride it1)))\<rparr>)))"

definition programs_size_hint :: "elf64_programs \<Rightarrow> usize \<times> usize option" where
  "programs_size_hint it = (let len = ucast (programs_len it) in (len, Some len))"

definition programs_len_exact :: "elf64_programs \<Rightarrow> usize" where
  "programs_len_exact it = ucast (programs_len it)"

section \<open>The section header iterator\<close>

record elf64_sections =
  sections_len :: u16
  sections_stride :: u16
  sections_file_reader :: reader
  sections_table_reader :: reader

definition section_of_header :: "reader \<Rightarrow> elf_section_header64 \<Rightarrow> elf_error + elf_section64" where
  "section_of_header file h =
     bind_res (read_data file (file_offset h) (sh_size h)) (\<lambda>data.
       Inr \<lparr> name_offset = ucast (sh_name_offset h),
             section_data = data,
             section_virtual_address = sh_virtual_address h \<rparr>)"

definition sections_next ::
  "elf64_sections \<Rightarrow> (elf_error + elf_section64) option \<times> elf64_sections" where
  "sections_next it =
     (case checked_sub (sections_len it) 1 of
        None \<Rightarrow> (None, it)
      | Some n \<Rightarrow>
          let it1 = it\<lparr>sections_len := n\<rparr> in
          (case fst (reader_read size_of_section_header64 decode_section_header64
                       (sections_table_reader it1)) of
             None \<Rightarrow> (None, it1)
           | Some h \<Rightarrow>
               (Some (section_of_header (sections_file_reader it1) h),
                it1\<lparr>sections_table_reader :=
                     snd (reader_take (sections_table_reader it1)
                            (ucast (sections_stride it1)))\<rparr>)))"

definition sections_size_hint :: "elf64_sections \<Rightarrow> usize \<times> usize option" where
  "sections_size_hint it = (let len = ucast (sections_len it) in (len, Some len))"

definition sections_len_exact :: "elf64_sections \<Rightarrow> usize" where
  "sections_len_exact it = ucast (sections_len it)"

section \<open>Parsing\<close>

text \<open>
  The search for the string table: the section at index \<open>idx\<close>, counted in \<open>u16\<close>. Every
  round consumes one entry of the iterator, which is what bounds the loop.
\<close>

lemma sections_next_Some_len:
  "sections_next it = (Some x, it') \<Longrightarrow> unat (sections_len it) = Suc (unat (sections_len it'))"
  by (auto simp: sections_next_def Let_def split: option.splits dest: checked_sub_1_unat)

function find_string_table ::
  "u16 \<Rightarrow> u16 \<Rightarrow> elf64_sections \<Rightarrow> elf_error + elf_section64" where
  "find_string_table idx i it =
     (case sections_next it of
        (None, _) \<Rightarrow> Inl MissingStringTable
      | (Some section, it') \<Rightarrow>
          if i = idx then section else find_string_table idx (i + 1) it')"
  by pat_completeness auto
termination
  by (relation "measure (\<lambda>(_, _, it). unat (sections_len it))")
    (auto dest: sections_next_Some_len [OF sym])

declare find_string_table.simps [simp del]

definition elf64_from_bytes :: "reader \<Rightarrow> reader \<Rightarrow> elf_error + elf64" where
  "elf64_from_bytes file header_reader =
     bind_res (ok_or (fst (reader_read size_of_header64 decode_header64 header_reader)) Eof) (\<lambda>h.
     bind_res (int_fit (program_header_table_offset h)) (\<lambda>phoff.
     bind_res (ok_or (fork file phoff) Eof) (\<lambda>pt.
     bind_res (int_fit (section_header_table_offset h)) (\<lambda>shoff.
     bind_res (ok_or (fork file shoff) Eof) (\<lambda>st.
     bind_res
       (find_string_table (section_header_string_table_index h) 0
          \<lparr> sections_len = section_header_entry_len h,
            sections_stride = section_header_entry_size h,
            sections_file_reader = file,
            sections_table_reader = st \<rparr>) (\<lambda>strtab.
       Inr \<lparr> header = h,
             file_reader = file,
             program_table_reader = pt,
             section_table_reader = st,
             string_table = strtab \<rparr>))))))"

definition elf_magic :: "u8 list" where
  "elf_magic = [0x7F, 0x45, 0x4C, 0x46]"

definition elf_from_bytes :: "u8 list \<Rightarrow> (elf_error + elf) exec" where
  "elf_from_bytes bs =
     (let file = \<lparr>bytes = bs\<rparr> in
      case reader_read size_of_prologue decode_prologue file of
        (None, _) \<Rightarrow> Ret (Inl Eof)
      | (Some p, header_reader) \<Rightarrow>
          if magic p \<noteq> elf_magic then Ret (Inl (InvalidMagic (magic p)))
          else if arch p = 1 then Panic ''32-bit ELF isn't supported yet''
          else if arch p = 2 then
            Ret (bind_res (elf64_from_bytes file header_reader) (\<lambda>e. Inr (N64 e)))
          else Ret (Inl (InvalidArch (arch p))))"

section \<open>Accessors\<close>

definition program_entry :: "elf64 \<Rightarrow> u64" where
  "program_entry e = program_entry_offset (header e)"

definition program_header_count :: "elf64 \<Rightarrow> usize" where
  "program_header_count e = ucast (program_header_entry_len (header e))"

definition program_segments :: "elf64 \<Rightarrow> elf64_programs" where
  "program_segments e =
     \<lparr> programs_len = program_header_entry_len (header e),
       programs_stride = program_header_entry_size (header e),
       programs_file_reader = file_reader e,
       programs_table_reader = program_table_reader e \<rparr>"

definition sections :: "elf64 \<Rightarrow> elf64_sections" where
  "sections e =
     \<lparr> sections_len = section_header_entry_len (header e),
       sections_stride = section_header_entry_size (header e),
       sections_file_reader = file_reader e,
       sections_table_reader = section_table_reader e \<rparr>"

text \<open>
  \<open>ElfSection64::name\<close>: the loop moves \<open>end\<close> to the next NUL or to the end of the
  string table; the slice \<open>start..end\<close> panics when the end is past the data.
\<close>

function name_end :: "u8 list \<Rightarrow> nat \<Rightarrow> nat" where
  "name_end data e = (if e < length data \<and> data ! e \<noteq> 0 then name_end data (Suc e) else e)"
  by pat_completeness auto
termination
  by (relation "measure (\<lambda>(data, e). length data - e)") auto

declare name_end.simps [simp del]

definition section_name :: "elf_section64 \<Rightarrow> elf64 \<Rightarrow> u8 list exec" where
  "section_name s e =
     (let data = section_data (string_table e);
          start = unat (name_offset s);
          stop = name_end data start
      in if stop \<le> length data then Ret (take (stop - start) (drop start data))
         else Panic ''slice index out of range'')"

section \<open>Copies\<close>

text \<open>The \<open>Clone\<close> implementations, field by field: a copy is the same value.\<close>

definition reader_clone :: "reader \<Rightarrow> reader" where
  "reader_clone r = \<lparr> bytes = bytes r \<rparr>"

definition section_clone :: "elf_section64 \<Rightarrow> elf_section64" where
  "section_clone s =
     \<lparr> name_offset = name_offset s, section_data = section_data s,
       section_virtual_address = section_virtual_address s \<rparr>"

definition elf64_clone :: "elf64 \<Rightarrow> elf64" where
  "elf64_clone e =
     \<lparr> header = header e, file_reader = reader_clone (file_reader e),
       program_table_reader = reader_clone (program_table_reader e),
       section_table_reader = reader_clone (section_table_reader e),
       string_table = section_clone (string_table e) \<rparr>"

fun elf_clone :: "elf \<Rightarrow> elf" where
  "elf_clone (N64 e) = N64 (elf64_clone e)"

lemma clones_are_equal:
  "reader_clone r = r" "section_clone s = s" "elf64_clone e = e" "elf_clone x = x"
  by (cases x; simp add: reader_clone_def section_clone_def elf64_clone_def)+

end
