(* ===== verification/Elf_Tables.thy ===== *)
theory Elf_Tables
  imports Elf_File
begin

text \<open>
  What the two header-table iterators promise: a \<open>for\<close> loop over one terminates and
  sees exactly the entries that direct indexing \<open>table + i * stride\<close> gives. The
  contract is stated once, as the locale \<open>table_iterator\<close>, and both
  \<open>Elf64Programs\<close> and \<open>Elf64Sections\<close> are interpretations of it.
\<close>

section \<open>Running an iterator\<close>

text \<open>The items a \<open>for\<close> loop sees in its first \<open>n\<close> rounds; it stops at \<open>None\<close>.\<close>

fun drain :: "('it \<Rightarrow> 'a option \<times> 'it) \<Rightarrow> nat \<Rightarrow> 'it \<Rightarrow> 'a list" where
  "drain nxt 0 it = []"
| "drain nxt (Suc n) it =
     (case nxt it of (None, _) \<Rightarrow> [] | (Some x, it') \<Rightarrow> x # drain nxt n it')"

section \<open>The contract of a header table\<close>

text \<open>Entry \<open>i\<close> of a table of \<open>hsize\<close>-byte headers, \<open>stride\<close> bytes apart.\<close>

definition entry_bytes :: "u8 list \<Rightarrow> nat \<Rightarrow> nat \<Rightarrow> nat \<Rightarrow> u8 list" where
  "entry_bytes table stride hsize i = take hsize (drop (i * stride) table)"

definition table_fits :: "u8 list \<Rightarrow> nat \<Rightarrow> nat \<Rightarrow> nat \<Rightarrow> bool" where
  "table_fits table stride hsize n \<longleftrightarrow> n = 0 \<or> (n - 1) * stride + hsize \<le> length table"

locale table_iterator =
  fixes nxt :: "'it \<Rightarrow> 'a option \<times> 'it"
    and len :: "'it \<Rightarrow> nat"
    and stride :: "'it \<Rightarrow> nat"
    and table :: "'it \<Rightarrow> u8 list"
    and hsize :: nat
    and item :: "'it \<Rightarrow> u8 list \<Rightarrow> 'a"
  assumes exhausted: "len it = 0 \<Longrightarrow> nxt it = (None, it)"
    and truncated: "len it \<noteq> 0 \<Longrightarrow> length (table it) < hsize \<Longrightarrow>
      \<exists>it'. nxt it = (None, it') \<and> len it' = len it - 1 \<and> table it' = table it"
    and yields: "len it \<noteq> 0 \<Longrightarrow> hsize \<le> length (table it) \<Longrightarrow>
      \<exists>it'. nxt it = (Some (item it (take hsize (table it))), it') \<and>
        len it' = len it - 1 \<and> stride it' = stride it \<and> item it' = item it \<and>
        table it' = (if stride it \<le> length (table it) then drop (stride it) (table it)
                     else table it)"
begin

lemma next_None_iff: "fst (nxt it) = None \<longleftrightarrow> len it = 0 \<or> length (table it) < hsize"
  using exhausted [of it] truncated [of it] yields [of it]
  by (cases "len it = 0"; cases "length (table it) < hsize") auto

text \<open>\<open>FusedIterator\<close>: after the first \<open>None\<close> every call returns \<open>None\<close>.\<close>

lemma fused:
  assumes "nxt it = (None, it')"
  shows "fst (nxt it') = None"
proof (cases "len it = 0")
  case True
  with assms exhausted [of it] show ?thesis by simp
next
  case False
  with assms have "length (table it) < hsize"
    using next_None_iff [of it] by simp
  with False assms truncated [of it] show ?thesis
    by (auto simp: next_None_iff)
qed

lemma drain_enough: "len it \<le> n \<Longrightarrow> drain nxt n it = drain nxt (len it) it"
proof (induction n arbitrary: it)
  case 0
  then show ?case by simp
next
  case (Suc n)
  show ?case
  proof (cases "fst (nxt it) = None")
    case True
    then show ?thesis by (cases "nxt it"; cases "len it") auto
  next
    case False
    then have "len it \<noteq> 0" "hsize \<le> length (table it)" by (auto simp: next_None_iff)
    with yields [of it] obtain x it' where
      it': "nxt it = (Some x, it')" "len it = Suc (len it')" by auto
    with Suc show ?thesis by simp
  qed
qed

lemma length_drain: "length (drain nxt n it) \<le> len it"
proof (induction n arbitrary: it)
  case 0
  then show ?case by simp
next
  case (Suc n)
  then show ?case
    using next_None_iff [of it] yields [of it]
    by (cases "nxt it"; cases "fst (nxt it)") (auto simp: not_less, metis Suc_leI Suc.IH
        Suc_pred le_imp_less_Suc neq0_conv)
qed

text \<open>The table read through the iterator is the table read by direct indexing.\<close>

lemma drain_reference:
  assumes "table_fits (table it) (stride it) hsize (len it)"
  shows "drain nxt (len it) it =
    map (\<lambda>i. item it (entry_bytes (table it) (stride it) hsize i)) [0..<len it]"
  using assms
proof (induction "len it" arbitrary: it)
  case 0
  then show ?case by simp
next
  case (Suc n)
  from Suc.hyps(2) Suc.prems have bound: "n * stride it + hsize \<le> length (table it)"
    by (simp add: table_fits_def flip: Suc.hyps(2))
  then have "hsize \<le> length (table it)" by simp
  with yields [of it] Suc.hyps(2) obtain it' where
    nx: "nxt it = (Some (item it (take hsize (table it))), it')" and
    l': "n = len it'" and s': "stride it' = stride it" and i': "item it' = item it" and
    t': "table it' = (if stride it \<le> length (table it) then drop (stride it) (table it)
                     else table it)"
    by auto
  have t'': "table it' = drop (stride it) (table it)" if "0 < n"
    using that bound t' by (cases n) auto
  have fits: "table_fits (table it') (stride it') hsize (len it')"
  proof (cases "n = 0")
    case True
    with l' show ?thesis by (simp add: table_fits_def)
  next
    case False
    with bound t'' l' s' show ?thesis
      by (cases n) (auto simp: table_fits_def algebra_simps)
  qed
  have "drain nxt (len it) it = item it (take hsize (table it)) # drain nxt (len it') it'"
    using nx Suc.hyps(2) l' by (metis drain.simps(2) case_prod_conv option.simps(5))
  also have "drain nxt (len it') it' =
      map (\<lambda>i. item it (entry_bytes (table it') (stride it) hsize i)) [0..<n]"
    using Suc.hyps(1) [OF l' fits] i' s' l' by simp
  also have "\<dots> = map (\<lambda>i. item it (entry_bytes (table it) (stride it) hsize (Suc i))) [0..<n]"
    using t'' by (auto simp: entry_bytes_def add.commute)
  finally show ?case
    unfolding Suc.hyps(2) [symmetric] upt_conv_Cons [OF zero_less_Suc] map_Suc_upt [symmetric]
    by (simp add: entry_bytes_def)
qed

end

section \<open>Both iterators keep the contract\<close>

lemma fst_reader_read:
  "fst (reader_read hsize decode r) =
     (if unat hsize \<le> length (bytes r) then Some (decode (take (unat hsize) (bytes r))) else None)"
  by (auto simp: reader_read_def reader_take_def split: option.splits prod.splits)

lemma bytes_reader_take:
  "bytes (snd (reader_take r n)) =
     (if unat n \<le> length (bytes r) then drop (unat n) (bytes r) else bytes r)"
  by (auto simp: reader_take_def split: option.splits)

lemma unat_dec: "n \<noteq> 0 \<Longrightarrow> unat (n - 1 :: u16) = unat n - 1"
  by (simp add: unat_minus_one)

lemma checked_sub_Some_dec: "n \<noteq> 0 \<Longrightarrow> checked_sub n 1 = Some (n - 1)"
  by (simp add: checked_sub_def unat_word_pos)

lemma checked_sub_0 [simp]: "checked_sub (0 :: 'a::len word) 1 = None"
  by simp

interpretation programs: table_iterator programs_next
  "\<lambda>it. unat (programs_len it)" "\<lambda>it. unat (programs_stride it)"
  "\<lambda>it. bytes (programs_table_reader it)" "unat size_of_program_header64"
  "\<lambda>it bs. segment_of_header (programs_file_reader it) (decode_program_header64 bs)"
  by unfold_locales
    (auto simp: programs_next_def Let_def fst_reader_read bytes_reader_take unat_dec
       checked_sub_Some_dec unat_eq_0
       split: option.splits)

interpretation section_iter: table_iterator sections_next
  "\<lambda>it. unat (sections_len it)" "\<lambda>it. unat (sections_stride it)"
  "\<lambda>it. bytes (sections_table_reader it)" "unat size_of_section_header64"
  "\<lambda>it bs. section_of_header (sections_file_reader it) (decode_section_header64 bs)"
  by unfold_locales
    (auto simp: sections_next_def Let_def fst_reader_read bytes_reader_take unat_dec
       checked_sub_Some_dec unat_eq_0
       split: option.splits)

end
