(* ===== verification/Elf_Correct.thy ===== *)
theory Elf_Correct
  imports Elf_Tables
begin

text \<open>
  Correctness of the ELF loader: what \<open>Elf::from_bytes\<close> accepts and what it reports,
  which bytes a segment carries, the header tables against direct indexing into the
  file, and section names.
\<close>

section \<open>Lemmas\<close>

lemma int_fit_64 [simp]: "int_fit (x :: u64) = Inr x"
proof -
  have "unat x < 2 ^ LENGTH(64)" by (rule unsigned_less)
  then show ?thesis by (simp only: int_fit_def if_True ucast_id)
qed

lemma bind_res_Inr [simp]: "bind_res m f = Inr y \<longleftrightarrow> (\<exists>x. m = Inr x \<and> f x = Inr y)"
  by (cases m) auto

lemma ok_or_Inr [simp]: "ok_or x e = Inr y \<longleftrightarrow> x = Some y"
  by (auto simp: ok_or_def split: option.splits)

lemma reader_read_eq:
  "reader_read sz decode r =
     (if unat sz \<le> length (bytes r)
      then (Some (decode (take (unat sz) (bytes r))), \<lparr>bytes = drop (unat sz) (bytes r)\<rparr>)
      else (None, r))"
  by (cases r) (auto simp: reader_read_def reader_take_def split_at_checked_def)

lemma fork_eq:
  "fork r n = (if unat n \<le> length (bytes r) then Some \<lparr>bytes = drop (unat n) (bytes r)\<rparr> else None)"
  by (auto simp: fork_def split_at_checked_def)

lemma read_data_eq:
  "read_data file offset sz =
     (if unat offset + unat sz \<le> length (bytes file)
      then Inr (take (unat sz) (drop (unat offset) (bytes file))) else Inl Eof)"
  by (auto simp: read_data_def ok_or_def fork_eq reader_take_def split_at_checked_def)

text \<open>The search for the string table is an index into the sections the iterator yields.\<close>

definition nth_section ::
  "(elf_error + elf_section64) list \<Rightarrow> nat \<Rightarrow> elf_error + elf_section64" where
  "nth_section xs k = (if k < length xs then xs ! k else Inl MissingStringTable)"

lemma unat_plus_1:
  assumes "unat (i :: u16) < unat (j :: u16)"
  shows "unat (i + 1) = Suc (unat i)"
proof -
  have "unat j < 2 ^ LENGTH(16)" by (rule unsigned_less)
  with assms have "Suc (unat i) < 2 ^ LENGTH(16)" by simp
  then show ?thesis by (simp add: unat_word_ariths)
qed

lemma find_string_table_eq:
  "unat i \<le> unat idx \<Longrightarrow> find_string_table idx i it =
     nth_section (drain sections_next (unat (sections_len it)) it) (unat idx - unat i)"
proof (induction idx i it rule: find_string_table.induct)
  case (1 idx i it)
  show ?case
  proof (cases "sections_next it")
    case (Pair o' it')
    show ?thesis
    proof (cases o')
      case None
      with Pair show ?thesis
        by (cases "unat (sections_len it)")
          (simp_all add: find_string_table.simps [of idx i it] nth_section_def)
    next
      case (Some x)
      with Pair have len: "unat (sections_len it) = Suc (unat (sections_len it'))"
        by (simp add: sections_next_Some_len)
      show ?thesis
      proof (cases "i = idx")
        case True
        with Pair Some len show ?thesis
          by (simp add: find_string_table.simps [of idx idx it] nth_section_def)
      next
        case False
        with "1.prems" have lt: "unat i < unat idx" by (metis le_neq_implies_less word_unat_eq_iff)
        then have next_i: "unat (i + 1) = Suc (unat i)" by (rule unat_plus_1)
        have "find_string_table idx (i + 1) it' =
            nth_section (drain sections_next (unat (sections_len it')) it') (unat idx - unat (i + 1))"
          using "1.IH" [OF Pair [symmetric] Some False] lt next_i by simp
        moreover have "unat idx - unat i = Suc (unat idx - unat (i + 1))"
          using lt next_i by simp
        ultimately show ?thesis
          using Pair Some len False
          by (simp add: find_string_table.simps [of idx i it] nth_section_def)
      qed
    qed
  qed
qed

lemma name_end_takeWhile:
  "e \<le> length data \<Longrightarrow> name_end data e = e + length (takeWhile (\<lambda>b. b \<noteq> 0) (drop e data))"
proof (induction data e rule: name_end.induct)
  case (1 data e)
  then show ?case
    by (cases "e < length data"; cases "data ! e = 0")
      (simp_all add: name_end.simps [of data e] name_end.simps [of data "length data"] Cons_nth_drop_Suc [symmetric])
qed

lemma name_end_past: "length data < e \<Longrightarrow> name_end data e = e"
  by (simp add: name_end.simps [of data e])

text \<open>The files \<open>Elf::from_bytes\<close> accepts, and the value it returns for them.\<close>

definition accepted_elf :: "u8 list \<Rightarrow> elf64 \<Rightarrow> bool" where
  "accepted_elf bs e \<longleftrightarrow>
     64 \<le> length bs \<and> take 4 bs = elf_magic \<and> arch (decode_prologue (take 24 bs)) = 2 \<and>
     header e = decode_header64 (take 40 (drop 24 bs)) \<and>
     unat (program_header_table_offset (header e)) \<le> length bs \<and>
     unat (section_header_table_offset (header e)) \<le> length bs \<and>
     file_reader e = \<lparr>bytes = bs\<rparr> \<and>
     program_table_reader e =
       \<lparr>bytes = drop (unat (program_header_table_offset (header e))) bs\<rparr> \<and>
     section_table_reader e =
       \<lparr>bytes = drop (unat (section_header_table_offset (header e))) bs\<rparr> \<and>
     nth_section
       (drain sections_next (unat (section_header_entry_len (header e))) (sections e))
       (unat (section_header_string_table_index (header e))) = Inr (string_table e)"

lemma from_bytes_accepted:
  "elf_from_bytes bs = Ret (Inr (N64 e)) \<longleftrightarrow> accepted_elf bs e"
proof -
  define h where "h = decode_header64 (take 40 (drop 24 bs))"
  have head: "reader_read size_of_prologue decode_prologue \<lparr>bytes = bs\<rparr> =
      (if 24 \<le> length bs then (Some (decode_prologue (take 24 bs)), \<lparr>bytes = drop 24 bs\<rparr>)
       else (None, \<lparr>bytes = bs\<rparr>))"
    by (simp add: reader_read_eq layout_simps)
  have body: "elf64_from_bytes \<lparr>bytes = bs\<rparr> \<lparr>bytes = drop 24 bs\<rparr> = Inr e \<longleftrightarrow>
      40 \<le> length bs - 24 \<and> header e = h \<and>
      unat (program_header_table_offset h) \<le> length bs \<and>
      unat (section_header_table_offset h) \<le> length bs \<and>
      file_reader e = \<lparr>bytes = bs\<rparr> \<and>
      program_table_reader e = \<lparr>bytes = drop (unat (program_header_table_offset h)) bs\<rparr> \<and>
      section_table_reader e = \<lparr>bytes = drop (unat (section_header_table_offset h)) bs\<rparr> \<and>
      nth_section (drain sections_next (unat (section_header_entry_len h)) (sections e))
        (unat (section_header_string_table_index h)) = Inr (string_table e)"
    by (cases e)
      (auto simp: elf64_from_bytes_def fork_eq reader_read_eq layout_simps h_def sections_def
         find_string_table_eq)
  show ?thesis
  proof (cases "24 \<le> length bs")
    case True
    then show ?thesis
      using body
      by (auto simp: accepted_elf_def elf_from_bytes_def head h_def decode_prologue_def Let_def)
  next
    case False
    then show ?thesis by (simp add: accepted_elf_def elf_from_bytes_def head Let_def)
  qed
qed


section \<open>Properties\<close>

text \<open>
  Converting a program header to a segment yields exactly the \<open>segment_file_size\<close>
  bytes at \<open>segment_offset\<close> of the file, with the header's type, flags, addresses and
  sizes, whenever that range lies inside the file; otherwise the result is \<open>Eof\<close>, and
  no other error occurs. Offset and size are added without wrap-around.
\<close>

theorem segment_of_header_spec:
  "segment_of_header \<lparr>bytes = bs\<rparr> h =
     (if unat (segment_offset h) + unat (segment_file_size h) \<le> length bs
      then Inr \<lparr> segment_type = segment_type_of (ph_type h),
                 segment_data =
                   take (unat (segment_file_size h)) (drop (unat (segment_offset h)) bs),
                 segment_flags = ph_flags h,
                 virtual_address = segment_virtual_address h,
                 physical_address = segment_physical_address h,
                 memory_size = segment_memory_size h,
                 alignment = section_alignment h \<rparr>
      else Inl Eof)"
  by (simp add: segment_of_header_def read_data_eq)

text \<open>
  \<open>Elf::from_bytes\<close> accepts exactly the files that start with the ELF magic and
  class 2, hold the 64 bytes of both headers, have their program and section header
  table offsets inside the file, and whose section at the string table index is
  yielded by the section iterator and readable; the result then holds the decoded
  header, the two tables and that section.
\<close>

theorem elf_from_bytes_accepts:
  "elf_from_bytes bs = Ret (Inr (N64 e)) \<longleftrightarrow>
     64 \<le> length bs \<and> take 4 bs = elf_magic \<and> arch (decode_prologue (take 24 bs)) = 2 \<and>
     header e = decode_header64 (take 40 (drop 24 bs)) \<and>
     unat (program_header_table_offset (header e)) \<le> length bs \<and>
     unat (section_header_table_offset (header e)) \<le> length bs \<and>
     file_reader e = \<lparr>bytes = bs\<rparr> \<and>
     program_table_reader e =
       \<lparr>bytes = drop (unat (program_header_table_offset (header e))) bs\<rparr> \<and>
     section_table_reader e =
       \<lparr>bytes = drop (unat (section_header_table_offset (header e))) bs\<rparr> \<and>
     nth_section
       (drain sections_next (unat (section_header_entry_len (header e))) (sections e))
       (unat (section_header_string_table_index (header e))) = Inr (string_table e)"
  using from_bytes_accepted by (simp only: accepted_elf_def)

text \<open>
  C39: Every other outcome of \<open>Elf::from_bytes\<close>: a file shorter than the prologue is
  \<open>Eof\<close>; then a wrong magic is \<open>InvalidMagic\<close> with the four bytes; then class 1 panics
  and a class other than 2 is \<open>InvalidArch\<close>; then a missing second header, or a table
  offset past the end, is \<open>Eof\<close>; then the error of the string-table section is
  reported, or \<open>MissingStringTable\<close> when there is no such section. The byte order
  field is never looked at: no file is answered with \<open>InvalidEndian\<close>.
\<close>

theorem elf_from_bytes_errors:
  "elf_from_bytes bs =
     (if length bs < 24 then Ret (Inl Eof)
      else if take 4 bs \<noteq> elf_magic then Ret (Inl (InvalidMagic (take 4 bs)))
      else if arch (decode_prologue (take 24 bs)) = 1
        then Panic ''32-bit ELF isn't supported yet''
      else if arch (decode_prologue (take 24 bs)) \<noteq> 2
        then Ret (Inl (InvalidArch (arch (decode_prologue (take 24 bs)))))
      else if length bs < 64 then Ret (Inl Eof)
      else
        (let h = decode_header64 (take 40 (drop 24 bs));
             phoff = unat (program_header_table_offset h);
             shoff = unat (section_header_table_offset h) in
         if length bs < phoff \<or> length bs < shoff then Ret (Inl Eof)
         else
           (let it = \<lparr> sections_len = section_header_entry_len h,
                       sections_stride = section_header_entry_size h,
                       sections_file_reader = \<lparr>bytes = bs\<rparr>,
                       sections_table_reader = \<lparr>bytes = drop shoff bs\<rparr> \<rparr> in
            case nth_section (drain sections_next (unat (sections_len it)) it)
                   (unat (section_header_string_table_index h)) of
              Inl er \<Rightarrow> Ret (Inl er)
            | Inr strtab \<Rightarrow>
                Ret (Inr (N64 \<lparr> header = h, file_reader = \<lparr>bytes = bs\<rparr>,
                                program_table_reader = \<lparr>bytes = drop phoff bs\<rparr>,
                                section_table_reader = \<lparr>bytes = drop shoff bs\<rparr>,
                                string_table = strtab \<rparr>)))))"
proof -
  have head: "reader_read size_of_prologue decode_prologue \<lparr>bytes = bs\<rparr> =
      (if 24 \<le> length bs then (Some (decode_prologue (take 24 bs)), \<lparr>bytes = drop 24 bs\<rparr>)
       else (None, \<lparr>bytes = bs\<rparr>))"
    by (simp add: reader_read_eq layout_simps)
  define h where "h = decode_header64 (take 40 (drop 24 bs))"
  let ?it = "\<lparr> sections_len = section_header_entry_len h,
               sections_stride = section_header_entry_size h,
               sections_file_reader = \<lparr>bytes = bs\<rparr>,
               sections_table_reader =
                 \<lparr>bytes = drop (unat (section_header_table_offset h)) bs\<rparr> \<rparr>"
  define str where "str = nth_section (drain sections_next (unat (sections_len ?it)) ?it)
                            (unat (section_header_string_table_index h))"
  have magic: "magic (decode_prologue (take 24 bs)) = take 4 bs"
    by (simp add: decode_prologue_def)
  have body: "elf64_from_bytes \<lparr>bytes = bs\<rparr> \<lparr>bytes = drop 24 bs\<rparr> =
      (if length bs - 24 < 40 then Inl Eof
       else if length bs < unat (program_header_table_offset h) \<or>
               length bs < unat (section_header_table_offset h) then Inl Eof
       else bind_res str (\<lambda>strtab.
         Inr \<lparr> header = h, file_reader = \<lparr>bytes = bs\<rparr>,
               program_table_reader = \<lparr>bytes = drop (unat (program_header_table_offset h)) bs\<rparr>,
               section_table_reader = \<lparr>bytes = drop (unat (section_header_table_offset h)) bs\<rparr>,
               string_table = strtab \<rparr>))"
    by (auto simp: elf64_from_bytes_def fork_eq reader_read_eq layout_simps ok_or_def
        find_string_table_eq str_def h_def)
  have len: "24 \<le> length bs \<Longrightarrow> (length bs - 24 < 40) = (length bs < 64)" by arith
  show ?thesis
    unfolding elf_from_bytes_def Let_def head h_def [symmetric] str_def [symmetric]
    by (cases str) (simp_all add: body magic len not_le)
qed

text \<open>
  Reading the program header table through \<open>Elf64Programs\<close> is direct indexing: when
  the table of a parsed file lies inside the file, the \<open>for\<close> loop sees exactly
  \<open>program_header_entry_len\<close> items, and item \<open>i\<close> is the segment of the header decoded at
  file offset \<open>program_header_table_offset + i * program_header_entry_size\<close>.
\<close>

theorem program_segments_reference:
  assumes parsed: "elf_from_bytes bs = Ret (Inr (N64 e))"
    and n: "n = unat (program_header_entry_len (header e))"
    and off: "off = unat (program_header_table_offset (header e))"
    and stride: "stride = unat (program_header_entry_size (header e))"
    and inside: "n = 0 \<or> off + (n - 1) * stride + 56 \<le> length bs"
  shows "drain programs_next n (program_segments e) =
    map (\<lambda>i. segment_of_header \<lparr>bytes = bs\<rparr>
               (decode_program_header64 (take 56 (drop (off + i * stride) bs)))) [0..<n]"
proof -
  note acc = parsed [unfolded from_bytes_accepted accepted_elf_def]
  have "table_fits (bytes (programs_table_reader (program_segments e)))
      (unat (programs_stride (program_segments e))) (unat size_of_program_header64)
      (unat (programs_len (program_segments e)))"
    using inside acc n off stride
    by (auto simp: table_fits_def program_segments_def layout_simps)
  from programs.drain_reference [OF this] show ?thesis
    using acc n off stride
    by (simp add: program_segments_def entry_bytes_def layout_simps add.commute)
qed

text \<open>
  The name of a section is the bytes of the string table from \<open>name_offset\<close> up to the
  first NUL or the end of the table; it holds no NUL. The call panics exactly when
  \<open>name_offset\<close> is past the end of the table.
\<close>

theorem section_name_spec:
  "section_name s e =
     (if unat (name_offset s) \<le> length (section_data (string_table e))
      then Ret (takeWhile (\<lambda>b. b \<noteq> 0) (drop (unat (name_offset s)) (section_data (string_table e))))
      else Panic ''slice index out of range'')"
proof (cases "unat (name_offset s) \<le> length (section_data (string_table e))")
  case True
  let ?rest = "drop (unat (name_offset s)) (section_data (string_table e))"
  have "length (takeWhile (\<lambda>b. b \<noteq> 0) ?rest) \<le> length ?rest"
    by (rule length_takeWhile_le)
  with True show ?thesis
    by (simp add: section_name_def name_end_takeWhile Let_def
        flip: takeWhile_eq_take)
next
  case False
  then show ?thesis by (simp add: section_name_def name_end_past Let_def)
qed

text \<open>
  Both table iterators are fused and never yield more than their \<open>len\<close>: once \<open>next\<close>
  has returned \<open>None\<close> it returns \<open>None\<close> again, and a loop of any number of rounds sees at
  most \<open>len\<close> items (it may see fewer: a truncated table ends the iteration early).
\<close>

theorem iterators_fused_and_bounded:
  "(programs_next it = (None, it') \<longrightarrow> fst (programs_next it') = None) \<and>
   length (drain programs_next n it) \<le> unat (programs_len_exact it) \<and>
   (sections_next st = (None, st') \<longrightarrow> fst (sections_next st') = None) \<and>
   length (drain sections_next n st) \<le> unat (sections_len_exact st)"
  using programs.fused [of it it'] section_iter.fused [of st st']
    programs.length_drain [of n it] section_iter.length_drain [of n st]
  by (simp add: programs_len_exact_def sections_len_exact_def)

text \<open>A truncated table: one header announced, no byte of it there.\<close>

definition truncated_programs :: elf64_programs where
  "truncated_programs =
     \<lparr> programs_len = 1, programs_stride = 56, programs_file_reader = \<lparr>bytes = []\<rparr>,
       programs_table_reader = \<lparr>bytes = []\<rparr> \<rparr>"

definition truncated_sections :: elf64_sections where
  "truncated_sections =
     \<lparr> sections_len = 1, sections_stride = 64, sections_file_reader = \<lparr>bytes = []\<rparr>,
       sections_table_reader = \<lparr>bytes = []\<rparr> \<rparr>"

lemma truncated_next:
  "programs_next truncated_programs = (None, truncated_programs\<lparr>programs_len := 0\<rparr>)"
  "sections_next truncated_sections = (None, truncated_sections\<lparr>sections_len := 0\<rparr>)"
  by (simp_all add: truncated_programs_def truncated_sections_def programs_next_def
      sections_next_def checked_sub_def reader_read_eq layout_simps)

lemma iterators_fused_and_bounded_witness:
  "fst (programs_next (truncated_programs\<lparr>programs_len := 0\<rparr>)) = None \<and>
   length (drain programs_next 3 truncated_programs) \<le> 1 \<and>
   fst (sections_next (truncated_sections\<lparr>sections_len := 0\<rparr>)) = None"
  using iterators_fused_and_bounded [of truncated_programs "truncated_programs\<lparr>programs_len := 0\<rparr>"
      3 truncated_sections "truncated_sections\<lparr>sections_len := 0\<rparr>"]
  by (simp add: truncated_next programs_len_exact_def) (simp add: truncated_programs_def)

end
