(* ===== verification/Elf_Image.thy ===== *)
theory Elf_Image
  imports Elf_Correct
begin

text \<open>
  Writing an ELF image and reading it back. \<open>elf_image\<close> lays out the prologue, the
  header, the two tables and a payload one after another; the round trip shows that the
  loader recovers the header and every table entry. A small concrete image is the
  witness of the properties whose hypotheses are about a parsed file.
\<close>

section \<open>Images\<close>

definition elf_image ::
  "elf_header_prologue \<Rightarrow> elf_header64 \<Rightarrow> elf_program_header64 list \<Rightarrow>
   elf_section_header64 list \<Rightarrow> u8 list \<Rightarrow> u8 list" where
  "elf_image p h phs shs payload =
     encode_prologue p @ encode_header64 h @ concat (map encode_program_header64 phs) @
     concat (map encode_section_header64 shs) @ payload"

definition image_ok ::
  "elf_header_prologue \<Rightarrow> elf_header64 \<Rightarrow> elf_program_header64 list \<Rightarrow>
   elf_section_header64 list \<Rightarrow> bool" where
  "image_ok p h phs shs \<longleftrightarrow>
     magic p = elf_magic \<and> length (prologue_padding p) = 8 \<and> arch p = 2 \<and>
     unat (program_header_table_offset h) = 64 \<and>
     program_header_entry_size h = 56 \<and> unat (program_header_entry_len h) = length phs \<and>
     unat (section_header_table_offset h) = 64 + 56 * length phs \<and>
     section_header_entry_size h = 64 \<and> unat (section_header_entry_len h) = length shs"

section \<open>Lemmas\<close>

lemma length_concat_blocks:
  "(\<And>x. length (enc x) = k) \<Longrightarrow> length (concat (map enc xs)) = k * length xs"
  by (induction xs) auto

lemma entry_bytes_concat:
  assumes "\<And>x. length (enc x) = k" and "i < length xs"
  shows "entry_bytes (concat (map enc xs) @ rest) k k i = enc (xs ! i)"
  using assms(2)
proof (induction xs arbitrary: i)
  case Nil
  then show ?case by simp
next
  case (Cons x xs)
  then show ?case
    using assms(1) by (cases i) (auto simp: entry_bytes_def)
qed

lemma blocks_fit:
  assumes "\<And>x. length (enc x) = k"
  shows "table_fits (concat (map enc xs) @ rest) k k (length xs)"
  by (cases xs) (auto simp: table_fits_def length_concat_blocks [OF assms] assms)

lemmas program_blocks = blocks_fit [of encode_program_header64 56]
lemmas section_blocks = blocks_fit [of encode_section_header64 64]

lemma length_encode_prologue [layout_simps]:
  "length (magic p) = 4 \<Longrightarrow> length (prologue_padding p) = 8 \<Longrightarrow>
   length (encode_prologue p) = 24"
  by (simp add: encode_prologue_def)

lemma length_elf_magic [simp]: "length elf_magic = 4"
  by (simp add: elf_magic_def)

lemma map_nth_blocks: "map (\<lambda>i. f (xs ! i)) [0..<length xs] = map f xs"
  by (metis (no_types, lifting) map_map map_nth comp_apply map_eq_conv)

lemma image_drops:
  assumes "image_ok p h phs shs" and img_def: "img = elf_image p h phs shs payload"
  shows "take 4 img = elf_magic" and "take 24 img = encode_prologue p" and "take 40 (drop 24 img) = encode_header64 h"
    and "drop 64 img = concat (map encode_program_header64 phs) @
           concat (map encode_section_header64 shs) @ payload"
    and "drop (64 + 56 * length phs) img = concat (map encode_section_header64 shs) @ payload"
    and "length img = 64 + 56 * length phs + 64 * length shs + length payload"
proof -
  from assms(1) have p: "length (encode_prologue p) = 24"
    by (simp add: image_ok_def layout_simps)
  have h: "length (encode_header64 h) = 40"
    by (simp add: layout_simps)
  have ph: "length (concat (map encode_program_header64 phs)) = 56 * length phs"
    by (rule length_concat_blocks) (simp add: layout_simps)
  have sh: "length (concat (map encode_section_header64 shs)) = 64 * length shs"
    by (rule length_concat_blocks) (simp add: layout_simps)
  from assms(1) show "take 4 img = elf_magic"
    by (simp add: img_def elf_image_def encode_prologue_def image_ok_def)
  show "take 24 img = encode_prologue p" "take 40 (drop 24 img) = encode_header64 h"
    by (simp_all add: img_def elf_image_def p h)
  show tail: "drop 64 img = concat (map encode_program_header64 phs) @
      concat (map encode_section_header64 shs) @ payload"
    by (simp add: img_def elf_image_def p h)
  have "drop (64 + 56 * length phs) img = drop (56 * length phs) (drop 64 img)"
    by (simp add: add.commute)
  then show "drop (64 + 56 * length phs) img = concat (map encode_section_header64 shs) @ payload"
    by (simp add: tail ph)
  show "length img = 64 + 56 * length phs + 64 * length shs + length payload"
    by (simp add: img_def elf_image_def p h ph sh)
qed

section \<open>Round trip\<close>

text \<open>The parsed form of an image: what \<open>Elf64::from_bytes\<close> returns for it.\<close>

definition image_elf :: "elf_header64 \<Rightarrow> nat \<Rightarrow> u8 list \<Rightarrow> elf_section64 \<Rightarrow> elf64" where
  "image_elf h n img st =
     \<lparr> header = h, file_reader = \<lparr>bytes = img\<rparr>,
       program_table_reader = \<lparr>bytes = drop 64 img\<rparr>,
       section_table_reader = \<lparr>bytes = drop (64 + 56 * n) img\<rparr>, string_table = st \<rparr>"

lemma image_programs:
  assumes ok: "image_ok p h phs shs" and img: "img = elf_image p h phs shs payload"
  shows "drain programs_next (length phs) (program_segments (image_elf h (length phs) img st)) =
    map (segment_of_header \<lparr>bytes = img\<rparr>) phs" (is "drain _ _ (program_segments ?e) = _")
proof -
  note drops = image_drops [OF ok img]
  have "drain programs_next (length phs) (program_segments ?e) =
      map (\<lambda>i. segment_of_header \<lparr>bytes = img\<rparr>
        (decode_program_header64 (entry_bytes (drop 64 img) 56 56 i))) [0..<length phs]"
    using programs.drain_reference [of "program_segments ?e"] ok program_blocks [of phs]
    by (simp add: image_elf_def program_segments_def image_ok_def layout_simps drops)
  also have "\<dots> = map (\<lambda>i. segment_of_header \<lparr>bytes = img\<rparr> (phs ! i)) [0..<length phs]"
    by (rule map_cong [OF refl])
      (simp add: drops entry_bytes_concat layout_simps
        decode_program_header64_encode [of _ "[]", simplified])
  finally show ?thesis by (simp only: map_nth_blocks)
qed

lemma image_sections:
  assumes ok: "image_ok p h phs shs" and img: "img = elf_image p h phs shs payload"
  shows "drain sections_next (length shs) (sections (image_elf h (length phs) img st)) =
    map (section_of_header \<lparr>bytes = img\<rparr>) shs" (is "drain _ _ (sections ?e) = _")
proof -
  note drops = image_drops [OF ok img]
  have "drain sections_next (length shs) (sections ?e) =
      map (\<lambda>i. section_of_header \<lparr>bytes = img\<rparr> (decode_section_header64
        (entry_bytes (drop (64 + 56 * length phs) img) 64 64 i))) [0..<length shs]"
    using section_iter.drain_reference [of "sections ?e"] ok section_blocks [of shs]
    by (simp add: image_elf_def sections_def image_ok_def layout_simps drops)
  also have "\<dots> = map (\<lambda>i. section_of_header \<lparr>bytes = img\<rparr> (shs ! i)) [0..<length shs]"
    by (rule map_cong [OF refl])
      (simp add: drops entry_bytes_concat layout_simps
        decode_section_header64_encode [of _ "[]", simplified])
  finally show ?thesis by (simp only: map_nth_blocks)
qed

lemma image_parses:
  assumes ok: "image_ok p h phs shs" and img: "img = elf_image p h phs shs payload"
    and idx: "unat (section_header_string_table_index h) < length shs"
    and st: "section_of_header \<lparr>bytes = img\<rparr>
               (shs ! unat (section_header_string_table_index h)) = Inr st"
  shows "elf_from_bytes img = Ret (Inr (N64 (image_elf h (length phs) img st)))"
proof -
  note drops = image_drops [OF ok img] and sects = image_sections [OF ok img, of st]
  have accepts: "accepted_elf img (image_elf h (length phs) img st)"
    unfolding accepted_elf_def
    using ok idx st sects decode_prologue_encode [of p "[]"]
    by (auto simp: drops image_ok_def image_elf_def sections_def nth_section_def
        decode_header64_encode [of _ "[]", simplified])
  then show ?thesis by (simp add: from_bytes_accepted)
qed

text \<open>
  What a program header and a section header stand for in a file, from the ELF specification: the
  bytes of the file at the offset, as many as the size in the file says, and the fields of the
  header under the name of their meaning. A range that is not inside the file is an error.
\<close>

definition described_segment :: "u8 list \<Rightarrow> elf_program_header64 \<Rightarrow> elf_error + elf_segment64" where
  "described_segment bs h =
     (if unat (segment_offset h) + unat (segment_file_size h) \<le> length bs
      then Inr \<lparr> segment_type =
                   (if ph_type h < 8
                    then [SegNull, SegLoad, SegDynamic, SegInterp, SegNote, SegShlib, SegHeader, SegTls]
                           ! unat (ph_type h)
                    else SegUnknown (ph_type h)),
                 segment_data =
                   take (unat (segment_file_size h)) (drop (unat (segment_offset h)) bs),
                 segment_flags = ph_flags h,
                 virtual_address = segment_virtual_address h,
                 physical_address = segment_physical_address h,
                 memory_size = segment_memory_size h,
                 alignment = section_alignment h \<rparr>
      else Inl Eof)"

definition described_section :: "u8 list \<Rightarrow> elf_section_header64 \<Rightarrow> elf_error + elf_section64" where
  "described_section bs h =
     (if unat (file_offset h) + unat (sh_size h) \<le> length bs
      then Inr \<lparr> name_offset = ucast (sh_name_offset h),
                 section_data = take (unat (sh_size h)) (drop (unat (file_offset h)) bs),
                 section_virtual_address = sh_virtual_address h \<rparr>
      else Inl Eof)"

lemma segment_type_listed:
  "segment_type_of n =
     (if n < 8
      then [SegNull, SegLoad, SegDynamic, SegInterp, SegNote, SegShlib, SegHeader, SegTls] ! unat n
      else SegUnknown n)"
proof (cases "n < 8")
  case True
  then have "unat n \<in> {0, 1, 2, 3, 4, 5, 6, 7}" by (auto simp: word_less_nat_alt)
  then have "n \<in> {0, 1, 2, 3, 4, 5, 6, 7}"
    by (auto simp: word_unat_eq_iff)
  then show ?thesis by (auto simp: segment_type_of_def)
next
  case False
  then have "n \<noteq> 0 \<and> n \<noteq> 1 \<and> n \<noteq> 2 \<and> n \<noteq> 3 \<and> n \<noteq> 4 \<and> n \<noteq> 5 \<and> n \<noteq> 6 \<and> n \<noteq> 7" by auto
  with False show ?thesis by (simp add: segment_type_of_def)
qed

lemma described:
  "segment_of_header \<lparr>bytes = bs\<rparr> = described_segment bs"
  "section_of_header \<lparr>bytes = bs\<rparr> = described_section bs"
  by (auto simp: segment_of_header_def section_of_header_def described_segment_def
      described_section_def read_data_eq segment_type_listed intro!: ext)

text \<open>
  C38: Loading a written image gives back what was written: the header is the encoded header, the
  string table is what the section header at the string-table index describes, and the loops over
  program headers and sections yield, for every encoded entry, in order and without omission, the
  segment and the section that the entry describes - its bytes of the image, type, flags, virtual
  and physical address, size in memory and alignment - or the error that its range is not inside
  the image.
\<close>

theorem elf_image_roundtrip:
  assumes "image_ok p h phs shs" and "img = elf_image p h phs shs payload"
    and "unat (section_header_string_table_index h) < length shs"
    and "described_section img (shs ! unat (section_header_string_table_index h)) = Inr st"
  shows "\<exists>e. elf_from_bytes img = Ret (Inr (N64 e)) \<and> header e = h \<and> string_table e = st \<and>
    drain programs_next (length phs) (program_segments e) = map (described_segment img) phs \<and>
    drain sections_next (length shs) (sections e) = map (described_section img) shs"
  using image_parses [OF assms(1-3)] image_programs [OF assms(1,2)] image_sections [OF assms(1,2)] assms(4)
  by (auto simp: image_elf_def described)

section \<open>A concrete image\<close>

definition example_prologue :: elf_header_prologue where
  "example_prologue =
     \<lparr> magic = elf_magic, arch = 2, endian = 1, header_version = 1, os_abi = 0,
       prologue_padding = replicate 8 0, elf_type = 2, instruction_set = 62, elf_version = 1 \<rparr>"

definition example_header :: elf_header64 where
  "example_header =
     \<lparr> program_entry_offset = 0x1000, program_header_table_offset = 64,
       section_header_table_offset = 120, header_flags = 0, header_size = 64,
       program_header_entry_size = 56, program_header_entry_len = 1,
       section_header_entry_size = 64, section_header_entry_len = 1,
       section_header_string_table_index = 0 \<rparr>"

definition example_segment :: elf_program_header64 where
  "example_segment =
     \<lparr> ph_type = 1, ph_flags = 5, segment_offset = 184, segment_virtual_address = 0x1000,
       segment_physical_address = 0, segment_file_size = 2, segment_memory_size = 4,
       section_alignment = 4096 \<rparr>"

definition example_section :: elf_section_header64 where
  "example_section =
     \<lparr> sh_name_offset = 0, section_type = 3, sh_flags = 0, sh_virtual_address = 0,
       file_offset = 186, sh_size = 3, link = 0, info = 0, sh_alignment = 1, entry_size = 0 \<rparr>"

definition example_elf :: "u8 list" where
  "example_elf =
     elf_image example_prologue example_header [example_segment] [example_section]
       [0xAA, 0xBB, 0x2E, 0x61, 0]"

lemma example_ok: "image_ok example_prologue example_header [example_segment] [example_section]"
  by (simp add: image_ok_def example_prologue_def example_header_def)

lemmas example_drops = image_drops [OF example_ok example_elf_def]

lemma example_strtab:
  "section_of_header \<lparr>bytes = example_elf\<rparr> example_section =
     Inr \<lparr>name_offset = 0, section_data = [0x2E, 0x61, 0], section_virtual_address = 0\<rparr>"
proof -
  have "drop 186 example_elf = drop 66 (drop 120 example_elf)" by simp
  also have "\<dots> = drop 66 (encode_section_header64 example_section @ [0xAA, 0xBB, 0x2E, 0x61, 0])"
    using example_drops(5) by simp
  also have "\<dots> = [0x2E, 0x61, 0]" by (simp add: layout_simps)
  finally show ?thesis
    by (simp add: section_of_header_def read_data_eq example_drops(6) example_section_def)
qed

lemma example_idx:
  "unat (section_header_string_table_index example_header) < length [example_section]"
  by (simp add: example_header_def)

lemma example_st:
  "section_of_header \<lparr>bytes = example_elf\<rparr>
     ([example_section] ! unat (section_header_string_table_index example_header)) =
   Inr \<lparr>name_offset = 0, section_data = [0x2E, 0x61, 0], section_virtual_address = 0\<rparr>"
  by (simp add: example_header_def example_strtab)

lemmas example_parses = image_parses [OF example_ok example_elf_def example_idx example_st]

lemma example_segment_described:
  "described_segment example_elf example_segment =
     Inr \<lparr> segment_type = SegLoad, segment_data = [0xAA, 0xBB], segment_flags = 5,
           virtual_address = 0x1000, physical_address = 0, memory_size = 4, alignment = 4096 \<rparr>"
proof -
  have "drop 184 example_elf = drop 64 (drop 120 example_elf)" by simp
  also have "\<dots> = drop 64 (encode_section_header64 example_section @ [0xAA, 0xBB, 0x2E, 0x61, 0])"
    using example_drops(5) by simp
  also have "\<dots> = [0xAA, 0xBB, 0x2E, 0x61, 0]" by (simp add: layout_simps)
  finally show ?thesis
    by (simp add: described_segment_def example_drops(6) example_segment_def)
qed

lemma elf_image_roundtrip_witness:
  "\<exists>e. elf_from_bytes example_elf = Ret (Inr (N64 e)) \<and> header e = example_header \<and>
     section_data (string_table e) = [0x2E, 0x61, 0] \<and>
     drain programs_next 1 (program_segments e) =
       [Inr \<lparr> segment_type = SegLoad, segment_data = [0xAA, 0xBB], segment_flags = 5,
              virtual_address = 0x1000, physical_address = 0, memory_size = 4, alignment = 4096 \<rparr>]"
  using elf_image_roundtrip [OF example_ok example_elf_def example_idx example_st [unfolded described]]
  by (auto simp: example_segment_described)

lemma program_segments_reference_witness:
  "\<exists>e. elf_from_bytes example_elf = Ret (Inr (N64 e)) \<and>
     drain programs_next 1 (program_segments e) =
       [segment_of_header \<lparr>bytes = example_elf\<rparr>
          (decode_program_header64 (take 56 (drop 64 example_elf)))]"
proof -
  let ?e = "image_elf example_header (length [example_segment]) example_elf
    \<lparr>name_offset = 0, section_data = [0x2E, 0x61, 0], section_virtual_address = 0\<rparr>"
  have "drain programs_next 1 (program_segments ?e) =
      map (\<lambda>i. segment_of_header \<lparr>bytes = example_elf\<rparr>
               (decode_program_header64 (take 56 (drop (64 + i * 56) example_elf)))) [0..<1]"
    by (rule program_segments_reference [OF example_parses])
      (simp_all add: image_elf_def example_header_def example_drops(6))
  then show ?thesis using example_parses by auto
qed

end
