(* ===== verification/Page_Entries.thy ===== *)
theory Page_Entries
  imports Prelude
begin

text \<open>
  The x86-64 page-table entries of \<open>bootinfo/src/vaddr/x86_64/phys.rs\<close> and the mapping
  flags of \<open>bootinfo/src/lib.rs\<close>. Every entry is a transparent wrapper of one
  \<open>usize\<close>; the lemmas say bit by bit what the constructors put into it. The two entry
  types that have a constructor, \<open>NodeEntry\<close> and \<open>PtEntry\<close>, share the contract
  \<open>address_entry\<close>.
\<close>

type_synonym paddr = usize
type_synonym vaddr = usize
type_synonym vflags = usize
type_synonym entry = usize

definition PAGE_SIZE :: usize where "PAGE_SIZE = 4096"

text \<open>The address some pages on, when the address space does not end before.\<close>

lemma unat_add_pages:
  fixes a :: usize
  assumes "unat a + n * 4096 < 2 ^ 64"
  shows "unat (a + of_nat n * PAGE_SIZE) = unat a + n * 4096"
proof -
  have "a + of_nat n * PAGE_SIZE = of_nat (unat a + n * 4096)" by (simp add: PAGE_SIZE_def)
  then show ?thesis by (rule of_nat_inverse[OF sym]) (use assms in simp)
qed

section \<open>Mapping flags\<close>

definition VF_WRITABLE :: vflags where "VF_WRITABLE = push_bit 0 1"
definition VF_USER_MODE :: vflags where "VF_USER_MODE = push_bit 1 1"
definition VF_WRITE_THROUGH :: vflags where "VF_WRITE_THROUGH = push_bit 2 1"
definition VF_CACHE_DISABLED :: vflags where "VF_CACHE_DISABLED = push_bit 3 1"
definition VF_ACCESSED :: vflags where "VF_ACCESSED = push_bit 4 1"
definition VF_GLOBAL :: vflags where "VF_GLOBAL = push_bit 5 1"

definition vflags_contains :: "vflags \<Rightarrow> vflags \<Rightarrow> bool" where
  "vflags_contains fs g \<longleftrightarrow> fs AND g = g"

section \<open>Entry flags\<close>

definition ENTRY_PRESENT :: entry where "ENTRY_PRESENT = push_bit 0 1"
definition ENTRY_WRITABLE :: entry where "ENTRY_WRITABLE = push_bit 1 1"
definition ENTRY_USER_MODE :: entry where "ENTRY_USER_MODE = push_bit 2 1"
definition ENTRY_WRITE_THROUGH :: entry where "ENTRY_WRITE_THROUGH = push_bit 3 1"
definition ENTRY_CACHE_DISABLED :: entry where "ENTRY_CACHE_DISABLED = push_bit 4 1"
definition ENTRY_ACCESSED :: entry where "ENTRY_ACCESSED = push_bit 5 1"
definition ENTRY_EXECUTE_DISABLE :: entry where "ENTRY_EXECUTE_DISABLE = push_bit 63 1"

text \<open>\<open>From<VFlags> for Entry\<close>: one conditional \<open>|=\<close> per flag.\<close>

definition entry_from_vflags :: "vflags \<Rightarrow> entry" where
  "entry_from_vflags value =
     (let out0 = 0;
          out1 = (if vflags_contains value VF_WRITABLE then out0 OR ENTRY_WRITABLE else out0);
          out2 = (if vflags_contains value VF_USER_MODE then out1 OR ENTRY_USER_MODE else out1);
          out3 = (if vflags_contains value VF_WRITE_THROUGH
                  then out2 OR ENTRY_WRITE_THROUGH else out2);
          out4 = (if vflags_contains value VF_CACHE_DISABLED
                  then out3 OR ENTRY_CACHE_DISABLED else out3);
          out5 = (if vflags_contains value VF_ACCESSED then out4 OR ENTRY_ACCESSED else out4)
      in out5)"

section \<open>Inner nodes\<close>

definition NODE_ADDRESS_MASK :: entry where
  "NODE_ADDRESS_MASK = push_bit 12 (push_bit 40 1 - 1)"

definition node_entry_new :: "entry \<Rightarrow> paddr \<Rightarrow> entry" where
  "node_entry_new e addr =
     (e OR ENTRY_PRESENT) AND NOT NODE_ADDRESS_MASK OR addr AND NODE_ADDRESS_MASK"

definition node_child_addr :: "entry \<Rightarrow> paddr" where
  "node_child_addr e = e AND NODE_ADDRESS_MASK"

definition node_is_present :: "entry \<Rightarrow> bool" where
  "node_is_present e \<longleftrightarrow> e AND ENTRY_PRESENT \<noteq> 0"

section \<open>Entries that are a node or a large page\<close>

definition UNION_IS_LEAF :: usize where "UNION_IS_LEAF = push_bit 7 1"

datatype ('n, 'l) union_entry = Node 'n | Leaf 'l

fun force_node :: "('n, 'l) union_entry \<Rightarrow> 'n exec" where
  "force_node (Node n) = Ret n"
| "force_node (Leaf _) = Panic ''Not a node!''"

definition PDPT_ADDRESS_MASK :: entry where
  "PDPT_ADDRESS_MASK = push_bit 30 (push_bit 22 1 - 1)"

definition pdpt_leaf_addr :: "entry \<Rightarrow> paddr" where
  "pdpt_leaf_addr e = e AND PDPT_ADDRESS_MASK"

definition pdpt_entry_node :: "entry \<Rightarrow> entry" where
  "pdpt_entry_node node = node"

definition pdpt_entry_kind :: "entry \<Rightarrow> (entry, entry) union_entry" where
  "pdpt_entry_kind e = (if e AND UNION_IS_LEAF \<noteq> 0 then Leaf e else Node e)"

definition pdpt_entry_is_present :: "entry \<Rightarrow> bool" where
  "pdpt_entry_is_present e \<longleftrightarrow> e AND ENTRY_PRESENT \<noteq> 0"

definition PD_ADDRESS_MASK :: entry where
  "PD_ADDRESS_MASK = push_bit 21 (push_bit 31 1 - 1)"

definition pd_leaf_addr :: "entry \<Rightarrow> paddr" where
  "pd_leaf_addr e = e AND PD_ADDRESS_MASK"

definition pd_entry_node :: "entry \<Rightarrow> entry" where
  "pd_entry_node node = node"

definition pd_entry_kind :: "entry \<Rightarrow> (entry, entry) union_entry" where
  "pd_entry_kind e = (if e AND UNION_IS_LEAF \<noteq> 0 then Leaf e else Node e)"

definition pd_entry_is_present :: "entry \<Rightarrow> bool" where
  "pd_entry_is_present e \<longleftrightarrow> e AND ENTRY_PRESENT \<noteq> 0"

section \<open>Page entries\<close>

definition PT_GLOBAL :: entry where "PT_GLOBAL = push_bit 8 1"

definition PT_ADDRESS_MASK :: entry where
  "PT_ADDRESS_MASK = push_bit 12 (push_bit 40 1 - 1)"

definition pt_entry_new :: "entry \<Rightarrow> paddr \<Rightarrow> entry" where
  "pt_entry_new e addr =
     (e OR ENTRY_PRESENT) AND NOT PT_ADDRESS_MASK OR addr AND PT_ADDRESS_MASK"

definition pt_entry_addr :: "entry \<Rightarrow> paddr" where
  "pt_entry_addr e = e AND PT_ADDRESS_MASK"

definition pt_entry_is_present :: "entry \<Rightarrow> bool" where
  "pt_entry_is_present e \<longleftrightarrow> e AND ENTRY_PRESENT \<noteq> 0"

section \<open>Bits of the masks and flags\<close>

named_theorems entry_bits \<open>the bits of masks, flags and entries\<close>

lemma bit_low_mask: "bit (push_bit k 1 - 1 :: 64 word) n \<longleftrightarrow> n < k \<and> n < 64"
proof -
  have "(push_bit k 1 - 1 :: 64 word) = mask k"
    by (simp add: mask_eq_exp_minus_1 push_bit_eq_mult)
  then show ?thesis by (auto simp: bit_mask_iff)
qed

lemma mask_bits [entry_bits]:
  "bit NODE_ADDRESS_MASK n \<longleftrightarrow> 12 \<le> n \<and> n < 52"
  "bit PT_ADDRESS_MASK n \<longleftrightarrow> 12 \<le> n \<and> n < 52"
  "bit PDPT_ADDRESS_MASK n \<longleftrightarrow> 30 \<le> n \<and> n < 52"
  "bit PD_ADDRESS_MASK n \<longleftrightarrow> 21 \<le> n \<and> n < 52"
  unfolding NODE_ADDRESS_MASK_def PT_ADDRESS_MASK_def PDPT_ADDRESS_MASK_def PD_ADDRESS_MASK_def
  by (simp_all only: bit_push_bit_iff bit_low_mask possible_bit_word) auto

lemma flag_bits [entry_bits]:
  "bit ENTRY_PRESENT n \<longleftrightarrow> n = 0" "bit ENTRY_WRITABLE n \<longleftrightarrow> n = 1"
  "bit ENTRY_USER_MODE n \<longleftrightarrow> n = 2" "bit ENTRY_WRITE_THROUGH n \<longleftrightarrow> n = 3"
  "bit ENTRY_CACHE_DISABLED n \<longleftrightarrow> n = 4" "bit ENTRY_ACCESSED n \<longleftrightarrow> n = 5"
  "bit ENTRY_EXECUTE_DISABLE n \<longleftrightarrow> n = 63" "bit UNION_IS_LEAF n \<longleftrightarrow> n = 7"
  "bit PT_GLOBAL n \<longleftrightarrow> n = 8"
  unfolding ENTRY_PRESENT_def ENTRY_WRITABLE_def ENTRY_USER_MODE_def ENTRY_WRITE_THROUGH_def
    ENTRY_CACHE_DISABLED_def ENTRY_ACCESSED_def ENTRY_EXECUTE_DISABLE_def UNION_IS_LEAF_def
    PT_GLOBAL_def
  by (simp_all only: bit_single len_num1 len_num0 len_bit0 len_bit1)

lemma vflag_bits [entry_bits]:
  "bit VF_WRITABLE n \<longleftrightarrow> n = 0" "bit VF_USER_MODE n \<longleftrightarrow> n = 1"
  "bit VF_WRITE_THROUGH n \<longleftrightarrow> n = 2" "bit VF_CACHE_DISABLED n \<longleftrightarrow> n = 3"
  "bit VF_ACCESSED n \<longleftrightarrow> n = 4" "bit VF_GLOBAL n \<longleftrightarrow> n = 5"
  unfolding VF_WRITABLE_def VF_USER_MODE_def VF_WRITE_THROUGH_def VF_CACHE_DISABLED_def
    VF_ACCESSED_def VF_GLOBAL_def
  by (simp_all only: bit_single len_num1 len_num0 len_bit0 len_bit1)

text \<open>Testing a single-bit flag is reading that bit.\<close>

lemma and_single_bit_nonzero:
  fixes e m :: "64 word"
  assumes "\<And>n. bit m n \<longleftrightarrow> n = k"
  shows "e AND m \<noteq> 0 \<longleftrightarrow> bit e k"
proof -
  have "e AND m = 0 \<longleftrightarrow> \<not> bit e k"
    by (auto simp: word_eq_bits bit_and_iff assms)
  then show ?thesis by simp
qed

lemma contains_single_bit:
  fixes e m :: "64 word"
  assumes "\<And>n. bit m n \<longleftrightarrow> n = k"
  shows "e AND m = m \<longleftrightarrow> bit e k"
  by (auto simp: word_eq_bits bit_and_iff assms)

lemma present_bits [entry_bits]:
  "node_is_present e \<longleftrightarrow> bit e 0" "pdpt_entry_is_present e \<longleftrightarrow> bit e 0"
  "pd_entry_is_present e \<longleftrightarrow> bit e 0" "pt_entry_is_present e \<longleftrightarrow> bit e 0"
  by (simp_all add: node_is_present_def pdpt_entry_is_present_def pd_entry_is_present_def
      pt_entry_is_present_def and_single_bit_nonzero [OF flag_bits(1)])

lemma kind_bits [entry_bits]:
  "pdpt_entry_kind e = (if bit e 7 then Leaf e else Node e)"
  "pd_entry_kind e = (if bit e 7 then Leaf e else Node e)"
  by (simp_all add: pdpt_entry_kind_def pd_entry_kind_def and_single_bit_nonzero [OF flag_bits(8)])

lemma vflags_contains_bits [entry_bits]:
  "vflags_contains fs VF_WRITABLE \<longleftrightarrow> bit fs 0" "vflags_contains fs VF_USER_MODE \<longleftrightarrow> bit fs 1"
  "vflags_contains fs VF_WRITE_THROUGH \<longleftrightarrow> bit fs 2"
  "vflags_contains fs VF_CACHE_DISABLED \<longleftrightarrow> bit fs 3"
  "vflags_contains fs VF_ACCESSED \<longleftrightarrow> bit fs 4" "vflags_contains fs VF_GLOBAL \<longleftrightarrow> bit fs 5"
  by (simp_all add: vflags_contains_def contains_single_bit [OF vflag_bits(1)]
      contains_single_bit [OF vflag_bits(2)] contains_single_bit [OF vflag_bits(3)]
      contains_single_bit [OF vflag_bits(4)] contains_single_bit [OF vflag_bits(5)]
      contains_single_bit [OF vflag_bits(6)])

lemma bit_entry_from_vflags [entry_bits]:
  "bit (entry_from_vflags fs) n \<longleftrightarrow> 1 \<le> n \<and> n \<le> 5 \<and> bit fs (n - 1)"
  by (auto simp: entry_from_vflags_def Let_def entry_bits bit_or_iff le_Suc_eq numeral_eq_Suc)

lemma bit_node_entry_new [entry_bits]:
  "bit (node_entry_new e a) n \<longleftrightarrow> (if 12 \<le> n \<and> n < 52 then bit a n else bit e n \<or> n = 0)"
  by (auto simp: node_entry_new_def bit_or_iff bit_and_iff bit_not_iff entry_bits
      dest: bit_imp_le_length)

lemma bit_pt_entry_new [entry_bits]:
  "bit (pt_entry_new e a) n \<longleftrightarrow> (if 12 \<le> n \<and> n < 52 then bit a n else bit e n \<or> n = 0)"
  by (auto simp: pt_entry_new_def bit_or_iff bit_and_iff bit_not_iff entry_bits
      dest: bit_imp_le_length)

section \<open>The contract of an entry that holds an address\<close>

text \<open>A page frame address: 4096-aligned and below the 52-bit physical limit.\<close>

definition page_frame :: "paddr \<Rightarrow> bool" where
  "page_frame a \<longleftrightarrow> a AND NODE_ADDRESS_MASK = a"

lemma page_frame_bits: "page_frame a \<longleftrightarrow> (\<forall>n. bit a n \<longrightarrow> 12 \<le> n \<and> n < 52)"
  by (auto simp: page_frame_def word_eq_bits bit_and_iff entry_bits dest: bit_imp_le_length)

locale address_entry =
  fixes new :: "entry \<Rightarrow> paddr \<Rightarrow> entry"
    and addr_of :: "entry \<Rightarrow> paddr"
    and present :: "entry \<Rightarrow> bool"
  assumes present_new: "present (new e a)"
    and addr_new: "addr_of (new e a) = a AND NODE_ADDRESS_MASK"
    and flags_new: "n < 12 \<or> 52 \<le> n \<Longrightarrow> bit (new e a) n \<longleftrightarrow> bit e n \<or> n = 0"
begin

text \<open>A frame address survives the round trip through an entry, whatever its flags.\<close>

lemma addr_roundtrip: "page_frame a \<Longrightarrow> addr_of (new e a) = a"
  by (simp add: addr_new page_frame_def)

lemma addr_is_frame: "page_frame (addr_of (new e a))"
  by (simp add: addr_new page_frame_def and.assoc)

lemma distinct_frames: "page_frame a \<Longrightarrow> page_frame b \<Longrightarrow> new e a = new f b \<Longrightarrow> a = b"
  by (metis addr_roundtrip)

end

interpretation node: address_entry node_entry_new node_child_addr node_is_present
  by unfold_locales
    (auto simp: entry_bits node_child_addr_def word_eq_bits bit_and_iff)

interpretation page: address_entry pt_entry_new pt_entry_addr pt_entry_is_present
  by unfold_locales
    (auto simp: entry_bits pt_entry_addr_def word_eq_bits bit_and_iff)

lemma node_entry_new_not_leaf: "\<not> bit e 7 \<Longrightarrow> \<not> bit (node_entry_new e a) 7"
  by (simp add: entry_bits)

end
