(* ===== verification/Virt_Addr.thy ===== *)
theory Virt_Addr
  imports Page_Entries
begin

text \<open>
  Virtual addresses and their split into four 9-bit table indices and a page offset
  (\<open>VAddr\<close>, \<open>VAddrInfo\<close> of \<open>bootinfo/src/vaddr/x86_64/virt.rs\<close>).
\<close>

record v_addr_info =
  page_offset :: usize
  pt_index :: usize
  pd_index :: usize
  pdpt_index :: usize
  pml4_index :: usize

definition vaddr_info :: "vaddr \<Rightarrow> v_addr_info" where
  "vaddr_info v =
     \<lparr> page_offset = v AND 0xfff,
       pt_index = drop_bit 12 v AND 0x1ff,
       pd_index = drop_bit 21 v AND 0x1ff,
       pdpt_index = drop_bit 30 v AND 0x1ff,
       pml4_index = drop_bit 39 v AND 0x1ff \<rparr>"

text \<open>
  The shifts \<open>cast_signed() << 16 >> 16\<close> copy bit 47 into the 16 bits above it: the
  left shift is bitwise, the right shift arithmetic.
\<close>

definition vaddr_from_info :: "v_addr_info \<Rightarrow> vaddr" where
  "vaddr_from_info i =
     (let addr = page_offset i AND 0xfff
              OR push_bit 12 (pt_index i AND 0x1ff)
              OR push_bit 21 (pd_index i AND 0x1ff)
              OR push_bit 30 (pdpt_index i AND 0x1ff)
              OR push_bit 39 (pml4_index i AND 0x1ff)
      in signed_drop_bit 16 (push_bit 16 addr))"

section \<open>Fields\<close>

lemma mask_9: "(0x1ff :: usize) = mask 9" and mask_12: "(0xfff :: usize) = mask 12"
  by (simp_all add: mask_eq_exp_minus_1)

lemma less_512: "(x :: usize) < 512 \<longleftrightarrow> x AND 0x1ff = x"
proof
  show "x < 512 \<Longrightarrow> x AND 0x1ff = x"
    unfolding mask_9 by (simp add: less_mask_eq)
  show "x AND 0x1ff = x \<Longrightarrow> x < 512"
    unfolding mask_9 using and_mask_less' [of 9 x] by simp
qed

lemma less_4096: "(x :: usize) < 4096 \<longleftrightarrow> x AND 0xfff = x"
proof
  show "x < 4096 \<Longrightarrow> x AND 0xfff = x"
    unfolding mask_12 by (simp add: less_mask_eq)
  show "x AND 0xfff = x \<Longrightarrow> x < 4096"
    unfolding mask_12 using and_mask_less' [of 12 x] by simp
qed

lemma less_512_bits: "(x :: usize) < 512 \<longleftrightarrow> (\<forall>n. bit x n \<longrightarrow> n < 9)"
  unfolding less_512 mask_9 by (auto simp: word_eq_bits bit_and_iff bit_mask_iff)

lemma less_4096_bits: "(x :: usize) < 4096 \<longleftrightarrow> (\<forall>n. bit x n \<longrightarrow> n < 12)"
  unfolding less_4096 mask_12 by (auto simp: word_eq_bits bit_and_iff bit_mask_iff)

lemma bit_info:
  "bit (page_offset (vaddr_info v)) n \<longleftrightarrow> n < 12 \<and> bit v n"
  "bit (pt_index (vaddr_info v)) n \<longleftrightarrow> n < 9 \<and> bit v (12 + n)"
  "bit (pd_index (vaddr_info v)) n \<longleftrightarrow> n < 9 \<and> bit v (21 + n)"
  "bit (pdpt_index (vaddr_info v)) n \<longleftrightarrow> n < 9 \<and> bit v (30 + n)"
  "bit (pml4_index (vaddr_info v)) n \<longleftrightarrow> n < 9 \<and> bit v (39 + n)"
  unfolding vaddr_info_def mask_9 mask_12
  by (auto simp: bit_and_iff bit_mask_iff bit_drop_bit_eq)

lemma bit_packed_info:
  "bit (page_offset i AND mask 12 OR push_bit 12 (pt_index i AND mask 9)
      OR push_bit 21 (pd_index i AND mask 9) OR push_bit 30 (pdpt_index i AND mask 9)
      OR push_bit 39 (pml4_index i AND mask 9)) n \<longleftrightarrow>
    (if n < 12 then bit (page_offset i) n
     else if n < 21 then bit (pt_index i) (n - 12)
     else if n < 30 then bit (pd_index i) (n - 21)
     else if n < 39 then bit (pdpt_index i) (n - 30)
     else n < 48 \<and> bit (pml4_index i) (n - 39))"
proof -
  consider "n < 12" | "12 \<le> n" "n < 21" | "21 \<le> n" "n < 30" | "30 \<le> n" "n < 39" | "39 \<le> n" "n < 48"
    | "48 \<le> n" by linarith
  then show ?thesis
    by cases (simp_all add: bit_push_bit_iff bit_or_iff bit_and_iff bit_mask_iff, auto)
qed

lemma bit_sign_extended:
  "bit (signed_drop_bit 16 (push_bit 16 (x :: usize))) n \<longleftrightarrow> n < 64 \<and> bit x (min n 47)"
proof -
  consider "n < 48" | "48 \<le> n" "n < 64" | "64 \<le> n" by linarith
  then show ?thesis
    by cases (simp_all add: bit_signed_drop_bit_iff bit_push_bit_iff)
qed

lemma bit_vaddr_from_info:
  "bit (vaddr_from_info i) n \<longleftrightarrow> n < 64 \<and>
    (if n < 12 then bit (page_offset i) n
     else if n < 21 then bit (pt_index i) (n - 12)
     else if n < 30 then bit (pd_index i) (n - 21)
     else if n < 39 then bit (pdpt_index i) (n - 30)
     else bit (pml4_index i) (min n 47 - 39))"
  unfolding vaddr_from_info_def mask_9 mask_12 Let_def bit_sign_extended bit_packed_info
  by (simp add: min_def)

definition info_in_range :: "v_addr_info \<Rightarrow> bool" where
  "info_in_range i \<longleftrightarrow>
     page_offset i < 4096 \<and> pt_index i < 512 \<and> pd_index i < 512 \<and> pdpt_index i < 512 \<and>
     pml4_index i < 512"

text \<open>A canonical address: bits 48 to 63 copy bit 47.\<close>

definition canonical :: "vaddr \<Rightarrow> bool" where
  "canonical v \<longleftrightarrow> (\<forall>n \<in> {48..<64}. bit v n = bit v 47)"

lemma info_in_range_info [simp]: "info_in_range (vaddr_info v)"
  by (simp add: info_in_range_def less_512_bits less_4096_bits bit_info)

lemma info_indices_lt [simp]:
  "pt_index (vaddr_info v) < 512" "pd_index (vaddr_info v) < 512"
  "pdpt_index (vaddr_info v) < 512" "pml4_index (vaddr_info v) < 512"
  using info_in_range_info [of v] by (simp_all add: info_in_range_def)

section \<open>Round trips\<close>

lemma info_from_info: "info_in_range i \<Longrightarrow> vaddr_info (vaddr_from_info i) = i"
  by (rule v_addr_info.equality)
    (auto simp: word_eq_bits bit_info bit_vaddr_from_info info_in_range_def less_512_bits
       less_4096_bits)

lemma canonical_from_info: "canonical (vaddr_from_info i)"
  by (auto simp: canonical_def bit_vaddr_from_info)

lemma from_info_info: "canonical v \<Longrightarrow> vaddr_from_info (vaddr_info v) = v"
proof (rule bit_word_eqI)
  fix n
  assume can: "canonical v" and n: "n < LENGTH(64)"
  show "bit (vaddr_from_info (vaddr_info v)) n = bit v n"
  proof (cases "n < 48")
    case True
    then have "min n 47 = n" by simp
    then show ?thesis
      using n True
      by (simp add: bit_vaddr_from_info bit_info) (simp add: less_diff_conv2 not_less)
  next
    case False
    then have "min n 47 = 47" by simp
    moreover have "bit v n = bit v 47"
      using can False n unfolding canonical_def by simp
    ultimately show ?thesis
      using n False by (simp add: bit_vaddr_from_info bit_info)
  qed
qed

text \<open>
  C13: Splitting a virtual address and putting it together again are inverse to each
  other: indices in range come back unchanged, the result is always canonical, and an
  address comes back exactly when it is canonical.
\<close>

theorem vaddr_info_roundtrip:
  "(info_in_range i \<longrightarrow> vaddr_info (vaddr_from_info i) = i) \<and>
   canonical (vaddr_from_info i) \<and>
   (vaddr_from_info (vaddr_info v) = v \<longleftrightarrow> canonical v)"
  using info_from_info canonical_from_info from_info_info by metis

lemma vaddr_info_roundtrip_witness:
  "vaddr_info (vaddr_from_info \<lparr>page_offset = 0, pt_index = 1, pd_index = 2, pdpt_index = 510,
     pml4_index = 511\<rparr>) =
   \<lparr>page_offset = 0, pt_index = 1, pd_index = 2, pdpt_index = 510, pml4_index = 511\<rparr>"
  using vaddr_info_roundtrip [of "\<lparr>page_offset = 0, pt_index = 1, pd_index = 2,
    pdpt_index = 510, pml4_index = 511\<rparr>" 0]
  by (simp add: info_in_range_def)

text \<open>Two addresses lie in the same 4096-byte page when their four indices agree.\<close>

definition same_page :: "vaddr \<Rightarrow> vaddr \<Rightarrow> bool" where
  "same_page v w \<longleftrightarrow>
     pt_index (vaddr_info v) = pt_index (vaddr_info w) \<and>
     pd_index (vaddr_info v) = pd_index (vaddr_info w) \<and>
     pdpt_index (vaddr_info v) = pdpt_index (vaddr_info w) \<and>
     pml4_index (vaddr_info v) = pml4_index (vaddr_info w)"

lemma same_page_refl [simp]: "same_page v v"
  by (simp add: same_page_def)

lemma same_page_sym: "same_page v w \<Longrightarrow> same_page w v"
  by (simp add: same_page_def)

end
