(* ===== verification/Page_Tree.thy ===== *)
theory Page_Tree
  imports Virt_Addr
begin

text \<open>
  The abstract specification of a set of page tables: a store of tables, the walk along
  a path of indices, the translation of a virtual address it stands for, and the
  invariant that the tables reached along different paths are different (the tables
  form a tree). Nothing here is translated from the source: it is what the code of
  \<open>virt.rs\<close> is proved against. The walk is the one the x86-64 manuals give for 4-level
  paging.
\<close>

section \<open>Stores and walks\<close>

text \<open>
  The top-level table is not addressed by a physical frame while a map is built (it is a
  field of \<open>LocalMapper\<close>), so it has a name of its own.
\<close>

datatype table_ref = Root | At paddr

type_synonym store = "table_ref \<Rightarrow> usize \<Rightarrow> entry"

definition is_leaf :: "entry \<Rightarrow> bool" where
  "is_leaf e \<longleftrightarrow> bit e 0 \<and> bit e 7"

definition step_entry :: "store \<Rightarrow> table_ref \<Rightarrow> usize \<Rightarrow> table_ref option" where
  "step_entry S t i =
     (if bit (S t i) 0 \<and> (t = Root \<or> \<not> bit (S t i) 7)
      then Some (At (node_child_addr (S t i))) else None)"

fun walk :: "store \<Rightarrow> table_ref \<Rightarrow> usize list \<Rightarrow> table_ref option" where
  "walk S t [] = Some t"
| "walk S t (i # is) =
     (case step_entry S t i of None \<Rightarrow> None | Some t' \<Rightarrow> walk S t' is)"

definition put_entry :: "store \<Rightarrow> table_ref \<Rightarrow> usize \<Rightarrow> entry \<Rightarrow> store" where
  "put_entry S t i e = S(t := (S t)(i := e))"

definition put_zeroed :: "store \<Rightarrow> paddr \<Rightarrow> store" where
  "put_zeroed S f = S(At f := (\<lambda>_. 0))"

section \<open>Translations\<close>

datatype translation = Page entry | Large2M entry | Large1G entry

definition lookup_path :: "store \<Rightarrow> usize \<Rightarrow> usize \<Rightarrow> usize \<Rightarrow> usize \<Rightarrow> translation option" where
  "lookup_path S i4 i3 i2 i1 =
     (case walk S Root [i4] of
        None \<Rightarrow> None
      | Some t3 \<Rightarrow>
          if is_leaf (S t3 i3) then Some (Large1G (S t3 i3))
          else (case walk S Root [i4, i3] of
                  None \<Rightarrow> None
                | Some t2 \<Rightarrow>
                    if is_leaf (S t2 i2) then Some (Large2M (S t2 i2))
                    else (case walk S Root [i4, i3, i2] of
                            None \<Rightarrow> None
                          | Some t1 \<Rightarrow>
                              if bit (S t1 i1) 0 then Some (Page (S t1 i1)) else None)))"

text \<open>
  The translation of a virtual address, outside the top-level slot \<open>r\<close> that is reserved
  for the tables themselves.
\<close>

definition translate :: "store \<Rightarrow> usize \<Rightarrow> vaddr \<Rightarrow> translation option" where
  "translate S r v =
     (let i = vaddr_info v in
      if pml4_index i = r then None
      else lookup_path S (pml4_index i) (pdpt_index i) (pd_index i) (pt_index i))"

section \<open>The tree invariant\<close>

definition paths :: "usize \<Rightarrow> usize list set" where
  "paths r = {p. length p \<le> 3 \<and> (\<forall>i \<in> set p. i < 512) \<and> (p \<noteq> [] \<longrightarrow> hd p \<noteq> r)}"

definition tree :: "store \<Rightarrow> usize \<Rightarrow> paddr set \<Rightarrow> bool" where
  "tree S r U \<longleftrightarrow>
     (\<forall>p \<in> paths r. \<forall>q \<in> paths r. \<forall>t. walk S Root p = Some t \<longrightarrow> walk S Root q = Some t \<longrightarrow> p = q) \<and>
     (\<forall>p \<in> paths r. \<forall>f. walk S Root p = Some (At f) \<longrightarrow> f \<in> U)"

lemma tree_inj:
  "tree S r U \<Longrightarrow> p \<in> paths r \<Longrightarrow> q \<in> paths r \<Longrightarrow>
   walk S Root p = Some t \<Longrightarrow> walk S Root q = Some t \<Longrightarrow> p = q"
  by (auto simp: tree_def)

lemma tree_used: "tree S r U \<Longrightarrow> p \<in> paths r \<Longrightarrow> walk S Root p = Some (At f) \<Longrightarrow> f \<in> U"
  by (auto simp: tree_def)

lemma tree_mono: "tree S r U \<Longrightarrow> U \<subseteq> V \<Longrightarrow> tree S r V"
  by (auto simp: tree_def)

lemma walk_append:
  "walk S t (p @ q) = (case walk S t p of None \<Rightarrow> None | Some t' \<Rightarrow> walk S t' q)"
  by (induction p arbitrary: t) (auto split: option.splits)

declare walk.simps(2) [simp del]

lemma walk_snoc:
  "walk S t (p @ [i]) = (case walk S t p of None \<Rightarrow> None | Some t' \<Rightarrow> step_entry S t' i)"
  by (auto simp: walk_append walk.simps(2) split: option.splits)

lemma paths_snocD: "p @ [i] \<in> paths r \<Longrightarrow> p \<in> paths r"
  by (cases p) (auto simp: paths_def)

lemma step_entry_At: "step_entry S t i = Some t' \<Longrightarrow> \<exists>f. t' = At f"
  by (auto simp: step_entry_def split: if_splits)

lemma walk_steps:
  "walk S Root [i] = step_entry S Root i"
  "walk S Root [i, j] = (case walk S Root [i] of None \<Rightarrow> None | Some t \<Rightarrow> step_entry S t j)"
  "walk S Root [i, j, k] = (case walk S Root [i, j] of None \<Rightarrow> None | Some t \<Rightarrow> step_entry S t k)"
  using walk_snoc [of S Root "[]" i] walk_snoc [of S Root "[i]" j] walk_snoc [of S Root "[i, j]" k]
  by simp_all

lemma walk_At: "walk S Root p = Some t \<Longrightarrow> p \<noteq> [] \<Longrightarrow> \<exists>f. t = At f"
  by (cases p rule: rev_cases) (auto simp: walk_snoc dest: step_entry_At split: option.splits)

section \<open>Stores that agree\<close>

text \<open>Zeroing a frame outside the tree changes no walk and no translation.\<close>

lemma walk_put_zeroed:
  assumes "tree S r U" and "f \<notin> U" and "p \<in> paths r"
  shows "walk (put_zeroed S f) Root p = walk S Root p"
  using assms(3)
proof (induction p rule: rev_induct)
  case Nil
  then show ?case by simp
next
  case (snoc i p)
  then have p: "p \<in> paths r" by (blast dest: paths_snocD)
  have "step_entry (put_zeroed S f) t i = step_entry S t i" if "walk S Root p = Some t" for t
    using tree_used [OF assms(1) p] that assms(2)
    by (auto simp: step_entry_def put_zeroed_def)
  with snoc.IH [OF p] show ?case
    by (simp add: walk_snoc split: option.split)
qed

lemma tree_put_zeroed:
  assumes "tree S r U" and "f \<notin> U"
  shows "tree (put_zeroed S f) r U"
  using assms walk_put_zeroed [OF assms] by (auto simp: tree_def)

section \<open>Linking a fresh table\<close>

text \<open>
  The node entry the code links a new table with, \<open>NodeEntry::new(WRITABLE, f)\<close>, is
  present, is no leaf, and points to \<open>f\<close>.
\<close>

abbreviation link_entry :: "paddr \<Rightarrow> entry" where
  "link_entry f \<equiv> node_entry_new ENTRY_WRITABLE f"

lemma link_entry_bits [simp]: "bit (link_entry f) 0" "\<not> bit (link_entry f) 7"
  by (simp_all add: entry_bits)

lemma is_leaf_link [simp]: "\<not> is_leaf (link_entry f)"
  by (simp add: is_leaf_def)

lemma step_link:
  "page_frame f \<Longrightarrow> step_entry (put_entry S t i (link_entry f)) t i = Some (At f)"
  by (simp add: step_entry_def put_entry_def node.addr_roundtrip)

lemma step_other:
  "t' \<noteq> t \<or> j \<noteq> i \<Longrightarrow> step_entry (put_entry S t i e) t' j = step_entry S t' j"
  by (auto simp: step_entry_def put_entry_def)

lemma walk_link:
  assumes tr: "tree S r U" and f: "f \<notin> U" "page_frame f" and z: "S (At f) = (\<lambda>_. 0)"
    and p: "p \<in> paths r" "walk S Root p = Some t" and none: "\<not> bit (S t i) 0"
    and q: "q \<in> paths r"
  shows "walk (put_entry S t i (link_entry f)) Root q =
    (if q = p @ [i] then Some (At f) else walk S Root q)"
  using q
proof (induction q rule: rev_induct)
  case Nil
  then show ?case by simp
next
  case (snoc j q)
  let ?S = "put_entry S t i (link_entry f)"
  from snoc.prems have q: "q \<in> paths r" by (rule paths_snocD)
  note IH = snoc.IH [OF q]
  have tf: "t \<noteq> At f" using tree_used [OF tr p(1)] p(2) f(1) by auto
  have pi: "walk S Root (p @ [i]) = None"
    using p(2) none by (simp add: walk_snoc step_entry_def)
  show ?case
  proof (cases "q = p @ [i]")
    case True
    then have "walk ?S Root q = Some (At f)" using IH by simp
    then have "walk ?S Root (q @ [j]) = step_entry ?S (At f) j"
      by (simp only: walk_snoc option.case)
    moreover have "step_entry ?S (At f) j = None"
      using tf z by (simp add: step_entry_def put_entry_def)
    moreover have "walk S Root (q @ [j]) = None"
      using pi True by (simp only: walk_snoc option.case)
    ultimately show ?thesis
      using True by simp
  next
    case False
    then have wq: "walk ?S Root q = walk S Root q" using IH by simp
    show ?thesis
    proof (cases "walk S Root q")
      case None
      then have "q \<noteq> p" using p(2) by auto
      with None wq show ?thesis by (simp add: walk_snoc)
    next
      case (Some u)
      show ?thesis
      proof (cases "u = t \<and> j = i")
        case True
        then have "q = p" using tree_inj [OF tr q p(1)] Some p(2) by simp
        with True Some wq f(2) show ?thesis by (simp add: walk_snoc step_link)
      next
        case False
        then have "u \<noteq> t \<or> j \<noteq> i" by simp
        then have "step_entry ?S u j = step_entry S u j" by (rule step_other)
        moreover have "q @ [j] \<noteq> p @ [i]" using False Some p(2) by auto
        moreover have "\<not> (q = p \<and> j = i)" using False Some p(2) by auto
        ultimately show ?thesis using Some wq by (auto simp: walk_snoc)
      qed
    qed
  qed
qed

lemma tree_link:
  assumes tr: "tree S r U" and f: "f \<notin> U" "page_frame f" and z: "S (At f) = (\<lambda>_. 0)"
    and p: "p \<in> paths r" "walk S Root p = Some t" and none: "\<not> bit (S t i) 0"
  shows "tree (put_entry S t i (link_entry f)) r (insert f U)"
proof -
  note wl = walk_link [OF tr f z p none]
  have old: "walk S Root q \<noteq> Some (At f)" if "q \<in> paths r" for q
    using tree_used [OF tr that] f(1) by auto
  show ?thesis
    unfolding tree_def
  proof (intro conjI ballI allI impI)
    fix p1 q1 u
    assume "p1 \<in> paths r" "q1 \<in> paths r"
      "walk (put_entry S t i (link_entry f)) Root p1 = Some u"
      "walk (put_entry S t i (link_entry f)) Root q1 = Some u"
    then show "p1 = q1"
      using old tree_inj [OF tr] by (auto simp: wl split: if_splits)
  next
    fix p1 g
    assume "p1 \<in> paths r" "walk (put_entry S t i (link_entry f)) Root p1 = Some (At g)"
    then show "g \<in> insert f U"
      using tree_used [OF tr] by (auto simp: wl split: if_splits)
  qed
qed

section \<open>Effects on translations\<close>

lemma pathsI:
  "i < 512 \<Longrightarrow> i \<noteq> r \<Longrightarrow> [i] \<in> paths r"
  "i < 512 \<Longrightarrow> i \<noteq> r \<Longrightarrow> j < 512 \<Longrightarrow> [i, j] \<in> paths r"
  "i < 512 \<Longrightarrow> i \<noteq> r \<Longrightarrow> j < 512 \<Longrightarrow> k < 512 \<Longrightarrow> [i, j, k] \<in> paths r"
  "[] \<in> paths r"
  by (auto simp: paths_def)

text \<open>
  A translation only reads the walks along prefixes of its path and the entries they
  end at; two stores that agree there translate alike.
\<close>

lemma lookup_path_cong:
  assumes "\<And>p. p \<in> {[i4], [i4, i3], [i4, i3, i2]} \<Longrightarrow> walk S' Root p = walk S Root p"
    and "\<And>t. walk S Root [i4] = Some t \<Longrightarrow> is_leaf (S' t i3) = is_leaf (S t i3) \<and>
           (is_leaf (S t i3) \<longrightarrow> S' t i3 = S t i3)"
    and "\<And>t. walk S Root [i4, i3] = Some t \<Longrightarrow> is_leaf (S' t i2) = is_leaf (S t i2) \<and>
           (is_leaf (S t i2) \<longrightarrow> S' t i2 = S t i2)"
    and "\<And>t. walk S Root [i4, i3, i2] = Some t \<Longrightarrow> S' t i1 = S t i1"
  shows "lookup_path S' i4 i3 i2 i1 = lookup_path S i4 i3 i2 i1"
  using assms unfolding lookup_path_def by (auto split: option.split)

lemma translate_put_zeroed:
  assumes tr: "tree S r U" and f: "f \<notin> U"
  shows "translate (put_zeroed S f) r v = translate S r v"
proof (cases "pml4_index (vaddr_info v) = r")
  case True
  then show ?thesis by (simp add: translate_def Let_def)
next
  case False
  have same: "put_zeroed S f t j = S t j" if "p \<in> paths r" "walk S Root p = Some t" for p t j
    using tree_used [OF tr that(1)] that(2) f by (cases t) (auto simp: put_zeroed_def)
  have "lookup_path (put_zeroed S f) i4 i3 i2 i1 = lookup_path S i4 i3 i2 i1"
    if idx: "i4 < 512" "i4 \<noteq> r" "i3 < 512" "i2 < 512" for i4 i3 i2 i1
  proof -
    note p = pathsI(1) [OF idx(1,2)] pathsI(2) [OF idx(1,2,3)] pathsI(3) [OF idx]
    show ?thesis
      by (rule lookup_path_cong)
        (use same [OF p(1)] same [OF p(2)] same [OF p(3)] p in
          \<open>auto simp: walk_put_zeroed [OF tr f]\<close>)
  qed
  then show ?thesis
    using False by (simp add: translate_def Let_def)
qed

lemma step_entry_None_zero: "S t = (\<lambda>_. 0) \<Longrightarrow> step_entry S t i = None"
  by (simp add: step_entry_def)

text \<open>
  Linking a fresh table below the third level maps nothing: the old entry was absent and
  the new table is empty.
\<close>

lemma lookup_path_link:
  assumes tr: "tree S r U" and f: "f \<notin> U" "page_frame f" and z: "S (At f) = (\<lambda>_. 0)"
    and p: "p \<in> paths r" "walk S Root p = Some t" "length p \<le> 2" and none: "\<not> bit (S t i) 0"
    and idx: "i4 < 512" "i4 \<noteq> r" "i3 < 512" "i2 < 512"
  shows "lookup_path (put_entry S t i (link_entry f)) i4 i3 i2 i1 = lookup_path S i4 i3 i2 i1"
proof -
  let ?S = "put_entry S t i (link_entry f)"
  note wl = walk_link [OF tr f z p(1,2) none]
  note w1 = wl [OF pathsI(1) [OF idx(1,2)]] and w2 = wl [OF pathsI(2) [OF idx(1,2,3)]]
    and w3 = wl [OF pathsI(3) [OF idx]]
  have tf: "t \<noteq> At f" using tree_used [OF tr p(1)] p(2) f(1) by auto
  have zf: "?S (At f) j = 0" for j using tf z by (simp add: put_entry_def)
  have leaf: "is_leaf (?S u j) = is_leaf (S u j) \<and> (is_leaf (S u j) \<longrightarrow> ?S u j = S u j)" for u j
    using none by (auto simp: put_entry_def is_leaf_def)
  have pw: "walk S Root (p @ [i]) = None"
    using p(2) none by (simp add: walk_snoc step_entry_def)
  have other: "?S u i1 = S u i1" if "walk S Root [i4, i3, i2] = Some u" for u
  proof -
    have "[i4, i3, i2] \<in> paths r" using idx by (simp add: pathsI)
    with that p tree_inj [OF tr _ p(1)] have "u \<noteq> t" by force
    then show ?thesis by (simp add: put_entry_def)
  qed
  consider "p @ [i] = [i4]" | "p @ [i] = [i4, i3]" | "p @ [i] = [i4, i3, i2]"
    | "p @ [i] \<notin> {[i4], [i4, i3], [i4, i3, i2]}" by blast
  then show ?thesis
  proof cases
    case 1
    then have w: "walk ?S Root [i4] = Some (At f)" "walk S Root [i4] = None"
      using w1 pw by simp_all
    moreover have "walk ?S Root [i4, i3] = None"
      using w(1) zf by (simp add: walk_steps(2) step_entry_def)
    ultimately show ?thesis
      by (simp add: lookup_path_def zf is_leaf_def)
  next
    case 2
    then have w: "walk ?S Root [i4] = walk S Root [i4]" "walk ?S Root [i4, i3] = Some (At f)"
      "walk S Root [i4, i3] = None"
      using w1 w2 pw by simp_all
    moreover have "walk ?S Root [i4, i3, i2] = None"
      using w(2) zf by (simp add: walk_steps(3) step_entry_def)
    ultimately show ?thesis
      using leaf by (auto simp: lookup_path_def zf is_leaf_def split: option.split)
  next
    case 3
    then have w: "walk ?S Root [i4] = walk S Root [i4]"
      "walk ?S Root [i4, i3] = walk S Root [i4, i3]"
      "walk ?S Root [i4, i3, i2] = Some (At f)" "walk S Root [i4, i3, i2] = None"
      using w1 w2 w3 pw by simp_all
    then show ?thesis
      using leaf by (auto simp: lookup_path_def zf split: option.split)
  next
    case 4
    then have w: "\<And>q. q \<in> {[i4], [i4, i3], [i4, i3, i2]} \<Longrightarrow> walk ?S Root q = walk S Root q"
      using w1 w2 w3 by auto
    show ?thesis by (rule lookup_path_cong) (use w leaf other in auto)
  qed
qed

lemma translate_link:
  assumes "tree S r U" and "f \<notin> U" "page_frame f" and "S (At f) = (\<lambda>_. 0)"
    and "p \<in> paths r" "walk S Root p = Some t" "length p \<le> 2" and "\<not> bit (S t i) 0"
  shows "translate (put_entry S t i (link_entry f)) r v = translate S r v"
  using lookup_path_link [OF assms] by (simp add: translate_def Let_def)

section \<open>Setting a page entry\<close>

lemma walk_set_page:
  assumes tr: "tree S r U" and p: "p \<in> paths r" "walk S Root p = Some t" "length p = 3"
    and q: "q \<in> paths r"
  shows "walk (put_entry S t i e) Root q = walk S Root q"
  using q
proof (induction q rule: rev_induct)
  case Nil
  then show ?case by simp
next
  case (snoc j q)
  then have q: "q \<in> paths r" by (blast dest: paths_snocD)
  have "length q \<le> 2" using snoc.prems by (simp add: paths_def)
  then have "q \<noteq> p" using p(3) by auto
  then have "u \<noteq> t" if "walk S Root q = Some u" for u
    using tree_inj [OF tr q p(1)] that p(2) by auto
  with snoc.IH [OF q] show ?case
    by (simp add: walk_snoc step_other split: option.split)
qed

lemma tree_set_page:
  assumes "tree S r U" and "p \<in> paths r" "walk S Root p = Some t" "length p = 3"
  shows "tree (put_entry S t i e) r U"
  using assms(1) walk_set_page [OF assms] by (auto simp: tree_def)

text \<open>
  Writing a present page entry changes the translation of exactly one page.
\<close>

lemma translate_set_page:
  assumes tr: "tree S r U" and e: "bit e 0"
    and v: "pml4_index (vaddr_info v) = i4" "pdpt_index (vaddr_info v) = i3"
      "pd_index (vaddr_info v) = i2" "pt_index (vaddr_info v) = i1" "i4 \<noteq> r"
    and w: "walk S Root [i4, i3, i2] = Some t"
  shows "translate (put_entry S t i1 e) r u =
    (if same_page u v then Some (Page e) else translate S r u)"
proof -
  let ?S = "put_entry S t i1 e"
  have lt: "i4 < 512" "i3 < 512" "i2 < 512" using v info_indices_lt by auto
  then have p: "[i4, i3, i2] \<in> paths r" using v(5) by (simp add: pathsI)
  note ws = walk_set_page [OF tr p w]
  have neq: "x \<noteq> t" if "q \<in> paths r" "walk S Root q = Some x" "q \<noteq> [i4, i3, i2]" for q x
    using tree_inj [OF tr that(1) p] that w by auto
  show ?thesis
  proof (cases "pml4_index (vaddr_info u) = r")
    case True
    then show ?thesis using v by (auto simp: translate_def Let_def same_page_def)
  next
    case False
    show ?thesis
    proof (cases "same_page u v")
      case True
      obtain t2 where t2: "walk S Root [i4, i3] = Some t2" "step_entry S t2 i2 = Some t"
        using w by (auto simp: walk_steps(3) split: option.splits)
      obtain t3 where t3: "walk S Root [i4] = Some t3" "step_entry S t3 i3 = Some t2"
        using t2(1) by (auto simp: walk_steps(2) split: option.splits)
      have "t3 \<noteq> Root" "t2 \<noteq> Root" using walk_At t3(1) t2(1) by blast+
      then have "\<not> is_leaf (S t3 i3)" "\<not> is_leaf (S t2 i2)"
        using t3(2) t2(2) by (auto simp: step_entry_def is_leaf_def split: option.splits if_splits)
      moreover have "t3 \<noteq> t" "t2 \<noteq> t"
        using neq [of "[i4]"] neq [of "[i4, i3]"] t3 t2 lt v(5) by (auto simp: pathsI)
      ultimately show ?thesis
        using True v e lt t3 t2 w
        by (simp add: translate_def Let_def same_page_def lookup_path_def ws pathsI)
          (simp add: put_entry_def)
    next
      case diff: False
      have "lookup_path ?S j4 j3 j2 j1 = lookup_path S j4 j3 j2 j1"
        if "j4 < 512" "j3 < 512" "j2 < 512" "j4 \<noteq> r" "(j4, j3, j2, j1) \<noteq> (i4, i3, i2, i1)"
        for j4 j3 j2 j1
      proof -
        note pj = pathsI(1) [OF that(1,4)] pathsI(2) [OF that(1,4,2)] pathsI(3) [OF that(1,4,2,3)]
        have "?S x j1 = S x j1" if "walk S Root [j4, j3, j2] = Some x" for x
          using neq [OF pj(3) that] \<open>(j4, j3, j2, j1) \<noteq> (i4, i3, i2, i1)\<close>
          by (auto simp: put_entry_def)
        moreover have "?S x = S x" if "walk S Root [j4] = Some x \<or> walk S Root [j4, j3] = Some x" for x
          using that neq [OF pj(1), of x] neq [OF pj(2), of x] by (auto simp: put_entry_def)
        ultimately show ?thesis
          by (intro lookup_path_cong) (use pj ws in auto)
      qed
      then show ?thesis
        using diff False v by (auto simp: translate_def Let_def same_page_def)
    qed
  qed
qed

end
