(* ===== verification/Virt_Map.thy ===== *)
theory Virt_Map
  imports Page_Tree
begin

text \<open>
  The virtual memory map of \<open>bootinfo/src/vaddr/x86_64/virt.rs\<close>: physical memory and
  the memory management unit, the two mappers (\<open>LocalMapper\<close>, \<open>RecursiveMapper\<close>),
  \<open>VirtualMap::map\<close> and \<open>VirtualMapBuilder\<close>, all over an explicit machine state. The
  correctness proofs are in the theories \<open>Map_Laws\<close> and \<open>Map_Correct\<close>.
\<close>

section \<open>The machine\<close>

text \<open>
  Physical memory is read and written one 8-byte table entry at a time: \<open>frames m f i\<close>
  is entry \<open>i\<close> of the 4096-byte frame at the physical address \<open>f\<close>. \<open>cr3\<close> is the
  physical address of the active top-level table, or \<open>None\<close> while the firmware's
  identity mapping is active (until the bootloader jumps to the kernel). \<open>pool\<close> is the
  state of whatever hands out frames.
\<close>

record 'a machine =
  frames :: "paddr \<Rightarrow> usize \<Rightarrow> entry"
  cr3 :: "paddr option"
  pool :: 'a

text \<open>
  The walk of the memory management unit (AMD64 and Intel 64 manuals, 4-level paging),
  to the frame that holds the byte at \<open>v\<close>, written from the manuals and not from the code: the
  four indices are bits 47 to 39, 38 to 30, 29 to 21 and 20 to 12 of the address, a table or a
  4-KByte page is at bits 51 to 12 of its entry, a 2-MByte page at bits 51 to 21 and a 1-GByte
  page at bits 51 to 30, where the bits below come from the address. A non-canonical address,
  an absent entry or the reserved bit 7 of a top-level entry fault. Permissions are not
  checked: the tables are only accessed in supervisor mode through entries that are writable.
\<close>

definition hw_index :: "nat \<Rightarrow> vaddr \<Rightarrow> usize" where
  "hw_index k v = drop_bit k v AND 0x1ff"

definition hw_frame :: "entry \<Rightarrow> paddr" where
  "hw_frame e = e AND 0x000ffffffffff000"

definition mmu_frame :: "(paddr \<Rightarrow> usize \<Rightarrow> entry) \<Rightarrow> paddr \<Rightarrow> vaddr \<Rightarrow> paddr option" where
  "mmu_frame fr c v =
     (let e4 = fr c (hw_index 39 v);
          e3 = fr (hw_frame e4) (hw_index 30 v);
          e2 = fr (hw_frame e3) (hw_index 21 v);
          e1 = fr (hw_frame e2) (hw_index 12 v)
      in if \<not> canonical v \<or> \<not> bit e4 0 \<or> bit e4 7 \<or> \<not> bit e3 0 then None
         else if bit e3 7 then Some (e3 AND 0x000fffffc0000000 OR v AND 0x3ffff000)
         else if \<not> bit e2 0 then None
         else if bit e2 7 then Some (e2 AND 0x000fffffffe00000 OR v AND 0x1ff000)
         else if \<not> bit e1 0 then None
         else Some (hw_frame e1))"

text \<open>The code's own masks and indices are those of the manuals.\<close>

lemma hw_index_info:
  "hw_index 39 v = pml4_index (vaddr_info v)" "hw_index 30 v = pdpt_index (vaddr_info v)"
  "hw_index 21 v = pd_index (vaddr_info v)" "hw_index 12 v = pt_index (vaddr_info v)"
  by (simp_all add: hw_index_def vaddr_info_def)

lemma hw_address_masks:
  "NODE_ADDRESS_MASK = 0x000ffffffffff000" "PT_ADDRESS_MASK = 0x000ffffffffff000"
  "PD_ADDRESS_MASK = 0x000fffffffe00000" "PDPT_ADDRESS_MASK = 0x000fffffc0000000"
  by (simp_all add: NODE_ADDRESS_MASK_def PT_ADDRESS_MASK_def PD_ADDRESS_MASK_def
      PDPT_ADDRESS_MASK_def push_bit_eq_mult)

lemma hw_frame_code: "hw_frame e = node_child_addr e" "hw_frame e = pt_entry_addr e"
  by (simp_all add: hw_frame_def node_child_addr_def pt_entry_addr_def hw_address_masks)

lemma hw_offsets:
  "v AND 0x1ff000 = push_bit 12 (pt_index (vaddr_info v))"
  "v AND 0x3ffff000 =
     push_bit 21 (pd_index (vaddr_info v)) OR push_bit 12 (pt_index (vaddr_info v))"
proof -
  have m: "(0x1ff000 :: usize) = push_bit 12 (mask 9)" "(0x3ffff000 :: usize) = push_bit 12 (mask 18)"
    by (simp_all add: mask_eq_exp_minus_1 push_bit_eq_mult)
  show "v AND 0x1ff000 = push_bit 12 (pt_index (vaddr_info v))"
    unfolding m by (rule bit_word_eqI)
      (auto simp: vaddr_info_def mask_9 bit_and_iff bit_push_bit_iff bit_mask_iff bit_drop_bit_eq)
  show "v AND 0x3ffff000 =
     push_bit 21 (pd_index (vaddr_info v)) OR push_bit 12 (pt_index (vaddr_info v))"
    unfolding m
  proof (rule bit_word_eqI)
    fix n
    show "bit (v AND push_bit 12 (mask 18)) n \<longleftrightarrow>
      bit (push_bit 21 (pd_index (vaddr_info v)) OR push_bit 12 (pt_index (vaddr_info v))) n"
      by (cases "21 \<le> n") (auto simp: vaddr_info_def mask_9 bit_and_iff bit_or_iff
          bit_push_bit_iff bit_mask_iff bit_drop_bit_eq)
  qed
qed

lemma mmu_frame_code:
  "mmu_frame fr c v =
     (let i = vaddr_info v;
          e4 = fr c (pml4_index i);
          e3 = fr (node_child_addr e4) (pdpt_index i);
          e2 = fr (node_child_addr e3) (pd_index i);
          e1 = fr (node_child_addr e2) (pt_index i)
      in if \<not> canonical v \<or> \<not> bit e4 0 \<or> bit e4 7 \<or> \<not> bit e3 0 then None
         else if bit e3 7 then Some (pdpt_leaf_addr e3 OR push_bit 21 (pd_index i) OR push_bit 12 (pt_index i))
         else if \<not> bit e2 0 then None
         else if bit e2 7 then Some (pd_leaf_addr e2 OR push_bit 12 (pt_index i))
         else if \<not> bit e1 0 then None
         else Some (pt_entry_addr e1))"
  by (simp add: mmu_frame_def Let_def hw_index_info hw_offsets hw_frame_code(1) pdpt_leaf_addr_def
      pd_leaf_addr_def hw_address_masks or.assoc flip: hw_frame_code(2))

text \<open>The frame a pointer to a table points to; tables are page-aligned.\<close>

definition frame_of :: "'a machine \<Rightarrow> usize \<Rightarrow> paddr option" where
  "frame_of m ptr =
     (if ptr AND 0xfff \<noteq> 0 then None
      else case cr3 m of None \<Rightarrow> Some ptr | Some c \<Rightarrow> mmu_frame (frames m) c ptr)"

text \<open>
  \<open>table.entries[i]\<close> through a table pointer: an index out of range panics, an access
  through a pointer that is not mapped is undefined.
\<close>

definition load_entry :: "'a machine \<Rightarrow> usize \<Rightarrow> usize \<Rightarrow> entry exec" where
  "load_entry m ptr i =
     (if 512 \<le> i then Panic ''index out of bounds''
      else case frame_of m ptr of None \<Rightarrow> Undefined | Some f \<Rightarrow> Ret (frames m f i))"

definition set_frame_entry :: "'a machine \<Rightarrow> paddr \<Rightarrow> usize \<Rightarrow> entry \<Rightarrow> 'a machine" where
  "set_frame_entry m f i e = m\<lparr> frames := (frames m)(f := (frames m f)(i := e)) \<rparr>"

definition store_entry :: "'a machine \<Rightarrow> usize \<Rightarrow> usize \<Rightarrow> entry \<Rightarrow> 'a machine exec" where
  "store_entry m ptr i e =
     (if 512 \<le> i then Panic ''index out of bounds''
      else case frame_of m ptr of None \<Rightarrow> Undefined | Some f \<Rightarrow> Ret (set_frame_entry m f i e))"

text \<open>\<open>slice::get(i).unwrap_unchecked()\<close>: undefined where the index is out of range.\<close>

definition get_unchecked :: "'a machine \<Rightarrow> usize \<Rightarrow> usize \<Rightarrow> entry exec" where
  "get_unchecked m ptr i = (if 512 \<le> i then Undefined else load_entry m ptr i)"

text \<open>The closure that hands out page tables.\<close>

type_synonym 'a table_source = "'a machine \<Rightarrow> paddr option \<times> 'a machine"

section \<open>Errors\<close>

datatype virtual_map_error =
    PageTable
  | Reserved paddr vaddr
  | AlreadyMapped paddr vaddr paddr

section \<open>The mapper interface\<close>

text \<open>
  The trait \<open>VirtualMapper\<close>. The references to tables are pointers, resolved at every
  access; the top-level table is read and written through the mapper itself because
  \<open>LocalMapper\<close> holds it in a field.
\<close>

record ('mp, 'a) virtual_mapper =
  vm_reserved :: "'mp \<Rightarrow> vaddr \<Rightarrow> bool"
  vm_pml4_get :: "'mp \<Rightarrow> 'a machine \<Rightarrow> usize \<Rightarrow> entry exec"
  vm_pml4_set :: "'mp \<Rightarrow> 'a machine \<Rightarrow> usize \<Rightarrow> entry \<Rightarrow> ('mp \<times> 'a machine) exec"
  vm_pdpt :: "'mp \<Rightarrow> 'a machine \<Rightarrow> usize \<Rightarrow> usize exec"
  vm_pd :: "'mp \<Rightarrow> 'a machine \<Rightarrow> usize \<Rightarrow> usize \<Rightarrow> usize exec"
  vm_pt :: "'mp \<Rightarrow> 'a machine \<Rightarrow> usize \<Rightarrow> usize \<Rightarrow> usize \<Rightarrow> usize exec"

section \<open>The mapper of the builder\<close>

record local_mapper =
  lm_table :: "usize \<Rightarrow> entry"
  lm_page_table_ptr :: "paddr \<Rightarrow> usize"
  lm_recursion_index :: usize

definition local_reserved :: "local_mapper \<Rightarrow> vaddr \<Rightarrow> bool" where
  "local_reserved mp v \<longleftrightarrow> pml4_index (vaddr_info v) = lm_recursion_index mp"

definition local_pml4_get :: "local_mapper \<Rightarrow> 'a machine \<Rightarrow> usize \<Rightarrow> entry exec" where
  "local_pml4_get mp m i =
     (if 512 \<le> i then Panic ''index out of bounds'' else Ret (lm_table mp i))"

definition local_pml4_set ::
  "local_mapper \<Rightarrow> 'a machine \<Rightarrow> usize \<Rightarrow> entry \<Rightarrow> (local_mapper \<times> 'a machine) exec" where
  "local_pml4_set mp m i e =
     (if 512 \<le> i then Panic ''index out of bounds''
      else Ret (mp\<lparr> lm_table := (lm_table mp)(i := e) \<rparr>, m))"

definition local_pdpt :: "local_mapper \<Rightarrow> 'a machine \<Rightarrow> usize \<Rightarrow> usize exec" where
  "local_pdpt mp m i4 =
     (if 512 \<le> i4 then Undefined
      else Ret (lm_page_table_ptr mp (node_child_addr (lm_table mp i4))))"

definition local_pd :: "local_mapper \<Rightarrow> 'a machine \<Rightarrow> usize \<Rightarrow> usize \<Rightarrow> usize exec" where
  "local_pd mp m i4 i3 =
     bind_exec (local_pdpt mp m i4) (\<lambda>pdpt.
     bind_exec (get_unchecked m pdpt i3) (\<lambda>e.
       case pdpt_entry_kind e of
         Node n \<Rightarrow> Ret (lm_page_table_ptr mp (node_child_addr n))
       | Leaf _ \<Rightarrow> Undefined))"

definition local_pt :: "local_mapper \<Rightarrow> 'a machine \<Rightarrow> usize \<Rightarrow> usize \<Rightarrow> usize \<Rightarrow> usize exec" where
  "local_pt mp m i4 i3 i2 =
     bind_exec (local_pd mp m i4 i3) (\<lambda>pd.
     bind_exec (get_unchecked m pd i2) (\<lambda>e.
       case pd_entry_kind e of
         Node n \<Rightarrow> Ret (lm_page_table_ptr mp (node_child_addr n))
       | Leaf _ \<Rightarrow> Undefined))"

definition local_ops :: "(local_mapper, 'a) virtual_mapper" where
  "local_ops =
     \<lparr> vm_reserved = local_reserved, vm_pml4_get = local_pml4_get, vm_pml4_set = local_pml4_set,
       vm_pdpt = local_pdpt, vm_pd = local_pd, vm_pt = local_pt \<rparr>"

section \<open>The mapper of the kernel\<close>

record recursive_mapper =
  rm_recursion_index :: usize

definition recursive_reserved :: "recursive_mapper \<Rightarrow> vaddr \<Rightarrow> bool" where
  "recursive_reserved mp v \<longleftrightarrow> pml4_index (vaddr_info v) = rm_recursion_index mp"

definition recursive_pml4_ptr :: "recursive_mapper \<Rightarrow> usize" where
  "recursive_pml4_ptr mp =
     vaddr_from_info
       \<lparr> page_offset = 0, pt_index = rm_recursion_index mp, pd_index = rm_recursion_index mp,
         pdpt_index = rm_recursion_index mp, pml4_index = rm_recursion_index mp \<rparr>"

definition recursive_pml4_get :: "recursive_mapper \<Rightarrow> 'a machine \<Rightarrow> usize \<Rightarrow> entry exec" where
  "recursive_pml4_get mp m i = load_entry m (recursive_pml4_ptr mp) i"

definition recursive_pml4_set ::
  "recursive_mapper \<Rightarrow> 'a machine \<Rightarrow> usize \<Rightarrow> entry \<Rightarrow> (recursive_mapper \<times> 'a machine) exec" where
  "recursive_pml4_set mp m i e =
     bind_exec (store_entry m (recursive_pml4_ptr mp) i e) (\<lambda>m'. Ret (mp, m'))"

definition recursive_pdpt :: "recursive_mapper \<Rightarrow> 'a machine \<Rightarrow> usize \<Rightarrow> usize exec" where
  "recursive_pdpt mp m i4 =
     Ret (vaddr_from_info
       \<lparr> page_offset = 0, pt_index = i4, pd_index = rm_recursion_index mp,
         pdpt_index = rm_recursion_index mp, pml4_index = rm_recursion_index mp \<rparr>)"

definition recursive_pd :: "recursive_mapper \<Rightarrow> 'a machine \<Rightarrow> usize \<Rightarrow> usize \<Rightarrow> usize exec" where
  "recursive_pd mp m i4 i3 =
     Ret (vaddr_from_info
       \<lparr> page_offset = 0, pt_index = i3, pd_index = i4,
         pdpt_index = rm_recursion_index mp, pml4_index = rm_recursion_index mp \<rparr>)"

definition recursive_pt ::
  "recursive_mapper \<Rightarrow> 'a machine \<Rightarrow> usize \<Rightarrow> usize \<Rightarrow> usize \<Rightarrow> usize exec" where
  "recursive_pt mp m i4 i3 i2 =
     Ret (vaddr_from_info
       \<lparr> page_offset = 0, pt_index = i2, pd_index = i3, pdpt_index = i4,
         pml4_index = rm_recursion_index mp \<rparr>)"

definition recursive_ops :: "(recursive_mapper, 'a) virtual_mapper" where
  "recursive_ops =
     \<lparr> vm_reserved = recursive_reserved, vm_pml4_get = recursive_pml4_get,
       vm_pml4_set = recursive_pml4_set, vm_pdpt = recursive_pdpt, vm_pd = recursive_pd,
       vm_pt = recursive_pt \<rparr>"

section \<open>\<open>VirtualMap::map\<close>\<close>

text \<open>
  The state after a step is returned with errors too: a table that was linked before a
  later level fails stays linked. \<open>and_then\<close> is the early return of \<open>?\<close> and
  \<open>return Err\<close>.
\<close>

type_synonym ('mp, 'a) map_outcome = "((virtual_map_error + unit) \<times> 'mp \<times> 'a machine) exec"

definition and_then ::
  "('mp, 'a) map_outcome \<Rightarrow> ('mp \<Rightarrow> 'a machine \<Rightarrow> ('mp, 'a) map_outcome) \<Rightarrow> ('mp, 'a) map_outcome" where
  "and_then r k =
     bind_exec r (\<lambda>(res, mp, m).
       case res of Inl e \<Rightarrow> Ret (Inl e, mp, m) | Inr _ \<Rightarrow> k mp m)"

definition map_pml4_level ::
  "('mp, 'a) virtual_mapper \<Rightarrow> 'a table_source \<Rightarrow> usize \<Rightarrow> 'mp \<Rightarrow> 'a machine \<Rightarrow> ('mp, 'a) map_outcome" where
  "map_pml4_level ops new_page_table i4 mp m =
     bind_exec (vm_pml4_get ops mp m i4) (\<lambda>e.
       if \<not> node_is_present e
       then (case new_page_table m of
               (None, m1) \<Rightarrow> Ret (Inl PageTable, mp, m1)
             | (Some f, m1) \<Rightarrow>
                 bind_exec (vm_pml4_set ops mp m1 i4 (node_entry_new ENTRY_WRITABLE f))
                   (\<lambda>(mp', m2). Ret (Inr (), mp', m2)))
       else Ret (Inr (), mp, m))"

definition map_pdpt_level ::
  "('mp, 'a) virtual_mapper \<Rightarrow> 'a table_source \<Rightarrow> paddr \<Rightarrow> vaddr \<Rightarrow> usize \<Rightarrow> usize \<Rightarrow>
   'mp \<Rightarrow> 'a machine \<Rightarrow> ('mp, 'a) map_outcome" where
  "map_pdpt_level ops new_page_table p v i4 i3 mp m =
     bind_exec (vm_pdpt ops mp m i4) (\<lambda>pdpt.
     bind_exec (load_entry m pdpt i3) (\<lambda>e.
       if \<not> pdpt_entry_is_present e
       then (case new_page_table m of
               (None, m1) \<Rightarrow> Ret (Inl PageTable, mp, m1)
             | (Some f, m1) \<Rightarrow>
                 bind_exec
                   (store_entry m1 pdpt i3 (pdpt_entry_node (node_entry_new ENTRY_WRITABLE f)))
                   (\<lambda>m2. Ret (Inr (), mp, m2)))
       else (case pdpt_entry_kind e of
               Leaf l \<Rightarrow> Ret (Inl (AlreadyMapped p v (pdpt_leaf_addr l)), mp, m)
             | Node _ \<Rightarrow> Ret (Inr (), mp, m))))"

definition map_pd_level ::
  "('mp, 'a) virtual_mapper \<Rightarrow> 'a table_source \<Rightarrow> paddr \<Rightarrow> vaddr \<Rightarrow> usize \<Rightarrow> usize \<Rightarrow> usize \<Rightarrow>
   'mp \<Rightarrow> 'a machine \<Rightarrow> ('mp, 'a) map_outcome" where
  "map_pd_level ops new_page_table p v i4 i3 i2 mp m =
     bind_exec (vm_pd ops mp m i4 i3) (\<lambda>pd.
     bind_exec (load_entry m pd i2) (\<lambda>e.
       if \<not> pd_entry_is_present e
       then (case new_page_table m of
               (None, m1) \<Rightarrow> Ret (Inl PageTable, mp, m1)
             | (Some f, m1) \<Rightarrow>
                 bind_exec
                   (store_entry m1 pd i2 (pd_entry_node (node_entry_new ENTRY_WRITABLE f)))
                   (\<lambda>m2. Ret (Inr (), mp, m2)))
       else (case pd_entry_kind e of
               Leaf l \<Rightarrow> Ret (Inl (AlreadyMapped p v (pd_leaf_addr l)), mp, m)
             | Node _ \<Rightarrow> Ret (Inr (), mp, m))))"

definition page_entry_for :: "vflags \<Rightarrow> paddr \<Rightarrow> entry" where
  "page_entry_for flags p =
     pt_entry_new (entry_from_vflags flags) p
       OR (if vflags_contains flags VF_GLOBAL then PT_GLOBAL else 0)"

definition map_pt_level ::
  "('mp, 'a) virtual_mapper \<Rightarrow> paddr \<Rightarrow> vaddr \<Rightarrow> vflags \<Rightarrow> usize \<Rightarrow> usize \<Rightarrow> usize \<Rightarrow> usize \<Rightarrow>
   'mp \<Rightarrow> 'a machine \<Rightarrow> ('mp, 'a) map_outcome" where
  "map_pt_level ops p v flags i4 i3 i2 i1 mp m =
     bind_exec (vm_pt ops mp m i4 i3 i2) (\<lambda>pt.
     bind_exec (load_entry m pt i1) (\<lambda>e.
       if pt_entry_is_present e
       then Ret (Inl (AlreadyMapped p v (pt_entry_addr e)), mp, m)
       else bind_exec (store_entry m pt i1 (page_entry_for flags p))
              (\<lambda>m1. Ret (Inr (), mp, m1))))"

definition virtual_map ::
  "('mp, 'a) virtual_mapper \<Rightarrow> 'a table_source \<Rightarrow> paddr \<Rightarrow> vaddr \<Rightarrow> vflags \<Rightarrow>
   'mp \<Rightarrow> 'a machine \<Rightarrow> ('mp, 'a) map_outcome" where
  "virtual_map ops new_page_table p v flags mp m =
     (if vm_reserved ops mp v then Ret (Inl (Reserved p v), mp, m)
      else let i = vaddr_info v in
        and_then (map_pml4_level ops new_page_table (pml4_index i) mp m) (\<lambda>mp m.
        and_then (map_pdpt_level ops new_page_table p v (pml4_index i) (pdpt_index i) mp m) (\<lambda>mp m.
        and_then (map_pd_level ops new_page_table p v (pml4_index i) (pdpt_index i) (pd_index i)
                    mp m) (\<lambda>mp m.
          map_pt_level ops p v flags (pml4_index i) (pdpt_index i) (pd_index i) (pt_index i)
            mp m))))"

section \<open>The builder\<close>

record 'a virtual_map_builder =
  vb_mapper :: local_mapper
  vb_new_page_table :: "'a table_source"

definition builder_new :: "usize \<Rightarrow> 'a table_source \<Rightarrow> (paddr \<Rightarrow> usize) \<Rightarrow> 'a virtual_map_builder" where
  "builder_new recursion_index new_page_table page_table_ptr =
     \<lparr> vb_mapper =
         \<lparr> lm_table = (\<lambda>_. 0), lm_page_table_ptr = page_table_ptr,
           lm_recursion_index = recursion_index \<rparr>,
       vb_new_page_table = new_page_table \<rparr>"

definition builder_map ::
  "'a virtual_map_builder \<Rightarrow> paddr \<Rightarrow> vaddr \<Rightarrow> vflags \<Rightarrow> 'a machine \<Rightarrow>
   ((virtual_map_error + unit) \<times> 'a virtual_map_builder \<times> 'a machine) exec" where
  "builder_map b p v flags m =
     bind_exec (virtual_map local_ops (vb_new_page_table b) p v flags (vb_mapper b) m)
       (\<lambda>(r, mp, m'). Ret (r, b\<lparr> vb_mapper := mp \<rparr>, m'))"

text \<open>Writing a whole table through a pointer to a table: every entry of its frame.\<close>

definition store_table :: "'a machine \<Rightarrow> usize \<Rightarrow> (usize \<Rightarrow> entry) \<Rightarrow> 'a machine exec" where
  "store_table m ptr tab =
     (case frame_of m ptr of
        None \<Rightarrow> Undefined
      | Some f \<Rightarrow> Ret (m\<lparr> frames := (frames m)(f := tab) \<rparr>))"

definition builder_finish ::
  "'a virtual_map_builder \<Rightarrow> 'a machine \<Rightarrow>
   ((virtual_map_error + (paddr \<times> recursive_mapper)) \<times> 'a machine) exec" where
  "builder_finish b m =
     (let mapper = vb_mapper b; r = lm_recursion_index mapper in
      case vb_new_page_table b m of
        (None, m1) \<Rightarrow> Ret (Inl PageTable, m1)
      | (Some pml4_phys, m1) \<Rightarrow>
          if 512 \<le> r then Panic ''index out of bounds''
          else if node_is_present (lm_table mapper r)
          then Panic ''`recursion_index` is checked in earlier methods''
          else
            bind_exec
              (store_table m1 (lm_page_table_ptr mapper pml4_phys)
                ((lm_table mapper)(r := node_entry_new ENTRY_WRITABLE pml4_phys)))
              (\<lambda>m2. Ret (Inr (pml4_phys, \<lparr> rm_recursion_index = r \<rparr>), m2)))"

end
