(* ===== verification/Map_Laws.thy ===== *)
theory Map_Laws
  imports Virt_Map
begin

text \<open>
  The contract between \<open>VirtualMap::map\<close> and the two mappers, as a locale: what each
  operation of the trait promises about the abstract store of tables it gives access to.
  The correctness of \<open>map\<close> is proved once from the contract; the theory \<open>Map_Correct\<close>
  interprets it with both mappers.
\<close>

section \<open>Sources of page tables\<close>

text \<open>
  The safety contract of \<open>VirtualMapBuilder::new\<close> and \<open>VirtualMap::map\<close>: a page table
  handed out is a zeroed page frame that nothing else owns. \<open>taken\<close> are the frames that
  are owned, a function of the state of the source.
\<close>

definition page_table_source :: "('a \<Rightarrow> paddr set) \<Rightarrow> 'a table_source \<Rightarrow> bool" where
  "page_table_source taken np \<longleftrightarrow>
     (\<forall>m. case np m of
        (None, m1) \<Rightarrow>
          cr3 m1 = cr3 m \<and> frames m1 = frames m \<and> taken (pool m1) = taken (pool m)
      | (Some f, m1) \<Rightarrow>
          cr3 m1 = cr3 m \<and> frames m1 = (frames m)(f := (\<lambda>_. 0)) \<and> page_frame f \<and>
          f \<notin> taken (pool m) \<and> taken (pool m1) = insert f (taken (pool m)))"

lemma page_table_source_None:
  "page_table_source taken np \<Longrightarrow> np m = (None, m1) \<Longrightarrow>
   cr3 m1 = cr3 m \<and> frames m1 = frames m \<and> taken (pool m1) = taken (pool m)"
  unfolding page_table_source_def by (drule spec [of _ m]) simp

lemma page_table_source_Some:
  "page_table_source taken np \<Longrightarrow> np m = (Some f, m1) \<Longrightarrow>
   cr3 m1 = cr3 m \<and> frames m1 = (frames m)(f := (\<lambda>_. 0)) \<and> page_frame f \<and>
   f \<notin> taken (pool m) \<and> taken (pool m1) = insert f (taken (pool m))"
  unfolding page_table_source_def by (drule spec [of _ m]) simp

text \<open>
  The states a run can reach from \<open>m\<close> while it draws page tables from \<open>np\<close>: it writes to memory,
  which leaves the state of the source alone, and it is handed a frame.
\<close>

inductive supplied :: "'a table_source \<Rightarrow> 'a machine \<Rightarrow> 'a machine \<Rightarrow> bool" for np m where
  writes: "pool m1 = pool m \<Longrightarrow> cr3 m1 = cr3 m \<Longrightarrow> supplied np m m1"
| hands: "supplied np m m1 \<Longrightarrow> np m1 = (Some f, m2) \<Longrightarrow> pool m3 = pool m2 \<Longrightarrow> cr3 m3 = cr3 m2 \<Longrightarrow>
    supplied np m m3"

lemma supplied_refl [simp]: "supplied np m m"
  by (simp add: writes)

lemma supplied_now: "np m = (None, m1) \<Longrightarrow> \<exists>m0. supplied np m m0 \<and> np m0 = (None, m1)"
  using supplied_refl by blast

lemma supplied_write: "supplied np m m1 \<Longrightarrow> pool m2 = pool m1 \<Longrightarrow> cr3 m2 = cr3 m1 \<Longrightarrow> supplied np m m2"
  by (cases rule: supplied.cases) (auto intro: supplied.intros)

lemma supplied_trans: "supplied np m1 m2 \<Longrightarrow> supplied np m m1 \<Longrightarrow> supplied np m m2"
  by (induction rule: supplied.induct) (auto intro: supplied_write hands)

section \<open>The contract of a mapper\<close>

text \<open>
  A pointer obtained from a mapper stays valid, and keeps pointing to the same frame, in
  every later state in which the frames of the tables are unchanged.
\<close>

definition points :: "'a machine \<Rightarrow> paddr set \<Rightarrow> usize \<Rightarrow> paddr \<Rightarrow> bool" where
  "points m K ptr f \<longleftrightarrow>
     (\<forall>m1 :: 'a machine. cr3 m1 = cr3 m \<longrightarrow> (\<forall>g \<in> K. frames m1 g = frames m g) \<longrightarrow>
        frame_of m1 ptr = Some f)"

lemma points_frame: "points m K ptr f \<Longrightarrow> frame_of m ptr = Some f"
  unfolding points_def by blast

lemma points_load:
  "points m K ptr f \<Longrightarrow> i < 512 \<Longrightarrow> load_entry m ptr i = Ret (frames m f i)"
  by (simp add: load_entry_def points_frame not_le)

lemma points_later:
  fixes m m1 :: "'a machine"
  shows "points m K ptr f \<Longrightarrow> cr3 m1 = cr3 m \<Longrightarrow> (\<And>g. g \<in> K \<Longrightarrow> frames m1 g = frames m g) \<Longrightarrow>
   frame_of m1 ptr = Some f"
  unfolding points_def by blast

lemma points_store:
  fixes m m1 :: "'a machine"
  shows "points m K ptr f \<Longrightarrow> i < 512 \<Longrightarrow> cr3 m1 = cr3 m \<Longrightarrow> (\<And>g. g \<in> K \<Longrightarrow> frames m1 g = frames m g) \<Longrightarrow>
   store_entry m1 ptr i e = Ret (set_frame_entry m1 f i e)"
  using points_later [of m K ptr f m1] by (simp add: store_entry_def not_le)

lemma set_frame_entry_simps [state_simps]:
  "cr3 (set_frame_entry m f i e) = cr3 m" "pool (set_frame_entry m f i e) = pool m"
  "frames (set_frame_entry m f i e) = (frames m)(f := (frames m f)(i := e))"
  by (simp_all add: set_frame_entry_def)

text \<open>
  \<open>view\<close> is the store of tables the mapper gives access to, \<open>slot\<close> the top-level slot it
  keeps for itself and \<open>prot\<close> the frames it uses that are not tables of the tree.
\<close>

locale mapper_laws =
  fixes ops :: "('mp, 'a) virtual_mapper"
    and ok :: "'mp \<Rightarrow> 'a machine \<Rightarrow> bool"
    and view :: "'mp \<Rightarrow> 'a machine \<Rightarrow> store"
    and slot :: "'mp \<Rightarrow> usize"
    and prot :: "'mp \<Rightarrow> 'a machine \<Rightarrow> paddr set"
  assumes reserved_iff: "vm_reserved ops mp v \<longleftrightarrow> pml4_index (vaddr_info v) = slot mp"
    and pml4_get: "ok mp m \<Longrightarrow> i < 512 \<Longrightarrow> vm_pml4_get ops mp m i = Ret (view mp m Root i)"
    and pml4_set:
      "ok mp m \<Longrightarrow> i < 512 \<Longrightarrow> i \<noteq> slot mp \<Longrightarrow> \<not> bit e 7 \<Longrightarrow>
       \<exists>mp' m'. vm_pml4_set ops mp m i e = Ret (mp', m') \<and> ok mp' m' \<and>
         view mp' m' = put_entry (view mp m) Root i e \<and> slot mp' = slot mp \<and>
         prot mp' m' = prot mp m \<and> pool m' = pool m \<and> cr3 m' = cr3 m"
    and frame_view: "ok mp m \<Longrightarrow> f \<notin> prot mp m \<Longrightarrow> view mp m (At f) = frames m f"
    and frame_update:
      "ok mp m \<Longrightarrow> f \<notin> prot mp m \<Longrightarrow> cr3 m1 = cr3 m \<Longrightarrow> frames m1 = (frames m)(f := g) \<Longrightarrow>
       ok mp m1 \<and> prot mp m1 = prot mp m \<and> view mp m1 = (view mp m)(At f := g)"
    and pool_update:
      "ok mp m \<Longrightarrow> cr3 m1 = cr3 m \<Longrightarrow> frames m1 = frames m \<Longrightarrow>
       ok mp m1 \<and> prot mp m1 = prot mp m \<and> view mp m1 = view mp m"
    and pdpt_points:
      "ok mp m \<Longrightarrow> tree (view mp m) (slot mp) U \<Longrightarrow> U \<inter> prot mp m = {} \<Longrightarrow>
       i4 < 512 \<Longrightarrow> i4 \<noteq> slot mp \<Longrightarrow> walk (view mp m) Root [i4] = Some (At f) \<Longrightarrow>
       \<exists>ptr. vm_pdpt ops mp m i4 = Ret ptr \<and> points m (U \<union> prot mp m) ptr f"
    and pd_points:
      "ok mp m \<Longrightarrow> tree (view mp m) (slot mp) U \<Longrightarrow> U \<inter> prot mp m = {} \<Longrightarrow>
       i4 < 512 \<Longrightarrow> i4 \<noteq> slot mp \<Longrightarrow> i3 < 512 \<Longrightarrow>
       walk (view mp m) Root [i4, i3] = Some (At f) \<Longrightarrow>
       \<exists>ptr. vm_pd ops mp m i4 i3 = Ret ptr \<and> points m (U \<union> prot mp m) ptr f"
    and pt_points:
      "ok mp m \<Longrightarrow> tree (view mp m) (slot mp) U \<Longrightarrow> U \<inter> prot mp m = {} \<Longrightarrow>
       i4 < 512 \<Longrightarrow> i4 \<noteq> slot mp \<Longrightarrow> i3 < 512 \<Longrightarrow> i2 < 512 \<Longrightarrow>
       walk (view mp m) Root [i4, i3, i2] = Some (At f) \<Longrightarrow>
       \<exists>ptr. vm_pt ops mp m i4 i3 i2 = Ret ptr \<and> points m (U \<union> prot mp m) ptr f"

section \<open>Invariant and outcomes\<close>

text \<open>
  The invariant of a map: the mapper works, and the tables form a tree of frames that are
  taken and that the mapper does not use itself.
\<close>

definition map_inv ::
  "('mp \<Rightarrow> 'a machine \<Rightarrow> bool) \<Rightarrow> ('mp \<Rightarrow> 'a machine \<Rightarrow> store) \<Rightarrow> ('mp \<Rightarrow> usize) \<Rightarrow>
   ('mp \<Rightarrow> 'a machine \<Rightarrow> paddr set) \<Rightarrow> ('a \<Rightarrow> paddr set) \<Rightarrow> 'mp \<Rightarrow> 'a machine \<Rightarrow> bool" where
  "map_inv ok view slot prot taken mp m \<longleftrightarrow>
     ok mp m \<and> prot mp m \<subseteq> taken (pool m) \<and>
     tree (view mp m) (slot mp) (taken (pool m) - prot mp m)"

fun existing_addr :: "translation \<Rightarrow> paddr" where
  "existing_addr (Page e) = pt_entry_addr e"
| "existing_addr (Large2M e) = pd_leaf_addr e"
| "existing_addr (Large1G e) = pdpt_leaf_addr e"

text \<open>A store with no page table for the address: a table on its path is missing.\<close>

definition lacks_table :: "store \<Rightarrow> vaddr \<Rightarrow> bool" where
  "lacks_table S v \<longleftrightarrow>
     (let i = vaddr_info v in walk S Root [pml4_index i, pdpt_index i, pd_index i] = None)"

text \<open>
  When an error of \<open>map\<close> is justified, in terms of the translation \<open>tr\<close> and the machine \<open>m\<close>
  before the call, and the store \<open>S'\<close> and the machine \<open>m'\<close> after it: the reserved slot was asked
  for, the page was already mapped and the reported address is the existing one, or the page was
  not mapped, its path still misses a table, and the call ended at the moment the source refused:
  from a state that the source itself brought about, it answered \<open>None\<close> and left \<open>m'\<close>.
\<close>

fun error_justified ::
  "'a table_source \<Rightarrow> usize \<Rightarrow> paddr \<Rightarrow> vaddr \<Rightarrow> translation option \<Rightarrow> 'a machine \<Rightarrow>
   store \<Rightarrow> 'a machine \<Rightarrow> virtual_map_error \<Rightarrow> bool" where
  "error_justified np r p v tr m S' m' PageTable \<longleftrightarrow>
     pml4_index (vaddr_info v) \<noteq> r \<and> tr = None \<and> lacks_table S' v \<and>
     (\<exists>m0. supplied np m m0 \<and> np m0 = (None, m'))"
| "error_justified np r p v tr m S' m' (Reserved p' v') \<longleftrightarrow>
     p' = p \<and> v' = v \<and> pml4_index (vaddr_info v) = r"
| "error_justified np r p v tr m S' m' (AlreadyMapped p' v' a) \<longleftrightarrow>
     p' = p \<and> v' = v \<and> map_option existing_addr tr = Some a"

lemma error_justified_later:
  "error_justified np r p v tr m1 S' m' e \<Longrightarrow> supplied np m m1 \<Longrightarrow>
   error_justified np r p v tr m S' m' e"
  by (cases e) (auto intro: supplied_trans)

text \<open>
  The outcome of one level of \<open>map\<close>: it returns, keeps the invariant and every
  translation, and either reaches the next table along \<open>path\<close> or fails for a justified
  reason.
\<close>

definition level_post ::
  "('mp \<Rightarrow> 'a machine \<Rightarrow> bool) \<Rightarrow> ('mp \<Rightarrow> 'a machine \<Rightarrow> store) \<Rightarrow> ('mp \<Rightarrow> usize) \<Rightarrow>
   'a table_source \<Rightarrow> (store \<Rightarrow> 'a machine \<Rightarrow> virtual_map_error \<Rightarrow> bool) \<Rightarrow> usize list \<Rightarrow>
   'mp \<Rightarrow> 'a machine \<Rightarrow> ('mp, 'a) map_outcome \<Rightarrow> bool" where
  "level_post keeps view slot np justified path mp m r \<longleftrightarrow>
     (\<exists>res mp' m'. r = Ret (res, mp', m') \<and> keeps mp' m' \<and> slot mp' = slot mp \<and> cr3 m' = cr3 m \<and>
        (\<forall>u. translate (view mp' m') (slot mp) u = translate (view mp m) (slot mp) u) \<and>
        (case res of Inl e \<Rightarrow> justified (view mp' m') m' e
         | Inr _ \<Rightarrow> supplied np m m' \<and> (\<exists>f. walk (view mp' m') Root path = Some (At f))))"

text \<open>Facts about the translation of an address from the walk along its indices.\<close>

lemma translate_cases:
  assumes "i = vaddr_info v" "pml4_index i \<noteq> r"
  shows "walk S Root [pml4_index i] = None \<Longrightarrow> translate S r v = None"
    and "walk S Root [pml4_index i] = Some t3 \<Longrightarrow> \<not> bit (S t3 (pdpt_index i)) 0 \<Longrightarrow>
           translate S r v = None"
    and "walk S Root [pml4_index i] = Some t3 \<Longrightarrow> is_leaf (S t3 (pdpt_index i)) \<Longrightarrow>
           translate S r v = Some (Large1G (S t3 (pdpt_index i)))"
    and "walk S Root [pml4_index i, pdpt_index i] = Some t2 \<Longrightarrow> \<not> bit (S t2 (pd_index i)) 0 \<Longrightarrow>
           translate S r v = None"
    and "walk S Root [pml4_index i, pdpt_index i] = Some t2 \<Longrightarrow> is_leaf (S t2 (pd_index i)) \<Longrightarrow>
           translate S r v = Some (Large2M (S t2 (pd_index i)))"
    and "walk S Root [pml4_index i, pdpt_index i, pd_index i] = Some t1 \<Longrightarrow>
           translate S r v =
             (if bit (S t1 (pt_index i)) 0 then Some (Page (S t1 (pt_index i))) else None)"
  using assms
  by (auto simp: translate_def Let_def lookup_path_def walk_steps step_entry_def is_leaf_def
      split: option.splits if_splits)

section \<open>Correctness of \<open>map\<close> from the contract\<close>

context mapper_laws
begin

abbreviation keeps :: "('a \<Rightarrow> paddr set) \<Rightarrow> 'mp \<Rightarrow> 'a machine \<Rightarrow> bool" where
  "keeps taken \<equiv> map_inv ok view slot prot taken"

text \<open>A page table handed out leaves the map as it is and is outside its tree.\<close>

lemma fresh_table:
  assumes inv: "keeps taken mp m" and src: "page_table_source taken np"
    and np: "np m = (Some f, m1)"
  shows "ok mp m1" "prot mp m1 = prot mp m" "view mp m1 = put_zeroed (view mp m) f"
    "tree (view mp m1) (slot mp) (taken (pool m) - prot mp m)"
    "f \<notin> taken (pool m) - prot mp m" "f \<notin> prot mp m" "page_frame f"
    "taken (pool m1) = insert f (taken (pool m))" "prot mp m1 \<subseteq> taken (pool m)"
    "view mp m1 (At f) = (\<lambda>_. 0)"
proof -
  note facts = page_table_source_Some [OF src np]
  show f: "f \<notin> prot mp m" using inv facts by (auto simp: map_inv_def)
  have "ok mp m" using inv by (simp add: map_inv_def)
  note upd = frame_update [OF this f, of m1 "\<lambda>_. 0"]
  show v: "view mp m1 = put_zeroed (view mp m) f" and "ok mp m1" and p: "prot mp m1 = prot mp m"
    using upd facts by (auto simp: put_zeroed_def)
  show fu: "f \<notin> taken (pool m) - prot mp m" and "page_frame f"
    and "taken (pool m1) = insert f (taken (pool m))"
    using facts by auto
  show "prot mp m1 \<subseteq> taken (pool m)" using inv p by (simp add: map_inv_def)
  show "tree (view mp m1) (slot mp) (taken (pool m) - prot mp m)"
    unfolding v using inv fu by (intro tree_put_zeroed) (simp_all add: map_inv_def)
  show "view mp m1 (At f) = (\<lambda>_. 0)" unfolding v by (simp add: put_zeroed_def)
qed

text \<open>
  Linking a fresh table in the store, whichever operation writes the entry: the invariant
  is kept, no translation changes, and the walk reaches the new table.
\<close>

lemma link_fresh:
  assumes inv: "keeps taken mp m" and src: "page_table_source taken np"
    and np: "np m = (Some f, m1)"
    and p: "q \<in> paths (slot mp)" "walk (view mp m) Root q = Some t" "length q \<le> 2"
      "q @ [i] \<in> paths (slot mp)"
    and none: "\<not> bit (view mp m t i) 0"
    and post: "ok mp' m2" "view mp' m2 = put_entry (view mp m1) t i (link_entry f)"
      "slot mp' = slot mp" "prot mp' m2 = prot mp m" "pool m2 = pool m1"
  shows "keeps taken mp' m2"
    "translate (view mp' m2) (slot mp) u = translate (view mp m) (slot mp) u"
    "walk (view mp' m2) Root (q @ [i]) = Some (At f)"
proof -
  let ?U = "taken (pool m) - prot mp m"
  note fr = fresh_table [OF inv src np]
  have tr: "tree (view mp m) (slot mp) ?U" using inv by (simp add: map_inv_def)
  have w1: "walk (view mp m1) Root q = Some t"
    unfolding fr(3) using walk_put_zeroed [OF tr fr(5) p(1)] p(2) by simp
  have t: "t \<noteq> At f" using tree_used [OF tr p(1)] p(2) fr(5) by auto
  have none1: "\<not> bit (view mp m1 t i) 0"
    unfolding fr(3) using none t by (simp add: put_zeroed_def)
  note link = fr(4,5,7,10) p(1) w1
  show "walk (view mp' m2) Root (q @ [i]) = Some (At f)"
    unfolding post(2) using walk_link [OF link none1 p(4)] by simp
  show "translate (view mp' m2) (slot mp) u = translate (view mp m) (slot mp) u"
    unfolding post(2) using translate_link [OF link p(3) none1] translate_put_zeroed [OF tr fr(5)]
    by (simp add: fr(3))
  have "tree (view mp' m2) (slot mp) (insert f ?U)"
    unfolding post(2) by (rule tree_link [OF link none1])
  then have "tree (view mp' m2) (slot mp') (taken (pool m2) - prot mp' m2)"
    unfolding post(3-5) fr(8) by (rule tree_mono) (use fr(6) in auto)
  then show "keeps taken mp' m2"
    using post fr(2,8,9) by (auto simp: map_inv_def)
qed

lemma exhausted:
  assumes inv: "keeps taken mp m" and src: "page_table_source taken np" and np: "np m = (None, m1)"
  shows "keeps taken mp m1" "view mp m1 = view mp m" "cr3 m1 = cr3 m"
  using inv page_table_source_None [OF src np] pool_update [of mp m m1]
  by (auto simp: map_inv_def)

text \<open>The top level.\<close>

lemma pml4_level:
  assumes inv: "keeps taken mp m" and src: "page_table_source taken np"
    and i: "i = vaddr_info v" "pml4_index i \<noteq> slot mp"
  shows "level_post (keeps taken) view slot np
    (error_justified np (slot mp) p v (translate (view mp m) (slot mp) v) m)
    [pml4_index i] mp m (map_pml4_level ops np (pml4_index i) mp m)"
proof -
  let ?i = "pml4_index i" and ?e = "view mp m Root (pml4_index i)"
  have ok: "ok mp m" using inv by (simp add: map_inv_def)
  have lt: "?i < 512" and ne: "pml4_index (vaddr_info v) \<noteq> slot mp" using i by simp_all
  have get: "vm_pml4_get ops mp m ?i = Ret ?e" by (rule pml4_get [OF ok lt])
  show ?thesis
  proof (cases "bit ?e 0")
    case True
    then have "walk (view mp m) Root [?i] = Some (At (node_child_addr ?e))"
      by (simp add: walk_steps step_entry_def)
    then show ?thesis
      using True inv by (simp add: level_post_def map_pml4_level_def get entry_bits)
  next
    case False
    then have none: "translate (view mp m) (slot mp) v = None"
      using translate_cases(1) [OF i] by (simp add: walk_steps step_entry_def)
    show ?thesis
    proof (cases "np m")
      case (Pair r m1)
      show ?thesis
      proof (cases r)
        case None
        with Pair have np: "np m = (None, m1)" by simp
        have "lacks_table (view mp m1) v"
          using False exhausted(2) [OF inv src np]
          by (simp add: lacks_table_def Let_def i(1) [symmetric] walk_steps step_entry_def)
        moreover note supplied_now [of np m m1, OF np]
        ultimately show ?thesis
          using False np none exhausted [OF inv src np] ne
          by (simp add: level_post_def map_pml4_level_def get entry_bits)
      next
        case (Some f)
        with Pair have np: "np m = (Some f, m1)" by simp
        note fr = fresh_table [OF inv src np]
        obtain mp' m2 where set: "vm_pml4_set ops mp m1 ?i (link_entry f) = Ret (mp', m2)"
          "ok mp' m2" "view mp' m2 = put_entry (view mp m1) Root ?i (link_entry f)"
          "slot mp' = slot mp" "prot mp' m2 = prot mp m1" "pool m2 = pool m1" "cr3 m2 = cr3 m1"
          using pml4_set [OF fr(1) lt i(2), of "link_entry f"] by auto
        have q: "[] \<in> paths (slot mp)" "walk (view mp m) Root [] = Some Root"
          "length ([] :: usize list) \<le> 2" "[] @ [?i] \<in> paths (slot mp)"
          using lt i(2) by (simp_all add: pathsI)
        have pr: "prot mp' m2 = prot mp m" using set(5) fr(2) by simp
        note link_fresh [OF inv src np q False set(2,3,4) pr set(6)]
        moreover have "supplied np m m2" by (rule hands [OF supplied_refl [of np m] np set(6,7)])
        moreover have "cr3 m2 = cr3 m" using set(7) page_table_source_Some [OF src np] by simp
        ultimately show ?thesis
          using False np set by (simp add: level_post_def map_pml4_level_def get entry_bits)
      qed
    qed
  qed
qed

text \<open>
  The two middle levels do the same at different depths: load the entry through the
  pointer, link a fresh table when it is absent, refuse when it is a large page.
\<close>

lemma middle_level:
  assumes inv: "keeps taken mp m" and src: "page_table_source taken np"
    and q: "q \<in> paths (slot mp)" "q @ [i] \<in> paths (slot mp)" "length q \<le> 2" "i < 512"
      "walk (view mp m) Root q = Some (At f)"
    and ptr: "points m (taken (pool m) - prot mp m \<union> prot mp m) ptr f"
    and absent: "\<And>m1. \<not> bit (frames m f i) 0 \<Longrightarrow> np m = (None, m1) \<Longrightarrow>
      justified (view mp m) m1 PageTable"
    and leaf: "is_leaf (frames m f i) \<Longrightarrow>
      justified (view mp m) m (AlreadyMapped p v (la (frames m f i)))"
  shows "level_post (keeps taken) view slot np justified (q @ [i]) mp m
    (bind_exec (load_entry m ptr i) (\<lambda>e.
       if \<not> bit e 0
       then (case np m of
               (None, m1) \<Rightarrow> Ret (Inl PageTable, mp, m1)
             | (Some f, m1) \<Rightarrow>
                 bind_exec (store_entry m1 ptr i (link_entry f)) (\<lambda>m2. Ret (Inr (), mp, m2)))
       else if bit e 7 then Ret (Inl (AlreadyMapped p v (la e)), mp, m)
       else Ret (Inr (), mp, m)))" (is "level_post _ _ _ _ _ _ _ _ ?r")
proof -
  let ?e = "frames m f i" and ?U = "taken (pool m) - prot mp m"
  have ok: "ok mp m" and tr: "tree (view mp m) (slot mp) ?U"
    using inv by (simp_all add: map_inv_def)
  have fU: "f \<in> ?U" by (rule tree_used [OF tr q(1,5)])
  then have view: "view mp m (At f) = frames m f" using frame_view [OF ok] by auto
  note load = points_load [OF ptr q(4)]
  have step: "step_entry (view mp m) (At f) i =
    (if bit ?e 0 \<and> \<not> bit ?e 7 then Some (At (node_child_addr ?e)) else None)"
    by (simp add: step_entry_def view)
  show ?thesis
  proof (cases "bit ?e 0")
    case True
    then show ?thesis
      using inv leaf q(5) step by (auto simp: level_post_def load walk_snoc is_leaf_def)
  next
    case False
    obtain r m1 where np0: "np m = (r, m1)" by (cases "np m")
    show ?thesis
    proof (cases r)
      case None
      with np0 have np: "np m = (None, m1)" by simp
      note absent [OF False np]
      then show ?thesis
        using False np exhausted [OF inv src np] by (simp add: level_post_def load)
    next
      case (Some g)
      with np0 have np: "np m = (Some g, m1)" by simp
      note fr = fresh_table [OF inv src np] and facts = page_table_source_Some [OF src np]
      have fg: "f \<noteq> g" using fU fr(5) by auto
      let ?m2 = "set_frame_entry m1 f i (link_entry g)"
      have "frames m1 h = frames m h" if "h \<in> ?U \<union> prot mp m" for h
        using facts that fr(5,6) by auto
      with facts have st: "store_entry m1 ptr i (link_entry g) = Ret ?m2"
        by (intro points_store [OF ptr q(4)]) auto
      have fp: "f \<notin> prot mp m1" using fU fr(2) by simp
      have upd: "ok mp ?m2 \<and> prot mp ?m2 = prot mp m1 \<and>
        view mp ?m2 = (view mp m1)(At f := (frames m1 f)(i := link_entry g))"
        by (rule frame_update [OF fr(1) fp]) (simp_all add: state_simps)
      moreover have "view mp m1 (At f) = frames m1 f" by (rule frame_view [OF fr(1) fp])
      ultimately have v2: "view mp ?m2 = put_entry (view mp m1) (At f) i (link_entry g)"
        by (simp add: put_entry_def)
      have none: "\<not> bit (view mp m (At f) i) 0" using False view by simp
      have post: "ok mp ?m2" "prot mp ?m2 = prot mp m" "pool ?m2 = pool m1"
        using upd fr(2) by (simp_all add: state_simps)
      note link_fresh [OF inv src np q(1,5,3,2) none post(1) v2 refl post(2,3)]
      moreover have "supplied np m ?m2"
        by (rule hands [OF supplied_refl [of np m] np post(3)]) (simp add: state_simps)
      moreover have "cr3 ?m2 = cr3 m" using facts by (simp add: state_simps)
      ultimately show ?thesis
        using False np st by (simp add: level_post_def load)
    qed
  qed
qed

lemma pdpt_level:
  assumes inv: "keeps taken mp m" and src: "page_table_source taken np"
    and i: "i = vaddr_info v" "pml4_index i \<noteq> slot mp"
    and w: "walk (view mp m) Root [pml4_index i] = Some (At f)"
  shows "level_post (keeps taken) view slot np
    (error_justified np (slot mp) p v (translate (view mp m) (slot mp) v) m)
    [pml4_index i, pdpt_index i] mp m
    (map_pdpt_level ops np p v (pml4_index i) (pdpt_index i) mp m)"
proof -
  let ?U = "taken (pool m) - prot mp m"
  have ok: "ok mp m" and tr: "tree (view mp m) (slot mp) ?U"
    using inv by (simp_all add: map_inv_def)
  have lt: "pml4_index i < 512" "pdpt_index i < 512"
    and ne: "pml4_index (vaddr_info v) \<noteq> slot mp" using i by simp_all
  note q = pathsI(1) [OF lt(1) i(2)] pathsI(2) [OF lt(1) i(2) lt(2)]
  obtain ptr where ptr: "vm_pdpt ops mp m (pml4_index i) = Ret ptr"
    "points m (?U \<union> prot mp m) ptr f"
    using pdpt_points [OF ok tr _ lt(1) i(2) w] by auto
  have view: "view mp m (At f) = frames m f"
    using tree_used [OF tr q(1) w] frame_view [OF ok] by auto
  note cases = translate_cases(2,3) [OF i w, unfolded view]
  have lacks: "lacks_table (view mp m) v" if "\<not> bit (frames m f (pdpt_index i)) 0"
    using that w by (simp add: lacks_table_def Let_def i(1) [symmetric] walk_steps(2,3) step_entry_def view)
  have r: "map_pdpt_level ops np p v (pml4_index i) (pdpt_index i) mp m =
    bind_exec (load_entry m ptr (pdpt_index i)) (\<lambda>e.
       if \<not> bit e 0
       then (case np m of
               (None, m1) \<Rightarrow> Ret (Inl PageTable, mp, m1)
             | (Some f, m1) \<Rightarrow>
                 bind_exec (store_entry m1 ptr (pdpt_index i) (link_entry f))
                   (\<lambda>m2. Ret (Inr (), mp, m2)))
       else if bit e 7 then Ret (Inl (AlreadyMapped p v (pdpt_leaf_addr e)), mp, m)
       else Ret (Inr (), mp, m))"
    unfolding map_pdpt_level_def pdpt_entry_node_def
    by (simp add: ptr entry_bits
        if_distrib [of "case_union_entry _ _"] cong: if_cong)
  show ?thesis
    unfolding r
    by (rule middle_level [OF inv src q(1) _ _ lt(2) w ptr(2), simplified])
      (use q(2) cases ne lacks supplied_now [of np m] in auto)
qed

lemma pd_level:
  assumes inv: "keeps taken mp m" and src: "page_table_source taken np"
    and i: "i = vaddr_info v" "pml4_index i \<noteq> slot mp"
    and w: "walk (view mp m) Root [pml4_index i, pdpt_index i] = Some (At f)"
  shows "level_post (keeps taken) view slot np
    (error_justified np (slot mp) p v (translate (view mp m) (slot mp) v) m)
    [pml4_index i, pdpt_index i, pd_index i] mp m
    (map_pd_level ops np p v (pml4_index i) (pdpt_index i) (pd_index i) mp m)"
proof -
  let ?U = "taken (pool m) - prot mp m"
  have ok: "ok mp m" and tr: "tree (view mp m) (slot mp) ?U"
    using inv by (simp_all add: map_inv_def)
  have lt: "pml4_index i < 512" "pdpt_index i < 512" "pd_index i < 512"
    and ne: "pml4_index (vaddr_info v) \<noteq> slot mp" using i by simp_all
  note q = pathsI(2) [OF lt(1) i(2) lt(2)] pathsI(3) [OF lt(1) i(2) lt(2,3)]
  obtain ptr where ptr: "vm_pd ops mp m (pml4_index i) (pdpt_index i) = Ret ptr"
    "points m (?U \<union> prot mp m) ptr f"
    using pd_points [OF ok tr _ lt(1) i(2) lt(2) w] by auto
  have view: "view mp m (At f) = frames m f"
    using tree_used [OF tr q(1) w] frame_view [OF ok] by auto
  note cases = translate_cases(4,5) [OF i w, unfolded view]
  have lacks: "lacks_table (view mp m) v" if "\<not> bit (frames m f (pd_index i)) 0"
    using that w by (simp add: lacks_table_def Let_def i(1) [symmetric] walk_steps(3) step_entry_def view)
  have r: "map_pd_level ops np p v (pml4_index i) (pdpt_index i) (pd_index i) mp m =
    bind_exec (load_entry m ptr (pd_index i)) (\<lambda>e.
       if \<not> bit e 0
       then (case np m of
               (None, m1) \<Rightarrow> Ret (Inl PageTable, mp, m1)
             | (Some f, m1) \<Rightarrow>
                 bind_exec (store_entry m1 ptr (pd_index i) (link_entry f))
                   (\<lambda>m2. Ret (Inr (), mp, m2)))
       else if bit e 7 then Ret (Inl (AlreadyMapped p v (pd_leaf_addr e)), mp, m)
       else Ret (Inr (), mp, m))"
    unfolding map_pd_level_def pd_entry_node_def
    by (simp add: ptr entry_bits
        if_distrib [of "case_union_entry _ _"] cong: if_cong)
  show ?thesis
    unfolding r
    by (rule middle_level [OF inv src q(1) _ _ lt(3) w ptr(2), simplified])
      (use q(2) cases ne lacks supplied_now [of np m] in auto)
qed

text \<open>The page entry: the only step that changes a translation.\<close>

lemma bit_page_entry_for: "bit (page_entry_for flags p) 0"
  by (simp add: page_entry_for_def entry_bits bit_or_iff)

lemma pt_level:
  assumes inv: "keeps taken mp m"
    and i: "i = vaddr_info v" "pml4_index i \<noteq> slot mp"
    and w: "walk (view mp m) Root [pml4_index i, pdpt_index i, pd_index i] = Some (At f)"
  shows "\<exists>res m'. map_pt_level ops p v flags (pml4_index i) (pdpt_index i) (pd_index i)
      (pt_index i) mp m = Ret (res, mp, m') \<and> keeps taken mp m' \<and> cr3 m' = cr3 m \<and>
    (case res of
       Inl e \<Rightarrow> m' = m \<and>
         error_justified np (slot mp) p v (translate (view mp m) (slot mp) v) m (view mp m) m e
     | Inr _ \<Rightarrow> translate (view mp m) (slot mp) v = None \<and>
        (\<forall>u. translate (view mp m') (slot mp) u =
           (if same_page u v then Some (Page (page_entry_for flags p))
            else translate (view mp m) (slot mp) u)))"
proof -
  let ?U = "taken (pool m) - prot mp m" and ?e = "frames m f (pt_index i)"
  let ?new = "page_entry_for flags p"
  have ok: "ok mp m" and tr: "tree (view mp m) (slot mp) ?U"
    using inv by (simp_all add: map_inv_def)
  have lt: "pml4_index i < 512" "pdpt_index i < 512" "pd_index i < 512" "pt_index i < 512"
    using i by simp_all
  note q = pathsI(3) [OF lt(1) i(2) lt(2,3)]
  obtain ptr where ptr: "vm_pt ops mp m (pml4_index i) (pdpt_index i) (pd_index i) = Ret ptr"
    "points m (?U \<union> prot mp m) ptr f"
    using pt_points [OF ok tr _ lt(1) i(2) lt(2,3) w] by auto
  have fp: "f \<notin> prot mp m" using tree_used [OF tr q w] by simp
  have view: "view mp m (At f) = frames m f" by (rule frame_view [OF ok fp])
  note cases = translate_cases(6) [OF i w, unfolded view]
  have load: "load_entry m ptr (pt_index i) = Ret ?e"
    by (rule points_load [OF ptr(2) lt(4)])
  show ?thesis
  proof (cases "bit ?e 0")
    case True
    then show ?thesis
      using inv by (simp add: map_pt_level_def ptr load entry_bits cases)
  next
    case False
    let ?m' = "set_frame_entry m f (pt_index i) ?new"
    have st: "store_entry m ptr (pt_index i) ?new = Ret ?m'"
      by (rule points_store [OF ptr(2) lt(4)]) simp_all
    have upd: "ok mp ?m' \<and> prot mp ?m' = prot mp m \<and>
      view mp ?m' = (view mp m)(At f := (frames m f)(pt_index i := ?new))"
      by (rule frame_update [OF ok fp]) (simp_all add: state_simps)
    then have v2: "view mp ?m' = put_entry (view mp m) (At f) (pt_index i) ?new"
      by (simp add: put_entry_def view)
    have "translate (view mp ?m') (slot mp) u =
      (if same_page u v then Some (Page ?new) else translate (view mp m) (slot mp) u)" for u
      unfolding v2
      by (rule translate_set_page [OF tr bit_page_entry_for])
        (use i w in simp_all)
    moreover have "tree (view mp ?m') (slot mp) ?U"
      unfolding v2 by (rule tree_set_page [OF tr q w]) simp
    then have "keeps taken mp ?m'"
      using inv upd by (simp add: map_inv_def state_simps)
    ultimately show ?thesis
      using False set_frame_entry_simps(1) [of m f "pt_index i" ?new]
      by (simp add: map_pt_level_def ptr load entry_bits cases st)
  qed
qed

lemma level_postE:
  assumes "level_post kp view slot np justified path mp m r"
  obtains (error) e mp' m' where "r = Ret (Inl e, mp', m')" "kp mp' m'" "slot mp' = slot mp"
      "cr3 m' = cr3 m"
      "\<And>u. translate (view mp' m') (slot mp) u = translate (view mp m) (slot mp) u"
      "justified (view mp' m') m' e"
  | (fine) mp' m' f where "r = Ret (Inr (), mp', m')" "kp mp' m'" "slot mp' = slot mp"
      "cr3 m' = cr3 m"
      "\<And>u. translate (view mp' m') (slot mp) u = translate (view mp m) (slot mp) u"
      "supplied np m m'" "walk (view mp' m') Root path = Some (At f)"
proof -
  obtain res mp' m' where r: "r = Ret (res, mp', m')" "kp mp' m'" "slot mp' = slot mp"
      "cr3 m' = cr3 m"
      "\<And>u. translate (view mp' m') (slot mp) u = translate (view mp m) (slot mp) u"
    and res: "case res of Inl e \<Rightarrow> justified (view mp' m') m' e
      | Inr _ \<Rightarrow> supplied np m m' \<and> (\<exists>f. walk (view mp' m') Root path = Some (At f))"
    using assms unfolding level_post_def by blast
  show ?thesis
  proof (cases res)
    case (Inl e)
    with r res show ?thesis by (intro error [of e mp' m']) simp_all
  next
    case (Inr x)
    with res obtain f where "supplied np m m'" "walk (view mp' m') Root path = Some (At f)" by auto
    with r Inr show ?thesis by (intro fine [of mp' m' f]) simp_all
  qed
qed

text \<open>The whole of \<open>map\<close>.\<close>

lemma map_correct:
  assumes inv: "keeps taken mp m" and src: "page_table_source taken np"
  shows "\<exists>res mp' m'. virtual_map ops np p v flags mp m = Ret (res, mp', m') \<and>
    keeps taken mp' m' \<and> slot mp' = slot mp \<and> cr3 m' = cr3 m \<and>
    (case res of
       Inl e \<Rightarrow>
         (\<forall>u. translate (view mp' m') (slot mp) u = translate (view mp m) (slot mp) u) \<and>
         error_justified np (slot mp) p v (translate (view mp m) (slot mp) v) m (view mp' m') m' e
     | Inr _ \<Rightarrow>
         translate (view mp m) (slot mp) v = None \<and> pml4_index (vaddr_info v) \<noteq> slot mp \<and>
         (\<forall>u. translate (view mp' m') (slot mp) u =
            (if same_page u v then Some (Page (page_entry_for flags p))
             else translate (view mp m) (slot mp) u)))"
proof (cases "pml4_index (vaddr_info v) = slot mp")
  case True
  then show ?thesis
    using inv by (simp add: virtual_map_def reserved_iff)
next
  case False
  define i where "i = vaddr_info v"
  have ne: "pml4_index i \<noteq> slot mp" using False by (simp add: i_def)
  note mapdef = virtual_map_def Let_def reserved_iff ne and_then_def i_def [symmetric]
  show ?thesis
    using pml4_level [OF inv src i_def ne, of p]
  proof (cases rule: level_postE)
    case (error e mp' m')
    then show ?thesis by (simp add: mapdef)
  next
    case l4: (fine mp1 m1 f3)
    have ne1: "pml4_index i \<noteq> slot mp1" using ne l4 by simp
    show ?thesis
    using pdpt_level [OF l4(2) src i_def ne1 l4(7), of p]
  proof (cases rule: level_postE)
      case (error e mp' m')
      with l4 show ?thesis by (simp add: mapdef error_justified_later [OF _ l4(6)])
    next
      case l3: (fine mp2 m2 f2)
      have ne2: "pml4_index i \<noteq> slot mp2" using ne1 l3 by simp
      show ?thesis
    using pd_level [OF l3(2) src i_def ne2 l3(7), of p]
  proof (cases rule: level_postE)
        case (error e mp' m')
        with l4 l3 show ?thesis
          by (simp add: mapdef error_justified_later [OF _ supplied_trans [OF l3(6) l4(6)]])
      next
        case l2: (fine mp3 m3 f1)
        have ne3: "pml4_index i \<noteq> slot mp3" using ne2 l2 by simp
        obtain res m' where "map_pt_level ops p v flags (pml4_index i) (pdpt_index i) (pd_index i)
            (pt_index i) mp3 m3 = Ret (res, mp3, m')" "keeps taken mp3 m'" "cr3 m' = cr3 m3"
          "case res of
             Inl e \<Rightarrow> m' = m3 \<and>
               error_justified np (slot mp3) p v (translate (view mp3 m3) (slot mp3) v) m3
                 (view mp3 m3) m3 e
           | Inr _ \<Rightarrow> translate (view mp3 m3) (slot mp3) v = None \<and>
              (\<forall>u. translate (view mp3 m') (slot mp3) u =
                 (if same_page u v then Some (Page (page_entry_for flags p))
                  else translate (view mp3 m3) (slot mp3) u))"
          using pt_level [OF l2(2) i_def ne3 l2(7), of p flags np] by blast
        with l4 l3 l2 ne show ?thesis
          by (cases res) (simp_all add: mapdef
              error_justified_later [OF _ supplied_trans [OF l2(6) supplied_trans [OF l3(6) l4(6)]]])
      qed
    qed
  qed
qed

end

end
