(* ===== verification/Map_Correct.thy ===== *)
theory Map_Correct
  imports Map_Laws
begin

text \<open>
  Both mappers meet the contract \<open>mapper_laws\<close>, so \<open>VirtualMap::map\<close> is correct over
  each; the builder hands its map over to the kernel, where the memory management unit
  translates every address the way the map says.
\<close>

section \<open>The builder's mapper\<close>

definition local_ok :: "local_mapper \<Rightarrow> 'a machine \<Rightarrow> bool" where
  "local_ok mp m \<longleftrightarrow>
     cr3 m = None \<and> (\<forall>f. page_frame f \<longrightarrow> lm_page_table_ptr mp f = f) \<and>
     (\<forall>i. bit (lm_table mp i) 0 \<longrightarrow> i \<noteq> lm_recursion_index mp \<and> \<not> bit (lm_table mp i) 7)"

definition local_view :: "local_mapper \<Rightarrow> 'a machine \<Rightarrow> store" where
  "local_view mp m t = (case t of Root \<Rightarrow> lm_table mp | At f \<Rightarrow> frames m f)"

definition local_prot :: "local_mapper \<Rightarrow> 'a machine \<Rightarrow> paddr set" where
  "local_prot mp m = {}"

lemma page_frame_aligned: "page_frame f \<Longrightarrow> f AND 0xfff = 0"
  unfolding mask_12 by (auto simp: word_eq_bits bit_and_iff bit_mask_iff page_frame_bits)

lemma page_frame_child [simp]: "page_frame (node_child_addr e)"
  by (simp add: node_child_addr_def page_frame_def and.assoc)

lemma frame_of_identity: "cr3 m = None \<Longrightarrow> page_frame f \<Longrightarrow> frame_of m f = Some f"
  by (simp add: frame_of_def page_frame_aligned)

lemma points_identity: "cr3 m = None \<Longrightarrow> page_frame f \<Longrightarrow> points m K f f"
  by (simp add: points_def frame_of_identity)

lemma local_view_simps [state_simps]:
  "local_view mp m Root = lm_table mp" "local_view mp m (At f) = frames m f"
  by (simp_all add: local_view_def)

lemma local_ptr_child:
  "local_ok mp m \<Longrightarrow> lm_page_table_ptr mp (node_child_addr e) = node_child_addr e"
  by (simp add: local_ok_def)

lemma local_points: "local_ok mp m \<Longrightarrow> page_frame f \<Longrightarrow> points m K f f"
  by (simp add: local_ok_def points_identity)

lemma local_pdpt_eq:
  "local_ok mp m \<Longrightarrow> i4 < 512 \<Longrightarrow> walk (local_view mp m) Root [i4] = Some (At f) \<Longrightarrow>
   local_pdpt mp m i4 = Ret f \<and> page_frame f"
  by (auto simp: local_pdpt_def walk_steps step_entry_def state_simps local_ptr_child not_le
      split: if_splits)

lemma local_load:
  "local_ok mp m \<Longrightarrow> page_frame f \<Longrightarrow> i < 512 \<Longrightarrow> get_unchecked m f i = Ret (frames m f i)"
  by (simp add: get_unchecked_def load_entry_def frame_of_identity local_ok_def not_le)

lemma walk_two:
  assumes "walk S Root [i4, i3] = Some (At f)"
  obtains g where "walk S Root [i4] = Some (At g)" "bit (S (At g) i3) 0" "\<not> bit (S (At g) i3) 7"
    "f = node_child_addr (S (At g) i3)"
proof -
  from assms obtain t where t: "walk S Root [i4] = Some t" "step_entry S t i3 = Some (At f)"
    by (auto simp: walk_steps(2) split: option.splits)
  moreover obtain g where "t = At g" using walk_At t(1) by blast
  ultimately show thesis using that by (auto simp: step_entry_def split: if_splits)
qed

lemma walk_three:
  assumes "walk S Root [i4, i3, i2] = Some (At f)"
  obtains g where "walk S Root [i4, i3] = Some (At g)" "bit (S (At g) i2) 0"
    "\<not> bit (S (At g) i2) 7" "f = node_child_addr (S (At g) i2)"
proof -
  from assms obtain t where t: "walk S Root [i4, i3] = Some t" "step_entry S t i2 = Some (At f)"
    by (auto simp: walk_steps(3) split: option.splits)
  moreover obtain g where "t = At g" using walk_At t(1) by blast
  ultimately show thesis using that by (auto simp: step_entry_def split: if_splits)
qed

lemma local_pd_eq:
  assumes ok: "local_ok mp m" and lt: "i4 < 512" "i3 < 512"
    and w: "walk (local_view mp m) Root [i4, i3] = Some (At f)"
  shows "local_pd mp m i4 i3 = Ret f \<and> page_frame f"
proof -
  obtain g where g: "walk (local_view mp m) Root [i4] = Some (At g)" "\<not> bit (frames m g i3) 7"
    "f = node_child_addr (frames m g i3)"
    using walk_two [OF w] by (auto simp: state_simps)
  with local_pdpt_eq [OF ok lt(1) g(1)] show ?thesis
    by (simp add: local_pd_def local_load [OF ok _ lt(2)] entry_bits local_ptr_child [OF ok])
qed

lemma local_pt_eq:
  assumes ok: "local_ok mp m" and lt: "i4 < 512" "i3 < 512" "i2 < 512"
    and w: "walk (local_view mp m) Root [i4, i3, i2] = Some (At f)"
  shows "local_pt mp m i4 i3 i2 = Ret f \<and> page_frame f"
proof -
  obtain g where g: "walk (local_view mp m) Root [i4, i3] = Some (At g)" "\<not> bit (frames m g i2) 7"
    "f = node_child_addr (frames m g i2)"
    using walk_three [OF w] by (auto simp: state_simps)
  with local_pd_eq [OF ok lt(1,2) g(1)] show ?thesis
    by (simp add: local_pt_def local_load [OF ok _ lt(3)] entry_bits local_ptr_child [OF ok])
qed

interpretation local: mapper_laws local_ops local_ok local_view lm_recursion_index local_prot
proof unfold_locales
  fix mp :: local_mapper and v
  show "vm_reserved local_ops mp v \<longleftrightarrow> pml4_index (vaddr_info v) = lm_recursion_index mp"
    by (simp add: local_ops_def local_reserved_def)
next
  fix mp and m :: "'a machine" and i :: usize
  assume "local_ok mp m" "i < 512"
  then show "vm_pml4_get local_ops mp m i = Ret (local_view mp m Root i)"
    by (simp add: local_ops_def local_pml4_get_def state_simps not_le)
next
  fix mp and m :: "'a machine" and i :: usize and e :: entry
  assume "local_ok mp m" "i < 512" "i \<noteq> lm_recursion_index mp" "\<not> bit e 7"
  then show "\<exists>mp' m'. vm_pml4_set local_ops mp m i e = Ret (mp', m') \<and> local_ok mp' m' \<and>
      local_view mp' m' = put_entry (local_view mp m) Root i e \<and>
      lm_recursion_index mp' = lm_recursion_index mp \<and> local_prot mp' m' = local_prot mp m \<and>
      pool m' = pool m \<and> cr3 m' = cr3 m"
    by (auto simp: local_ops_def local_pml4_set_def local_ok_def local_view_def local_prot_def
        put_entry_def fun_eq_iff not_le split: table_ref.split)
next
  fix mp and m :: "'a machine" and f
  show "local_view mp m (At f) = frames m f" by (simp add: state_simps)
next
  fix mp and m m1 :: "'a machine" and f and g :: "usize \<Rightarrow> entry"
  assume "local_ok mp m" "cr3 m1 = cr3 m" "frames m1 = (frames m)(f := g)"
  then show "local_ok mp m1 \<and> local_prot mp m1 = local_prot mp m \<and>
      local_view mp m1 = (local_view mp m)(At f := g)"
    by (auto simp: local_ok_def local_prot_def local_view_def fun_eq_iff split: table_ref.split)
next
  fix mp and m m1 :: "'a machine"
  assume "local_ok mp m" "cr3 m1 = cr3 m" "frames m1 = frames m"
  then show "local_ok mp m1 \<and> local_prot mp m1 = local_prot mp m \<and>
      local_view mp m1 = local_view mp m"
    by (auto simp: local_ok_def local_prot_def local_view_def fun_eq_iff split: table_ref.split)
next
  fix mp and m :: "'a machine" and U i4 f
  assume "local_ok mp m" "i4 < 512" "walk (local_view mp m) Root [i4] = Some (At f)"
  then show "\<exists>ptr. vm_pdpt local_ops mp m i4 = Ret ptr \<and> points m (U \<union> local_prot mp m) ptr f"
    by (simp add: local_ops_def local_pdpt_eq local_points)
next
  fix mp and m :: "'a machine" and U i4 i3 f
  assume "local_ok mp m" "i4 < 512" "i3 < 512" "walk (local_view mp m) Root [i4, i3] = Some (At f)"
  then show "\<exists>ptr. vm_pd local_ops mp m i4 i3 = Ret ptr \<and> points m (U \<union> local_prot mp m) ptr f"
    by (simp add: local_ops_def local_pd_eq local_points)
next
  fix mp and m :: "'a machine" and U i4 i3 i2 f
  assume "local_ok mp m" "i4 < 512" "i3 < 512" "i2 < 512"
    "walk (local_view mp m) Root [i4, i3, i2] = Some (At f)"
  then show "\<exists>ptr. vm_pt local_ops mp m i4 i3 i2 = Ret ptr \<and>
      points m (U \<union> local_prot mp m) ptr f"
    by (simp add: local_ops_def local_pt_eq local_points)
qed

section \<open>The kernel's mapper\<close>

text \<open>
  The recursive slot points back to the active top-level table, which is not one of the
  tables of the tree.
\<close>

definition recursive_ok :: "recursive_mapper \<Rightarrow> 'a machine \<Rightarrow> bool" where
  "recursive_ok mp m \<longleftrightarrow>
     (case cr3 m of
        None \<Rightarrow> False
      | Some c \<Rightarrow>
          rm_recursion_index mp < 512 \<and> bit (frames m c (rm_recursion_index mp)) 0 \<and>
          node_child_addr (frames m c (rm_recursion_index mp)) = c \<and>
          (\<forall>i. bit (frames m c i) 0 \<longrightarrow> \<not> bit (frames m c i) 7))"

definition recursive_prot :: "recursive_mapper \<Rightarrow> 'a machine \<Rightarrow> paddr set" where
  "recursive_prot mp m = set_option (cr3 m)"

definition recursive_view :: "recursive_mapper \<Rightarrow> 'a machine \<Rightarrow> store" where
  "recursive_view mp m t =
     (case t of
        Root \<Rightarrow> frames m (the (cr3 m))
      | At f \<Rightarrow> if cr3 m = Some f then (\<lambda>_. 0) else frames m f)"

lemma recursive_view_simps [state_simps]:
  "recursive_view mp m Root = frames m (the (cr3 m))"
  "recursive_view mp m (At f) = (if cr3 m = Some f then (\<lambda>_. 0) else frames m f)"
  by (simp_all add: recursive_view_def)

lemma pt_entry_addr_child: "pt_entry_addr e = node_child_addr e"
  by (simp add: pt_entry_addr_def node_child_addr_def PT_ADDRESS_MASK_def NODE_ADDRESS_MASK_def)

text \<open>What the memory management unit makes of a page-aligned pointer built from indices.\<close>

lemma page_offset_aligned: "page_offset (vaddr_info v) = v AND 0xfff"
  by (simp add: vaddr_info_def)

lemma frame_of_from_info:
  assumes "cr3 m = Some c" "info_in_range i" "page_offset i = 0"
  shows "frame_of m (vaddr_from_info i) = mmu_frame (frames m) c (vaddr_from_info i)"
  using assms page_offset_aligned [of "vaddr_from_info i"]
  by (simp add: frame_of_def info_from_info)

lemma recursive_frames:
  assumes c: "cr3 m1 = Some c" and r: "r < 512" "bit (frames m1 c r) 0"
      "\<not> bit (frames m1 c r) 7" "node_child_addr (frames m1 c r) = c"
  shows "frame_of m1 (vaddr_from_info \<lparr>page_offset = 0, pt_index = r, pd_index = r,
      pdpt_index = r, pml4_index = r\<rparr>) = Some c"
    and "i4 < 512 \<Longrightarrow> bit (frames m1 c i4) 0 \<Longrightarrow>
      frame_of m1 (vaddr_from_info \<lparr>page_offset = 0, pt_index = i4, pd_index = r,
        pdpt_index = r, pml4_index = r\<rparr>) = Some (node_child_addr (frames m1 c i4))"
    and "i4 < 512 \<Longrightarrow> i3 < 512 \<Longrightarrow> bit (frames m1 c i4) 0 \<Longrightarrow> \<not> bit (frames m1 c i4) 7 \<Longrightarrow>
      f3 = node_child_addr (frames m1 c i4) \<Longrightarrow> bit (frames m1 f3 i3) 0 \<Longrightarrow>
      frame_of m1 (vaddr_from_info \<lparr>page_offset = 0, pt_index = i3, pd_index = i4,
        pdpt_index = r, pml4_index = r\<rparr>) = Some (node_child_addr (frames m1 f3 i3))"
    and "i4 < 512 \<Longrightarrow> i3 < 512 \<Longrightarrow> i2 < 512 \<Longrightarrow>
      bit (frames m1 c i4) 0 \<Longrightarrow> \<not> bit (frames m1 c i4) 7 \<Longrightarrow>
      f3 = node_child_addr (frames m1 c i4) \<Longrightarrow> bit (frames m1 f3 i3) 0 \<Longrightarrow>
      \<not> bit (frames m1 f3 i3) 7 \<Longrightarrow> f2 = node_child_addr (frames m1 f3 i3) \<Longrightarrow>
      bit (frames m1 f2 i2) 0 \<Longrightarrow>
      frame_of m1 (vaddr_from_info \<lparr>page_offset = 0, pt_index = i2, pd_index = i3,
        pdpt_index = i4, pml4_index = r\<rparr>) = Some (node_child_addr (frames m1 f2 i2))"
  using r
  by (simp_all add: frame_of_from_info [OF c] info_in_range_def mmu_frame_code Let_def
      info_from_info canonical_from_info pt_entry_addr_child)

text \<open>
  A walk of the view is a walk of the frames that starts in the active top-level table
  and stays outside it.
\<close>

lemma recursive_walk:
  assumes ok: "recursive_ok mp m" and c: "cr3 m = Some c"
    and tr: "tree (recursive_view mp m) (rm_recursion_index mp) U"
    and U: "U \<inter> recursive_prot mp m = {}"
    and i: "i4 < 512" "i4 \<noteq> rm_recursion_index mp"
    and w: "walk (recursive_view mp m) Root [i4] = Some (At f)"
  shows "bit (frames m c i4) 0 \<and> \<not> bit (frames m c i4) 7 \<and> f = node_child_addr (frames m c i4) \<and>
    f \<in> U \<and> recursive_view mp m (At f) = frames m f"
proof -
  have fU: "f \<in> U" using tree_used [OF tr _ w] i by (simp add: pathsI)
  with U c have "f \<noteq> c" by (auto simp: recursive_prot_def)
  with fU w ok c show ?thesis
    by (auto simp: walk_steps step_entry_def state_simps recursive_ok_def split: if_splits)
qed

lemma recursive_walk2:
  assumes c: "cr3 m = Some c"
    and tr: "tree (recursive_view mp m) (rm_recursion_index mp) U"
    and U: "U \<inter> recursive_prot mp m = {}"
    and i: "i4 < 512" "i4 \<noteq> rm_recursion_index mp" "i3 < 512"
    and w: "walk (recursive_view mp m) Root [i4, i3] = Some (At f)"
  shows "f \<in> U" "recursive_view mp m (At f) = frames m f"
proof -
  show fU: "f \<in> U" using tree_used [OF tr _ w] i by (simp add: pathsI)
  with U c show "recursive_view mp m (At f) = frames m f"
    by (auto simp: recursive_prot_def state_simps)
qed

lemma recursive_points:
  assumes ok: "recursive_ok mp m"
    and tr: "tree (recursive_view mp m) (rm_recursion_index mp) U"
    and U: "U \<inter> recursive_prot mp m = {}"
    and i4: "i4 < 512" "i4 \<noteq> rm_recursion_index mp"
  shows "walk (recursive_view mp m) Root [i4] = Some (At f) \<Longrightarrow>
      \<exists>ptr. recursive_pdpt mp m i4 = Ret ptr \<and> points m (U \<union> recursive_prot mp m) ptr f"
    and "i3 < 512 \<Longrightarrow> walk (recursive_view mp m) Root [i4, i3] = Some (At f) \<Longrightarrow>
      \<exists>ptr. recursive_pd mp m i4 i3 = Ret ptr \<and> points m (U \<union> recursive_prot mp m) ptr f"
    and "i3 < 512 \<Longrightarrow> i2 < 512 \<Longrightarrow> walk (recursive_view mp m) Root [i4, i3, i2] = Some (At f) \<Longrightarrow>
      \<exists>ptr. recursive_pt mp m i4 i3 i2 = Ret ptr \<and> points m (U \<union> recursive_prot mp m) ptr f"
proof -
  let ?r = "rm_recursion_index mp"
  obtain c where c: "cr3 m = Some c" using ok by (auto simp: recursive_ok_def split: option.splits)
  have r: "?r < 512" "bit (frames m c ?r) 0" "\<not> bit (frames m c ?r) 7"
    "node_child_addr (frames m c ?r) = c"
    using ok c by (auto simp: recursive_ok_def)
  note wk = recursive_walk [OF ok c tr U i4]
  have cK: "c \<in> U \<union> recursive_prot mp m" by (simp add: recursive_prot_def c)
  show "\<exists>ptr. recursive_pdpt mp m i4 = Ret ptr \<and> points m (U \<union> recursive_prot mp m) ptr f"
    if w: "walk (recursive_view mp m) Root [i4] = Some (At f)"
    using wk [OF w] cK r i4 unfolding recursive_pdpt_def points_def
    by (auto simp: c intro!: recursive_frames(2) [THEN trans])
  show "\<exists>ptr. recursive_pd mp m i4 i3 = Ret ptr \<and> points m (U \<union> recursive_prot mp m) ptr f"
    if lt: "i3 < 512" and w: "walk (recursive_view mp m) Root [i4, i3] = Some (At f)"
  proof -
    obtain g where g: "walk (recursive_view mp m) Root [i4] = Some (At g)"
      "bit (recursive_view mp m (At g) i3) 0" "\<not> bit (recursive_view mp m (At g) i3) 7"
      "f = node_child_addr (recursive_view mp m (At g) i3)"
      using walk_two [OF w] by blast
    show ?thesis
      using wk [OF g(1)] g(2-) cK r i4 lt unfolding recursive_pd_def points_def
      by (auto simp: c intro!: recursive_frames(3) [THEN trans])
  qed
  show "\<exists>ptr. recursive_pt mp m i4 i3 i2 = Ret ptr \<and> points m (U \<union> recursive_prot mp m) ptr f"
    if lt: "i3 < 512" "i2 < 512" and w: "walk (recursive_view mp m) Root [i4, i3, i2] = Some (At f)"
  proof -
    obtain h where h: "walk (recursive_view mp m) Root [i4, i3] = Some (At h)"
      "bit (recursive_view mp m (At h) i2) 0" "\<not> bit (recursive_view mp m (At h) i2) 7"
      "f = node_child_addr (recursive_view mp m (At h) i2)"
      using walk_three [OF w] by blast
    obtain g where g: "walk (recursive_view mp m) Root [i4] = Some (At g)"
      "bit (recursive_view mp m (At g) i3) 0" "\<not> bit (recursive_view mp m (At g) i3) 7"
      "h = node_child_addr (recursive_view mp m (At g) i3)"
      using walk_two [OF h(1)] by blast
    show ?thesis
      using wk [OF g(1)] g(2-) h(2-) recursive_walk2 [OF c tr U i4 lt(1) h(1)] cK r i4 lt
      unfolding recursive_pt_def points_def
      by (auto simp: c intro!: recursive_frames(4) [THEN trans])
  qed
qed

lemma recursive_pml4_points:
  assumes "recursive_ok mp m"
  shows "frame_of m (recursive_pml4_ptr mp) = cr3 m"
  using assms recursive_frames(1) [of m _ "rm_recursion_index mp"]
  by (auto simp: recursive_ok_def recursive_pml4_ptr_def split: option.splits)

interpretation recursive: mapper_laws recursive_ops recursive_ok recursive_view
  rm_recursion_index recursive_prot
proof unfold_locales
  fix mp :: recursive_mapper and v
  show "vm_reserved recursive_ops mp v \<longleftrightarrow> pml4_index (vaddr_info v) = rm_recursion_index mp"
    by (simp add: recursive_ops_def recursive_reserved_def)
next
  fix mp and m :: "'a machine" and i :: usize
  assume ok: "recursive_ok mp m" and "i < 512"
  then show "vm_pml4_get recursive_ops mp m i = Ret (recursive_view mp m Root i)"
    using recursive_pml4_points [OF ok]
    by (auto simp: recursive_ops_def recursive_pml4_get_def load_entry_def state_simps not_le
        recursive_ok_def split: option.splits)
next
  fix mp and m :: "'a machine" and i :: usize and e :: entry
  assume ok: "recursive_ok mp m" and i: "i < 512" "i \<noteq> rm_recursion_index mp" and e: "\<not> bit e 7"
  obtain c where c: "cr3 m = Some c" using ok by (auto simp: recursive_ok_def split: option.splits)
  have "store_entry m (recursive_pml4_ptr mp) i e = Ret (set_frame_entry m c i e)"
    using recursive_pml4_points [OF ok] c i by (simp add: store_entry_def not_le)
  moreover have "recursive_ok mp (set_frame_entry m c i e)"
    using ok c i e by (auto simp: recursive_ok_def state_simps)
  moreover have "recursive_view mp (set_frame_entry m c i e) = put_entry (recursive_view mp m) Root i e"
    by (auto simp: recursive_view_def put_entry_def fun_eq_iff state_simps c split: table_ref.split)
  ultimately show "\<exists>mp' m'. vm_pml4_set recursive_ops mp m i e = Ret (mp', m') \<and>
      recursive_ok mp' m' \<and> recursive_view mp' m' = put_entry (recursive_view mp m) Root i e \<and>
      rm_recursion_index mp' = rm_recursion_index mp \<and>
      recursive_prot mp' m' = recursive_prot mp m \<and> pool m' = pool m \<and> cr3 m' = cr3 m"
    by (simp add: recursive_ops_def recursive_pml4_set_def recursive_prot_def state_simps)
next
  fix mp and m :: "'a machine" and f
  assume "f \<notin> recursive_prot mp m"
  then show "recursive_view mp m (At f) = frames m f"
    by (auto simp: state_simps recursive_prot_def)
next
  fix mp and m m1 :: "'a machine" and f and g :: "usize \<Rightarrow> entry"
  assume "recursive_ok mp m" "f \<notin> recursive_prot mp m" "cr3 m1 = cr3 m"
    "frames m1 = (frames m)(f := g)"
  then show "recursive_ok mp m1 \<and> recursive_prot mp m1 = recursive_prot mp m \<and>
      recursive_view mp m1 = (recursive_view mp m)(At f := g)"
    by (auto simp: recursive_ok_def recursive_prot_def recursive_view_def fun_eq_iff
        split: table_ref.split option.splits)
next
  fix mp and m m1 :: "'a machine"
  assume "recursive_ok mp m" "cr3 m1 = cr3 m" "frames m1 = frames m"
  then show "recursive_ok mp m1 \<and> recursive_prot mp m1 = recursive_prot mp m \<and>
      recursive_view mp m1 = recursive_view mp m"
    by (auto simp: recursive_ok_def recursive_prot_def recursive_view_def intro!: ext
        split: option.splits table_ref.split)
qed (use recursive_points in \<open>simp_all add: recursive_ops_def\<close>)

section \<open>Maps as their users see them\<close>

definition builder_inv :: "('a \<Rightarrow> paddr set) \<Rightarrow> 'a virtual_map_builder \<Rightarrow> 'a machine \<Rightarrow> bool" where
  "builder_inv taken b m \<longleftrightarrow>
     map_inv local_ok local_view lm_recursion_index local_prot taken (vb_mapper b) m \<and>
     page_table_source taken (vb_new_page_table b)"

definition builder_slot :: "'a virtual_map_builder \<Rightarrow> usize" where
  "builder_slot b = lm_recursion_index (vb_mapper b)"

definition builder_translate ::
  "'a virtual_map_builder \<Rightarrow> 'a machine \<Rightarrow> vaddr \<Rightarrow> translation option" where
  "builder_translate b m = translate (local_view (vb_mapper b) m) (builder_slot b)"

text \<open>The store of tables a builder holds.\<close>

definition builder_tables :: "'a virtual_map_builder \<Rightarrow> 'a machine \<Rightarrow> store" where
  "builder_tables b m = local_view (vb_mapper b) m"

definition kernel_inv :: "('a \<Rightarrow> paddr set) \<Rightarrow> recursive_mapper \<Rightarrow> 'a machine \<Rightarrow> bool" where
  "kernel_inv = map_inv recursive_ok recursive_view rm_recursion_index recursive_prot"

definition kernel_translate :: "recursive_mapper \<Rightarrow> 'a machine \<Rightarrow> vaddr \<Rightarrow> translation option" where
  "kernel_translate mp m = translate (recursive_view mp m) (rm_recursion_index mp)"

text \<open>
  A source that hands out frames in order, to run the model on: the pool is the number of
  the next frame.
\<close>

definition counting_source :: "usize table_source" where
  "counting_source m =
     (if pool m < 0x10000000000
      then (Some (push_bit 12 (pool m)),
            m\<lparr> frames := (frames m)(push_bit 12 (pool m) := (\<lambda>_. 0)), pool := pool m + 1 \<rparr>)
      else (None, m))"

definition counted :: "usize \<Rightarrow> paddr set" where
  "counted n = {f. \<exists>k. k < n \<and> k < 0x10000000000 \<and> f = push_bit 12 k}"

lemma less_2_40_bits: "(x :: usize) < 0x10000000000 \<longleftrightarrow> (\<forall>n. bit x n \<longrightarrow> n < 40)"
proof -
  have *: "(0x10000000000 :: usize) = 2 ^ 40" by simp
  have "x < 2 ^ 40 \<longleftrightarrow> x AND mask 40 = x"
    using less_mask_eq [of x 40] and_mask_less' [of 40 x] by auto
  then show ?thesis
    unfolding * by (auto simp: word_eq_bits bit_and_iff bit_mask_iff)
qed

lemma push_bit_12_inj:
  assumes "(x :: usize) < 0x10000000000" "y < 0x10000000000" "push_bit 12 x = push_bit 12 y"
  shows "x = y"
proof (rule bit_word_eqI)
  fix n assume "n < LENGTH(64)"
  show "bit x n = bit y n"
  proof (cases "n < 40")
    case True
    have "bit (push_bit 12 x) (n + 12) = bit (push_bit 12 y) (n + 12)" using assms(3) by simp
    with True show ?thesis by (simp add: bit_push_bit_iff)
  next
    case False
    then show ?thesis using assms(1,2) by (auto simp: less_2_40_bits)
  qed
qed

lemma counting_source_ok: "page_table_source counted counting_source"
proof -
  have "page_frame (push_bit 12 n)" if "n < 0x10000000000" for n :: usize
    using that by (auto simp: page_frame_bits less_2_40_bits bit_push_bit_iff)
  moreover have "push_bit 12 n \<notin> counted n" if "n < 0x10000000000" for n
    using that push_bit_12_inj by (auto simp: counted_def)
  moreover have "counted (n + 1) = insert (push_bit 12 n) (counted n)" if "n < 0x10000000000" for n
  proof -
    have "unat (n + 1) = unat n + 1" using that by (simp add: word_less_nat_alt unat_word_ariths)
    then have "k < n + 1 \<longleftrightarrow> k < n \<or> k = n" for k
      by (auto simp: word_less_nat_alt less_Suc_eq simp flip: word_unat_eq_iff)
    with that show ?thesis by (auto simp: counted_def)
  qed
  ultimately show ?thesis
    by (simp add: page_table_source_def counting_source_def)
qed

end
