(* ===== verification/Map_Properties.thy ===== *)
theory Map_Properties
  imports Map_Correct
begin

text \<open>
  The properties of the virtual memory map: \<open>VirtualMap::map\<close> over both mappers,
  the hand-over from the builder to the kernel, and what the memory management unit makes
  of the result.
\<close>

section \<open>Mapping a page\<close>

lemma local_view_eq: "translate (local_view (vb_mapper b) m) (lm_recursion_index (vb_mapper b)) =
    builder_translate b m"
  by (simp add: builder_translate_def builder_slot_def)

lemma builder_map_spec:
  assumes "builder_inv taken b m"
  shows "\<exists>res b' m'. builder_map b p v flags m = Ret (res, b', m') \<and>
    builder_inv taken b' m' \<and> builder_slot b' = builder_slot b \<and>
    (case res of
       Inl e \<Rightarrow>
         (\<forall>u. builder_translate b' m' u = builder_translate b m u) \<and>
         error_justified (vb_new_page_table b) (builder_slot b) p v (builder_translate b m v) m
           (builder_tables b' m') m' e
     | Inr _ \<Rightarrow>
         builder_translate b m v = None \<and> pml4_index (vaddr_info v) \<noteq> builder_slot b \<and>
         (\<forall>u. builder_translate b' m' u =
            (if same_page u v then Some (Page (page_entry_for flags p))
             else builder_translate b m u)))"
proof -
  from assms obtain res mp' m' where
    "virtual_map local_ops (vb_new_page_table b) p v flags (vb_mapper b) m = Ret (res, mp', m')"
    "map_inv local_ok local_view lm_recursion_index local_prot taken mp' m'"
    "lm_recursion_index mp' = lm_recursion_index (vb_mapper b)"
    "case res of
       Inl e \<Rightarrow>
         (\<forall>u. translate (local_view mp' m') (builder_slot b) u = builder_translate b m u) \<and>
         error_justified (vb_new_page_table b) (builder_slot b) p v (builder_translate b m v) m
           (local_view mp' m') m' e
     | Inr _ \<Rightarrow>
         builder_translate b m v = None \<and> pml4_index (vaddr_info v) \<noteq> builder_slot b \<and>
         (\<forall>u. translate (local_view mp' m') (builder_slot b) u =
            (if same_page u v then Some (Page (page_entry_for flags p))
             else builder_translate b m u))"
    using local.map_correct [of taken "vb_mapper b" m "vb_new_page_table b" p v flags]
    unfolding builder_inv_def builder_translate_def builder_slot_def by blast
  moreover from this have "builder_translate (b\<lparr>vb_mapper := mp'\<rparr>) m' =
      translate (local_view mp' m') (builder_slot b)"
    "builder_slot (b\<lparr>vb_mapper := mp'\<rparr>) = builder_slot b"
    by (simp_all add: builder_translate_def builder_slot_def)
  ultimately show ?thesis
    using assms by (cases res) (simp_all add: builder_map_def builder_inv_def builder_tables_def)
qed

text \<open>
  C1: On a well-formed builder, mapping a page always returns, keeps the builder well-formed,
  and does what its result says. \<open>Ok\<close>: the page was not mapped before, its translation is
  now the requested frame with the requested flags, and every other page keeps its
  translation. \<open>Err\<close>: no translation changed and the error is the right one - the slot
  reserved for recursion, an existing mapping (with its true address), or no page table: then a
  table on the path of the address is still missing and the call ended when the source, in the
  state that its own earlier answers brought about, refused to hand one out.
\<close>

theorem builder_map_correct:
  assumes "builder_inv taken b m"
  shows "\<exists>res b' m'. builder_map b p v flags m = Ret (res, b', m') \<and>
    builder_inv taken b' m' \<and> builder_slot b' = builder_slot b \<and>
    (case res of
       Inl e \<Rightarrow>
         (\<forall>u. builder_translate b' m' u = builder_translate b m u) \<and>
         error_justified (vb_new_page_table b) (builder_slot b) p v (builder_translate b m v) m
           (builder_tables b' m') m' e
     | Inr _ \<Rightarrow>
         builder_translate b m v = None \<and> pml4_index (vaddr_info v) \<noteq> builder_slot b \<and>
         (\<forall>u. builder_translate b' m' u =
            (if same_page u v then Some (Page (page_entry_for flags p))
             else builder_translate b m u)))"
  by (rule builder_map_spec [OF assms])

lemma kernel_map_spec:
  assumes "kernel_inv taken mp m" and "page_table_source taken np"
  shows "\<exists>res mp' m'. virtual_map recursive_ops np p v flags mp m = Ret (res, mp', m') \<and>
    kernel_inv taken mp' m' \<and> rm_recursion_index mp' = rm_recursion_index mp \<and>
    cr3 m' = cr3 m \<and>
    (case res of
       Inl e \<Rightarrow>
         (\<forall>u. kernel_translate mp' m' u = kernel_translate mp m u) \<and>
         error_justified np (rm_recursion_index mp) p v (kernel_translate mp m v) m
           (recursive_view mp' m') m' e
     | Inr _ \<Rightarrow>
         kernel_translate mp m v = None \<and> pml4_index (vaddr_info v) \<noteq> rm_recursion_index mp \<and>
         (\<forall>u. kernel_translate mp' m' u =
            (if same_page u v then Some (Page (page_entry_for flags p))
             else kernel_translate mp m u)))"
proof -
  from recursive.map_correct [OF assms(1) [unfolded kernel_inv_def] assms(2), of p v flags]
  obtain res mp' m' where r: "virtual_map recursive_ops np p v flags mp m = Ret (res, mp', m')"
    "kernel_inv taken mp' m'" "rm_recursion_index mp' = rm_recursion_index mp" "cr3 m' = cr3 m"
    and c: "case res of
       Inl e \<Rightarrow>
         (\<forall>u. translate (recursive_view mp' m') (rm_recursion_index mp) u =
            translate (recursive_view mp m) (rm_recursion_index mp) u) \<and>
         error_justified np (rm_recursion_index mp) p v
           (translate (recursive_view mp m) (rm_recursion_index mp) v) m
           (recursive_view mp' m') m' e
     | Inr _ \<Rightarrow>
         translate (recursive_view mp m) (rm_recursion_index mp) v = None \<and>
         pml4_index (vaddr_info v) \<noteq> rm_recursion_index mp \<and>
         (\<forall>u. translate (recursive_view mp' m') (rm_recursion_index mp) u =
            (if same_page u v then Some (Page (page_entry_for flags p))
             else translate (recursive_view mp m) (rm_recursion_index mp) u))"
    unfolding kernel_inv_def by blast
  have "kernel_translate mp' m' = translate (recursive_view mp' m') (rm_recursion_index mp)"
    using r(3) by (simp add: kernel_translate_def)
  with r c show ?thesis
    by (cases res) (simp_all add: kernel_translate_def)
qed

text \<open>
  C2: The same for the kernel's map over the recursive mapper, whose accesses to the tables
  all go through the memory management unit and the tables themselves.
\<close>

theorem kernel_map_correct:
  assumes "kernel_inv taken mp m" and "page_table_source taken np"
  shows "\<exists>res mp' m'. virtual_map recursive_ops np p v flags mp m = Ret (res, mp', m') \<and>
    kernel_inv taken mp' m' \<and> rm_recursion_index mp' = rm_recursion_index mp \<and>
    (case res of
       Inl e \<Rightarrow>
         (\<forall>u. kernel_translate mp' m' u = kernel_translate mp m u) \<and>
         error_justified np (rm_recursion_index mp) p v (kernel_translate mp m v) m
           (recursive_view mp' m') m' e
     | Inr _ \<Rightarrow>
         kernel_translate mp m v = None \<and> pml4_index (vaddr_info v) \<noteq> rm_recursion_index mp \<and>
         (\<forall>u. kernel_translate mp' m' u =
            (if same_page u v then Some (Page (page_entry_for flags p))
             else kernel_translate mp m u)))"
  using kernel_map_spec [OF assms, of p v flags] by blast

section \<open>The builder from start to finish\<close>

lemma translate_empty: "(\<And>i. S Root i = 0) \<Longrightarrow> translate S r v = None"
  by (simp add: translate_def Let_def lookup_path_def walk_steps step_entry_def)

lemma walk_empty:
  assumes "\<And>i. S Root i = 0" and "walk S Root p = Some t"
  shows "p = []"
proof (cases p)
  case (Cons i q)
  then show ?thesis
    using assms walk_append [of S Root "[i]" q] by (simp add: walk_steps step_entry_def)
qed

lemma builder_new_inv:
  assumes "cr3 m = None" "\<And>f. page_frame f \<Longrightarrow> ptr f = f" "page_table_source taken np"
  shows "builder_inv taken (builder_new r np ptr) m"
    "builder_translate (builder_new r np ptr) m v = None"
proof -
  let ?S = "local_view (vb_mapper (builder_new r np ptr)) m"
  have e: "?S Root i = 0" for i by (simp add: builder_new_def state_simps)
  then show "builder_translate (builder_new r np ptr) m v = None"
    unfolding builder_translate_def by (rule translate_empty)
  have w: "p = []" if "walk ?S Root p = Some t" for p t
    by (rule walk_empty [OF _ that]) (rule e)
  have "tree ?S r U" for U
    unfolding tree_def
  proof (intro conjI ballI allI impI)
    show "p = q" if "walk ?S Root p = Some t" "walk ?S Root q = Some t" for p q t
      using w [OF that(1)] w [OF that(2)] by simp
    show "f \<in> U" if t: "walk ?S Root p = Some (At f)" for p f
      using w [OF t] t by simp
  qed
  then show "builder_inv taken (builder_new r np ptr) m"
    using assms
    by (simp add: builder_inv_def map_inv_def local_ok_def local_prot_def builder_new_def)
qed

text \<open>Two stores that agree on the paths of one tree and on the entries of its tables.\<close>

lemma walk_same_store:
  assumes tr: "tree S r U" and root: "\<And>i. i \<noteq> r \<Longrightarrow> S' Root i = S Root i"
    and nodes: "\<And>f. f \<in> U \<Longrightarrow> S' (At f) = S (At f)" and p: "p \<in> paths r"
  shows "walk S' Root p = walk S Root p"
  using p
proof (induction p rule: rev_induct)
  case Nil
  then show ?case by simp
next
  case (snoc i p)
  then have p: "p \<in> paths r" by (blast dest: paths_snocD)
  have "step_entry S' t i = step_entry S t i" if t: "walk S Root p = Some t" for t
  proof (cases t)
    case Root
    then have "p = []" using walk_At t by blast
    then have "i \<noteq> r" using snoc.prems by (simp add: paths_def)
    then show ?thesis using root Root by (simp add: step_entry_def)
  next
    case (At f)
    then show ?thesis using tree_used [OF tr p] t nodes by (simp add: step_entry_def)
  qed
  with snoc.IH [OF p] show ?case by (simp add: walk_snoc split: option.split)
qed

lemma tree_same_store:
  assumes "tree S r U" "\<And>i. i \<noteq> r \<Longrightarrow> S' Root i = S Root i" "\<And>f. f \<in> U \<Longrightarrow> S' (At f) = S (At f)"
  shows "tree S' r U"
  using assms(1) walk_same_store [OF assms] by (auto simp: tree_def)

lemma translate_same_store:
  assumes tr: "tree S r U" and root: "\<And>i. i \<noteq> r \<Longrightarrow> S' Root i = S Root i"
    and nodes: "\<And>f. f \<in> U \<Longrightarrow> S' (At f) = S (At f)"
  shows "translate S' r v = translate S r v"
proof (cases "pml4_index (vaddr_info v) = r")
  case True
  then show ?thesis by (simp add: translate_def Let_def)
next
  case False
  note ws = walk_same_store [OF assms]
  have "lookup_path S' i4 i3 i2 i1 = lookup_path S i4 i3 i2 i1"
    if idx: "i4 < 512" "i4 \<noteq> r" "i3 < 512" "i2 < 512" for i4 i3 i2 i1
  proof -
    note p = pathsI(1) [OF idx(1,2)] pathsI(2) [OF idx(1,2,3)] pathsI(3) [OF idx]
    have same: "S' t = S t" if "q \<in> paths r" "q \<noteq> []" "walk S Root q = Some t" for q t
      using walk_At [OF that(3,2)] tree_used [OF tr that(1)] that(3) nodes by auto
    show ?thesis
      by (rule lookup_path_cong) (use same [OF p(1)] same [OF p(2)] same [OF p(3)] ws p in auto)
  qed
  with False show ?thesis by (simp add: translate_def Let_def)
qed

lemma not_bit_7_link: "\<not> bit (link_entry f) 7"
  by simp

lemma builder_finish_spec:
  assumes inv: "builder_inv taken b m" and r: "builder_slot b < 512"
  shows "\<exists>res m'. builder_finish b m = Ret (res, m') \<and>
    (case res of
       Inl e \<Rightarrow> e = PageTable \<and> vb_new_page_table b m = (None, m')
     | Inr (c, mp) \<Rightarrow>
         fst (vb_new_page_table b m) = Some c \<and> kernel_inv taken mp (m'\<lparr> cr3 := Some c \<rparr>) \<and> rm_recursion_index mp = builder_slot b \<and>
         (\<forall>v. kernel_translate mp (m'\<lparr> cr3 := Some c \<rparr>) v = builder_translate b m v))"
proof -
  let ?mp = "vb_mapper b" and ?r = "builder_slot b" and ?np = "vb_new_page_table b"
  let ?S = "local_view ?mp m"
  have src: "page_table_source taken ?np" and ok: "local_ok ?mp m"
    and tr: "tree ?S ?r (taken (pool m))"
    using inv by (simp_all add: builder_inv_def map_inv_def local_prot_def builder_slot_def)
  have free: "\<not> bit (lm_table ?mp ?r) 0" using ok by (auto simp: local_ok_def builder_slot_def)
  obtain o1 m1 where np0: "?np m = (o1, m1)" by (cases "?np m")
  show ?thesis
  proof (cases o1)
    case None
    then show ?thesis using np0 by (simp add: builder_finish_def Let_def)
  next
    case (Some c)
    with np0 have np: "?np m = (Some c, m1)" by simp
    note facts = page_table_source_Some [OF src np]
    let ?tab = "(lm_table ?mp)(?r := link_entry c)"
    let ?m2 = "m1\<lparr> frames := (frames m1)(c := ?tab) \<rparr>"
    let ?rm = "\<lparr> rm_recursion_index = ?r \<rparr>"
    have "cr3 m1 = None" using facts ok by (simp add: local_ok_def)
    then have "store_table m1 (lm_page_table_ptr ?mp c) ?tab = Ret ?m2"
      using facts ok by (simp add: store_table_def local_ok_def frame_of_identity)
    then have fin: "builder_finish b m = Ret (Inr (c, ?rm), ?m2)"
      using np r free by (simp add: builder_finish_def Let_def entry_bits builder_slot_def not_le)
    let ?m3 = "?m2\<lparr> cr3 := Some c \<rparr>" and ?T = "recursive_view ?rm (?m2\<lparr> cr3 := Some c \<rparr>)"
    have root: "?T Root i = ?S Root i" if "i \<noteq> ?r" for i
      using that by (simp add: state_simps)
    have nodes: "?T (At f) = ?S (At f)" if "f \<in> taken (pool m)" for f
      using that facts by (auto simp: state_simps)
    have "tree ?T ?r (taken (pool m))" by (rule tree_same_store [OF tr root nodes])
    moreover have "recursive_ok ?rm ?m3"
      using r ok facts by (simp add: recursive_ok_def node.addr_roundtrip local_ok_def)
    ultimately have "kernel_inv taken ?rm ?m3"
      using facts
      by (auto simp: kernel_inv_def map_inv_def recursive_prot_def elim!: tree_mono)
    moreover have "kernel_translate ?rm ?m3 v = builder_translate b m v" for v
      unfolding kernel_translate_def builder_translate_def
      by (simp only: recursive_mapper.simps) (rule translate_same_store [OF tr root nodes])
    ultimately show ?thesis using fin np by simp
  qed
qed

text \<open>
  C4: Finishing a builder whose recursion slot is in range returns. It fails exactly when the
  source, asked once, has no frame for the top-level table; otherwise that frame is returned and
  the tables it leaves behind are a well-formed kernel map once
  the returned frame is made the active top-level table, with the translations the builder
  had.
\<close>

theorem builder_finish_hands_over:
  assumes inv: "builder_inv taken b m" and r: "builder_slot b < 512"
  shows "\<exists>res m'. builder_finish b m = Ret (res, m') \<and>
    (case res of
       Inl e \<Rightarrow> e = PageTable \<and> vb_new_page_table b m = (None, m')
     | Inr (c, mp) \<Rightarrow>
         fst (vb_new_page_table b m) = Some c \<and> kernel_inv taken mp (m'\<lparr> cr3 := Some c \<rparr>) \<and> rm_recursion_index mp = builder_slot b \<and>
         (\<forall>v. kernel_translate mp (m'\<lparr> cr3 := Some c \<rparr>) v = builder_translate b m v))"
  by (rule builder_finish_spec [OF assms])

section \<open>What the memory management unit makes of a map\<close>

fun mapped_frame :: "vaddr \<Rightarrow> translation \<Rightarrow> paddr" where
  "mapped_frame v (Page e) = pt_entry_addr e"
| "mapped_frame v (Large2M e) = pd_leaf_addr e OR push_bit 12 (pt_index (vaddr_info v))"
| "mapped_frame v (Large1G e) =
     pdpt_leaf_addr e OR push_bit 21 (pd_index (vaddr_info v))
       OR push_bit 12 (pt_index (vaddr_info v))"

lemma mmu_frame_view:
  assumes inv: "kernel_inv taken mp m" and c: "cr3 m = Some c" and v: "canonical v"
    and ne: "pml4_index (vaddr_info v) \<noteq> rm_recursion_index mp"
  shows "mmu_frame (frames m) c v = map_option (mapped_frame v) (kernel_translate mp m v)"
proof -
  let ?S = "recursive_view mp m" and ?U = "taken (pool m) - recursive_prot mp m"
  let ?i = "vaddr_info v"
  have ok: "recursive_ok mp m" and tr: "tree ?S (rm_recursion_index mp) ?U"
    using inv by (simp_all add: kernel_inv_def map_inv_def)
  have dj: "?U \<inter> recursive_prot mp m = {}" by auto
  have lt: "pml4_index ?i < 512" "pdpt_index ?i < 512" "pd_index ?i < 512" by simp_all
  let ?e4 = "frames m c (pml4_index ?i)"
  have root: "?S Root = frames m c" using c by (simp add: state_simps)
  show ?thesis
  proof (cases "bit ?e4 0")
    case False
    then have "walk ?S Root [pml4_index ?i] = None" by (simp add: walk_steps step_entry_def root)
    from translate_cases(1) [OF refl ne this] False show ?thesis
      by (simp add: kernel_translate_def mmu_frame_code Let_def)
  next
    case p4: True
    let ?f3 = "node_child_addr ?e4" and ?e3 = "frames m (node_child_addr ?e4) (pdpt_index ?i)"
    have w3: "walk ?S Root [pml4_index ?i] = Some (At ?f3)"
      using p4 by (simp add: walk_steps step_entry_def root)
    from recursive_walk [OF ok c tr dj lt(1) ne w3]
    have f3: "?S (At ?f3) = frames m ?f3" "\<not> bit ?e4 7" by simp_all
    consider "\<not> bit ?e3 0" | "bit ?e3 0" "bit ?e3 7" | "bit ?e3 0" "\<not> bit ?e3 7" by blast
    then show ?thesis
    proof cases
      case 1
      with translate_cases(2) [OF refl ne w3] p4 f3 show ?thesis
        by (simp add: kernel_translate_def mmu_frame_code Let_def)
    next
      case 2
      with translate_cases(3) [OF refl ne w3] p4 f3 v show ?thesis
        by (simp add: kernel_translate_def mmu_frame_code Let_def is_leaf_def)
    next
      case p3: 3
      let ?f2 = "node_child_addr ?e3" and ?e2 = "frames m (node_child_addr ?e3) (pd_index ?i)"
      have w2: "walk ?S Root [pml4_index ?i, pdpt_index ?i] = Some (At ?f2)"
        using p3 w3 by (simp add: walk_steps(2) step_entry_def f3)
      from recursive_walk2 [OF c tr dj lt(1) ne lt(2) w2]
      have f2: "?S (At ?f2) = frames m ?f2" by simp
      consider "\<not> bit ?e2 0" | "bit ?e2 0" "bit ?e2 7" | "bit ?e2 0" "\<not> bit ?e2 7" by blast
      then show ?thesis
      proof cases
        case 1
        with translate_cases(4) [OF refl ne w2] p4 p3 f3 f2 show ?thesis
          by (simp add: kernel_translate_def mmu_frame_code Let_def)
      next
        case 2
        with translate_cases(5) [OF refl ne w2] p4 p3 f3 f2 v show ?thesis
          by (simp add: kernel_translate_def mmu_frame_code Let_def is_leaf_def)
      next
        case p2: 3
        let ?f1 = "node_child_addr ?e2"
        have w1: "walk ?S Root [pml4_index ?i, pdpt_index ?i, pd_index ?i] = Some (At ?f1)"
          using p2 w2 by (simp add: walk_steps(3) step_entry_def f2)
        have "?f1 \<in> ?U" using tree_used [OF tr pathsI(3) [OF lt(1) ne lt(2,3)] w1] .
        then have f1: "?S (At ?f1) = frames m ?f1"
          using c by (auto simp: recursive_prot_def state_simps)
        from translate_cases(6) [OF refl ne w1] p4 p3 p2 f3 f1 v show ?thesis
          by (simp add: kernel_translate_def mmu_frame_code Let_def)
      qed
    qed
  qed
qed

lemma page_entry_addr: "pt_entry_addr (page_entry_for flags p) = p AND NODE_ADDRESS_MASK"
  by (auto simp: word_eq_bits pt_entry_addr_def page_entry_for_def bit_and_iff bit_or_iff entry_bits)

lemma existing_addr_mapped_frame:
  "existing_addr t \<in> {mapped_frame v t, mapped_frame v t AND NOT 0x1fffff,
     mapped_frame v t AND NOT 0x3fffffff}"
proof (cases t)
  case (Large2M e)
  have m: "(0x1fffff :: usize) = mask 21" by (simp add: mask_eq_exp_minus_1)
  have "mapped_frame v t AND NOT 0x1fffff = existing_addr t"
    unfolding m
    by (auto simp: Large2M word_eq_bits bit_and_iff bit_or_iff bit_not_iff bit_push_bit_iff bit_mask_iff
        pd_leaf_addr_def vaddr_info_def mask_9 entry_bits)
  then show ?thesis by simp
next
  case (Large1G e)
  have m: "(0x3fffffff :: usize) = mask 30" by (simp add: mask_eq_exp_minus_1)
  have "mapped_frame v t AND NOT 0x3fffffff = existing_addr t"
    unfolding m
    by (auto simp: Large1G word_eq_bits bit_and_iff bit_or_iff bit_not_iff bit_push_bit_iff bit_mask_iff
        pdpt_leaf_addr_def vaddr_info_def mask_9 entry_bits)
  then show ?thesis by simp
qed simp

lemma mapped_frame_same_page: "same_page u v \<Longrightarrow> mapped_frame u t = mapped_frame v t"
  by (cases t) (simp_all add: same_page_def)

lemma kernel_translate_same_page: "same_page u v \<Longrightarrow> kernel_translate mp m u = kernel_translate mp m v"
  by (simp add: kernel_translate_def translate_def same_page_def Let_def)

text \<open>
  C7: What the processor sees of a call of the kernel's map while it is active, on the walk that
  the manuals define. The active top-level table stays. After \<open>Ok\<close> the processor finds the page
  of the address at the requested frame; every other address, and every address after an error,
  leads where it led before, a fault included. When the page was already mapped, the processor
  did translate it, and the address in the error is the one it found, rounded down to the page,
  2 MByte or 1 GByte it is part of.
\<close>

theorem mmu_translates_kernel_map:
  assumes "kernel_inv taken mp m" and "page_table_source taken np" and "cr3 m = Some c"
    and "canonical u" and "hw_index 39 u \<noteq> rm_recursion_index mp"
  shows "\<exists>res mp' m'. virtual_map recursive_ops np p v flags mp m = Ret (res, mp', m') \<and>
    cr3 m' = Some c \<and>
    mmu_frame (frames m') c u =
      (if res = Inr () \<and> same_page u v then Some (p AND 0x000ffffffffff000)
       else mmu_frame (frames m) c u) \<and>
    (\<forall>p' v' a. res = Inl (AlreadyMapped p' v' a) \<longrightarrow> same_page u v \<longrightarrow>
       (\<exists>f. mmu_frame (frames m) c u = Some f \<and>
          a \<in> {f, f AND NOT 0x1fffff, f AND NOT 0x3fffffff}))"
proof -
  from kernel_map_spec [OF assms(1,2), of p v flags] assms(3)
  obtain res mp' m' where r: "virtual_map recursive_ops np p v flags mp m = Ret (res, mp', m')"
    "kernel_inv taken mp' m'" "rm_recursion_index mp' = rm_recursion_index mp" "cr3 m' = Some c"
    and c: "case res of
       Inl e \<Rightarrow>
         (\<forall>u. kernel_translate mp' m' u = kernel_translate mp m u) \<and>
         error_justified np (rm_recursion_index mp) p v (kernel_translate mp m v) m
           (recursive_view mp' m') m' e
     | Inr _ \<Rightarrow>
         kernel_translate mp m v = None \<and> pml4_index (vaddr_info v) \<noteq> rm_recursion_index mp \<and>
         (\<forall>u. kernel_translate mp' m' u =
            (if same_page u v then Some (Page (page_entry_for flags p))
             else kernel_translate mp m u))"
    by auto
  have ne: "pml4_index (vaddr_info u) \<noteq> rm_recursion_index mp" using assms(5) by (simp add: hw_index_info)
  note before = mmu_frame_view [OF assms(1,3,4) ne]
  note after = mmu_frame_view [OF r(2,4) assms(4) ne [folded r(3)]]
  show ?thesis
  proof (cases res)
    case (Inl e)
    have "\<exists>f. mmu_frame (frames m) c u = Some f \<and> a \<in> {f, f AND NOT 0x1fffff, f AND NOT 0x3fffffff}"
      if e: "e = AlreadyMapped p' v' a" and s: "same_page u v" for p' v' a
    proof -
      from c Inl e obtain t where t: "kernel_translate mp m v = Some t" "a = existing_addr t" by auto
      then have "mmu_frame (frames m) c u = Some (mapped_frame u t)"
        using before kernel_translate_same_page [OF s, of mp m] by simp
      with t(2) existing_addr_mapped_frame [of t u] show ?thesis by blast
    qed
    with r(1,4) c Inl before after show ?thesis by auto
  next
    case (Inr x)
    with r(1,4) c before after show ?thesis
      by (simp add: page_entry_addr hw_address_masks)
  qed
qed

section \<open>Privilege\<close>

text \<open>
  Whether the memory management unit lets user-mode code access the address: every entry
  on the way must have the user bit.
\<close>

definition mmu_user :: "(paddr \<Rightarrow> usize \<Rightarrow> entry) \<Rightarrow> paddr \<Rightarrow> vaddr \<Rightarrow> bool" where
  "mmu_user fr c v =
     (let e4 = fr c (hw_index 39 v);
          e3 = fr (hw_frame e4) (hw_index 30 v);
          e2 = fr (hw_frame e3) (hw_index 21 v);
          e1 = fr (hw_frame e2) (hw_index 12 v)
      in mmu_frame fr c v \<noteq> None \<and> bit e4 2 \<and> bit e3 2 \<and>
         (bit e3 7 \<or> bit e2 2 \<and> (bit e2 7 \<or> bit e1 2)))"

text \<open>
  A sequence of mappings, the way the bootloader makes them: the first error panics.
\<close>

fun builder_maps ::
  "'a virtual_map_builder \<Rightarrow> (paddr \<times> vaddr \<times> vflags) list \<Rightarrow> 'a machine \<Rightarrow>
   ('a virtual_map_builder \<times> 'a machine) exec" where
  "builder_maps b [] m = Ret (b, m)"
| "builder_maps b ((p, v, flags) # rs) m =
     bind_exec (builder_map b p v flags m) (\<lambda>(res, b', m').
       case res of Inl _ \<Rightarrow> Panic ''Couldn't map'' | Inr _ \<Rightarrow> builder_maps b' rs m')"

lemma level_keeps_mapper:
  "map_pdpt_level ops np p v i4 i3 mp m = Ret (res, mp', m') \<Longrightarrow> mp' = mp"
  "map_pd_level ops np p v i4 i3 i2 mp m = Ret (res, mp', m') \<Longrightarrow> mp' = mp"
  "map_pt_level ops p v flags i4 i3 i2 i1 mp m = Ret (res, mp', m') \<Longrightarrow> mp' = mp"
  by (auto simp: map_pdpt_level_def map_pd_level_def map_pt_level_def exec_simps
      split: if_splits option.splits prod.splits union_entry.splits)

lemma pml4_level_table:
  "map_pml4_level local_ops np i mp m = Ret (res, mp', m') \<Longrightarrow>
   mp' = mp \<or> (\<exists>f. mp' = mp\<lparr> lm_table := (lm_table mp)(i := link_entry f) \<rparr>)"
  by (auto simp: map_pml4_level_def exec_simps local_ops_def local_pml4_set_def
      split: if_splits option.splits prod.splits)

lemma and_then_Ret:
  "and_then r k = Ret (res, mp', m') \<Longrightarrow>
   (\<exists>e. r = Ret (Inl e, mp', m')) \<or> (\<exists>mp1 m1. r = Ret (Inr (), mp1, m1) \<and> k mp1 m1 = Ret (res, mp', m'))"
  by (auto simp: and_then_def exec_simps split: prod.splits sum.splits)
    (metis sum.exhaust old.unit.exhaust)

lemma virtual_map_table:
  assumes "virtual_map local_ops np p v flags mp m = Ret (res, mp', m')"
  shows "mp' = mp \<or> (\<exists>i f. mp' = mp\<lparr> lm_table := (lm_table mp)(i := link_entry f) \<rparr>)"
  using assms unfolding virtual_map_def Let_def
  by (auto split: if_splits dest!: and_then_Ret level_keeps_mapper pml4_level_table)

definition supervisor_only :: "'a virtual_map_builder \<Rightarrow> bool" where
  "supervisor_only b \<longleftrightarrow> (\<forall>i. \<not> bit (lm_table (vb_mapper b) i) 2)"

lemma link_entry_supervisor: "\<not> bit (link_entry f) 2"
  by (simp add: entry_bits)

lemma builder_map_supervisor:
  "builder_map b p v flags m = Ret (res, b', m') \<Longrightarrow> supervisor_only b \<Longrightarrow> supervisor_only b'"
  by (auto simp: builder_map_def exec_simps supervisor_only_def link_entry_supervisor
      split: prod.splits if_splits dest!: virtual_map_table)

lemma builder_maps_Cons:
  "builder_maps b ((p, v, flags) # rs) m = Ret x \<longleftrightarrow>
   (\<exists>b1 m1. builder_map b p v flags m = Ret (Inr (), b1, m1) \<and> builder_maps b1 rs m1 = Ret x)"
proof (cases "builder_map b p v flags m")
  case (Ret y)
  obtain res b1 m1 where "y = (res, b1, m1)" by (cases y)
  with Ret show ?thesis by (cases res) simp_all
qed simp_all

lemma builder_maps_supervisor:
  "builder_maps b rs m = Ret (b', m') \<Longrightarrow> supervisor_only b \<Longrightarrow> supervisor_only b'"
proof (induction rs arbitrary: b m)
  case (Cons r rs)
  obtain p v flags where r: "r = (p, v, flags)" by (cases r)
  from Cons.prems(1) show ?case
    unfolding r builder_maps_Cons
    using Cons.IH builder_map_supervisor [OF _ Cons.prems(2)] by blast
qed simp

lemma builder_maps_inv:
  "builder_maps b rs m = Ret (b', m') \<Longrightarrow> builder_inv taken b m \<Longrightarrow>
   builder_inv taken b' m' \<and> builder_slot b' = builder_slot b"
proof (induction rs arbitrary: b m)
  case (Cons r rs)
  obtain p v flags where r: "r = (p, v, flags)" by (cases r)
  from Cons.prems(1) obtain b1 m1 where s: "builder_map b p v flags m = Ret (Inr (), b1, m1)"
    "builder_maps b1 rs m1 = Ret (b', m')"
    unfolding r builder_maps_Cons by blast
  with builder_map_spec [OF Cons.prems(2), of p v flags]
  have "builder_inv taken b1 m1" "builder_slot b1 = builder_slot b" by auto
  with Cons.IH [OF s(2)] show ?case by simp
qed simp

text \<open>
  C10: No address of a map that the builder made is accessible in user mode, whatever flags it
  was mapped with: the entries that link the page tables carry the writable flag alone, so
  the user flag of the page entry never takes effect.
\<close>

theorem user_flag_has_no_effect:
  assumes "builder_inv taken b m" and "supervisor_only b"
    and "builder_maps b rs m = Ret (b1, m1)"
    and "builder_finish b1 m1 = Ret (Inr (c, mp), m2)"
  shows "\<not> mmu_user (frames m2) c v"
proof -
  have inv: "builder_inv taken b1 m1" and sup: "supervisor_only b1"
    using builder_maps_inv [OF assms(3,1)] builder_maps_supervisor [OF assms(3,2)] by simp_all
  obtain o1 m0 where np: "vb_new_page_table b1 m1 = (o1, m0)" by (cases "vb_new_page_table b1 m1")
  have src: "page_table_source taken (vb_new_page_table b1)" and ok: "local_ok (vb_mapper b1) m1"
    using inv by (simp_all add: builder_inv_def map_inv_def)
  from assms(4) np have o1: "o1 = Some c"
    by (auto simp: builder_finish_def Let_def exec_simps split: option.splits if_splits)
  note facts = page_table_source_Some [OF src np [unfolded o1]]
  have "frame_of m0 (lm_page_table_ptr (vb_mapper b1) c) = Some c"
    using ok facts by (simp add: local_ok_def frame_of_identity)
  with assms(4) np o1 have "frames m2 c =
      (lm_table (vb_mapper b1))(lm_recursion_index (vb_mapper b1) := link_entry c)"
    by (auto simp: builder_finish_def Let_def exec_simps store_table_def split: if_splits)
  then have "\<not> bit (frames m2 c i) 2" for i
    using sup link_entry_supervisor by (simp add: supervisor_only_def)
  then show ?thesis by (simp add: mmu_user_def Let_def)
qed

section \<open>From the builder to the memory management unit\<close>

text \<open>
  C3: A page frame mapped by the builder is where the memory management unit finds the
  canonical address after the hand-over, and an address outside the recursive slot that
  the builder does not translate faults.
\<close>

theorem mapped_page_reaches_frame:
  assumes "builder_inv taken b m" and "builder_slot b < 512"
    and "builder_map b p v flags m = Ret (Inr (), b1, m1)"
    and "builder_finish b1 m1 = Ret (Inr (c, mp), m2)"
    and "canonical u" and "pml4_index (vaddr_info u) \<noteq> builder_slot b"
  shows "mmu_frame (frames m2) c u =
    (if same_page u v then Some (p AND NODE_ADDRESS_MASK)
     else map_option (mapped_frame u) (builder_translate b m u))"
proof -
  from builder_map_spec [OF assms(1), of p v flags] assms(3)
  have b1: "builder_inv taken b1 m1" "builder_slot b1 = builder_slot b"
    "builder_translate b1 m1 u =
      (if same_page u v then Some (Page (page_entry_for flags p)) else builder_translate b m u)"
    by auto
  from builder_finish_spec [OF b1(1)] assms(2,4) b1(2)
  have k: "kernel_inv taken mp (m2\<lparr> cr3 := Some c \<rparr>)" "rm_recursion_index mp = builder_slot b"
    "kernel_translate mp (m2\<lparr> cr3 := Some c \<rparr>) u = builder_translate b1 m1 u"
    by auto
  with mmu_frame_view [OF k(1) _ assms(5), of c] assms(6) b1(3) show ?thesis
    by (simp add: page_entry_addr)
qed


section \<open>The map at work\<close>

text \<open>
  One page mapped with the user flag by a builder that draws its tables from the counting
  source, and the finished map.
\<close>

definition example_builder :: "usize virtual_map_builder" where
  "example_builder = builder_new 510 counting_source (\<lambda>p. p)"

definition example_machine :: "usize machine" where
  "example_machine = \<lparr> frames = (\<lambda>_ _. 0), cr3 = None, pool = 1 \<rparr>"

lemma example_builder_inv: "builder_inv counted example_builder example_machine"
  unfolding example_builder_def
  by (rule builder_new_inv) (simp_all add: example_machine_def counting_source_ok)

lemma example_slot [simp]: "builder_slot example_builder = 510"
  by (simp add: example_builder_def builder_new_def builder_slot_def)

lemma example_supervisor: "supervisor_only example_builder"
  by (simp add: example_builder_def builder_new_def supervisor_only_def)

lemma example_info:
  "vaddr_info 0x400000 =
    \<lparr>page_offset = 0, pt_index = 0, pd_index = 2, pdpt_index = 0, pml4_index = 0\<rparr>"
  by (simp add: vaddr_info_def)

lemma example_canonical: "canonical 0x400000"
  using canonical_from_info [of "vaddr_info 0x400000"]
  by (simp add: example_info vaddr_from_info_def)

lemma example_frames:
  "page_frame 0x1000" "page_frame 0x2000" "page_frame 0x3000" "page_frame 0x4000"
  "page_frame 0x5000"
  by (simp_all add: page_frame_def NODE_ADDRESS_MASK_def)

lemmas map_eval = builder_map_def virtual_map_def builder_new_def local_ops_def
  local_reserved_def map_pml4_level_def map_pdpt_level_def map_pd_level_def map_pt_level_def
  and_then_def local_pml4_get_def local_pml4_set_def counting_source_def local_pdpt_def
  local_pd_def local_pt_def get_unchecked_def load_entry_def store_entry_def
  set_frame_entry_def frame_of_identity example_frames node.addr_roundtrip entry_bits
  pdpt_entry_node_def pd_entry_node_def

lemma example_run:
  "\<exists>b1 m1. builder_map example_builder 0x5000 0x400000 VF_USER_MODE example_machine =
      Ret (Inr (), b1, m1) \<and> pool m1 = 4 \<and> cr3 m1 = None \<and>
    vb_new_page_table b1 = counting_source \<and>
    vb_mapper b1 = \<lparr> lm_table = (\<lambda>_. 0)(0 := link_entry 0x1000), lm_page_table_ptr = (\<lambda>p. p),
      lm_recursion_index = 510 \<rparr>"
  by (simp add: example_builder_def example_machine_def example_info map_eval)

lemma example_run_finish:
  obtains b1 m1 mp m2 where
    "builder_map example_builder 0x5000 0x400000 VF_USER_MODE example_machine = Ret (Inr (), b1, m1)"
    "builder_maps example_builder [(0x5000, 0x400000, VF_USER_MODE)] example_machine = Ret (b1, m1)"
    "builder_finish b1 m1 = Ret (Inr (0x4000, mp), m2)"
proof -
  obtain b1 m1 where r: "builder_map example_builder 0x5000 0x400000 VF_USER_MODE example_machine =
      Ret (Inr (), b1, m1)" "pool m1 = 4" "cr3 m1 = None"
    "vb_new_page_table b1 = counting_source"
    "vb_mapper b1 = \<lparr> lm_table = (\<lambda>_. 0)(0 := link_entry 0x1000), lm_page_table_ptr = (\<lambda>p. p),
      lm_recursion_index = 510 \<rparr>"
    using example_run by blast
  then have "\<exists>mp m2. builder_finish b1 m1 = Ret (Inr (0x4000, mp), m2)"
    by (simp add: builder_finish_def Let_def store_table_def map_eval)
  with r(1) that show thesis by auto
qed

text \<open>The same call when the source is exhausted.\<close>

definition exhausted_machine :: "usize machine" where
  "exhausted_machine = example_machine\<lparr> pool := 0x10000000000 \<rparr>"

lemma exhausted_builder_inv: "builder_inv counted example_builder exhausted_machine"
  unfolding example_builder_def
  by (rule builder_new_inv) (simp_all add: exhausted_machine_def example_machine_def counting_source_ok)

lemma exhausted_run:
  "\<exists>b1 m1. builder_map example_builder 0x5000 0x400000 VF_USER_MODE exhausted_machine =
      Ret (Inl PageTable, b1, m1)"
  by (simp add: example_builder_def exhausted_machine_def example_machine_def example_info map_eval)

lemma builder_map_correct_witness:
  "(\<exists>b1 m1. builder_map example_builder 0x5000 0x400000 VF_USER_MODE example_machine =
        Ret (Inr (), b1, m1) \<and> builder_inv counted b1 m1 \<and>
      builder_translate b1 m1 0x400000 = Some (Page (page_entry_for VF_USER_MODE 0x5000))) \<and>
   (\<exists>b1 m1. builder_map example_builder 0x5000 0x400000 VF_USER_MODE exhausted_machine =
        Ret (Inl PageTable, b1, m1) \<and> lacks_table (builder_tables b1 m1) 0x400000 \<and>
      (\<exists>m0. supplied counting_source exhausted_machine m0 \<and> counting_source m0 = (None, m1)))"
proof
  show "\<exists>b1 m1. builder_map example_builder 0x5000 0x400000 VF_USER_MODE example_machine =
        Ret (Inr (), b1, m1) \<and> builder_inv counted b1 m1 \<and>
      builder_translate b1 m1 0x400000 = Some (Page (page_entry_for VF_USER_MODE 0x5000))"
    using example_run builder_map_correct [OF example_builder_inv,
        where p = "0x5000" and v = "0x400000" and flags = VF_USER_MODE]
    by (auto simp: same_page_def)
  have "vb_new_page_table example_builder = counting_source"
    by (simp add: example_builder_def builder_new_def)
  then show "\<exists>b1 m1. builder_map example_builder 0x5000 0x400000 VF_USER_MODE exhausted_machine =
        Ret (Inl PageTable, b1, m1) \<and> lacks_table (builder_tables b1 m1) 0x400000 \<and>
      (\<exists>m0. supplied counting_source exhausted_machine m0 \<and> counting_source m0 = (None, m1))"
    using exhausted_run builder_map_correct [OF exhausted_builder_inv,
        where p = "0x5000" and v = "0x400000" and flags = VF_USER_MODE]
    by auto
qed

lemma user_flag_has_no_effect_witness:
  "\<exists>b1 m1 c mp m2.
    builder_maps example_builder [(0x5000, 0x400000, VF_USER_MODE)] example_machine = Ret (b1, m1) \<and>
    builder_finish b1 m1 = Ret (Inr (c, mp), m2) \<and> \<not> mmu_user (frames m2) c 0x400000"
  using example_run_finish user_flag_has_no_effect [OF example_builder_inv example_supervisor]
  by metis

lemma builder_finish_hands_over_witness:
  "\<exists>b1 m1 mp m2.
    builder_map example_builder 0x5000 0x400000 VF_USER_MODE example_machine = Ret (Inr (), b1, m1) \<and>
    builder_finish b1 m1 = Ret (Inr (0x4000, mp), m2) \<and>
    kernel_inv counted mp (m2\<lparr> cr3 := Some 0x4000 \<rparr>) \<and> rm_recursion_index mp = 510 \<and>
    kernel_translate mp (m2\<lparr> cr3 := Some 0x4000 \<rparr>) 0x400000 =
      Some (Page (page_entry_for VF_USER_MODE 0x5000))"
proof -
  obtain b1 m1 mp m2 where r:
    "builder_map example_builder 0x5000 0x400000 VF_USER_MODE example_machine = Ret (Inr (), b1, m1)"
    "builder_finish b1 m1 = Ret (Inr (0x4000, mp), m2)"
    using example_run_finish by metis
  with builder_map_spec [OF example_builder_inv, of "0x5000" "0x400000" VF_USER_MODE]
  have b1: "builder_inv counted b1 m1" "builder_slot b1 = 510"
    "builder_translate b1 m1 0x400000 = Some (Page (page_entry_for VF_USER_MODE 0x5000))"
    by (auto simp: same_page_def)
  from builder_finish_hands_over [OF b1(1)] b1(2,3) r show ?thesis by auto
qed

text \<open>The kernel's side of the same run: the finished map, active.\<close>

definition example_kernel_machine :: "usize machine" where
  "example_kernel_machine =
     \<lparr> frames = (\<lambda>_ _. 0)(0x1000 := (\<lambda>_. 0)(510 := link_entry 0x1000)), cr3 = Some 0x1000,
       pool = 2 \<rparr>"

lemma example_kernel_inv: "kernel_inv counted \<lparr> rm_recursion_index = 510 \<rparr> example_kernel_machine"
proof -
  let ?S = "recursive_view \<lparr> rm_recursion_index = 510 \<rparr> example_kernel_machine"
  have w: "p = []" if "walk ?S Root p = Some t" "p \<in> paths 510" for p t
  proof (cases p)
    case (Cons i q)
    then have "i \<noteq> 510" using that(2) by (simp add: paths_def)
    then have "step_entry ?S Root i = None"
      by (simp add: step_entry_def state_simps example_kernel_machine_def)
    with that Cons show ?thesis using walk_append [of ?S Root "[i]" q] by (simp add: walk_steps)
  qed
  have "tree ?S 510 U" for U
    unfolding tree_def
  proof (intro conjI ballI allI impI)
    show "p = q" if "p \<in> paths 510" "q \<in> paths 510" "walk ?S Root p = Some t" "walk ?S Root q = Some t"
      for p q t
      using w [OF that(3,1)] w [OF that(4,2)] by simp
    show "f \<in> U" if "p \<in> paths 510" "walk ?S Root p = Some (At f)" for p f
      using w [OF that(2,1)] that(2) by simp
  qed
  moreover have "recursive_ok \<lparr> rm_recursion_index = 510 \<rparr> example_kernel_machine"
    by (simp add: recursive_ok_def example_kernel_machine_def node.addr_roundtrip example_frames)
  moreover have "(0x1000 :: usize) \<in> counted 2"
    unfolding counted_def by (intro CollectI exI [of _ 1]) simp
  ultimately show ?thesis
    by (simp add: kernel_inv_def map_inv_def recursive_prot_def)
      (simp add: example_kernel_machine_def)
qed

lemmas recursive_eval = virtual_map_def recursive_ops_def recursive_reserved_def
  recursive_pml4_get_def recursive_pml4_set_def recursive_pml4_ptr_def recursive_pdpt_def
  recursive_pd_def recursive_pt_def map_pml4_level_def map_pdpt_level_def map_pd_level_def
  map_pt_level_def and_then_def counting_source_def load_entry_def store_entry_def
  set_frame_entry_def entry_bits pdpt_entry_node_def pd_entry_node_def

text \<open>The pointers the recursive mapper computes for the slot 510, and what they lead to.\<close>

lemma example_kernel_run:
  "\<exists>mp' m'. virtual_map recursive_ops counting_source 0x5000 0x400000 VF_USER_MODE
      \<lparr> rm_recursion_index = 510 \<rparr> example_kernel_machine = Ret (Inr (), mp', m')"
proof -
  have ptr: "vaddr_from_info \<lparr>page_offset = 0, pt_index = a, pd_index = b, pdpt_index = d,
      pml4_index = 510\<rparr> AND 0xfff = 0" if "a < 512" "b < 512" "d < 512" for a b d
    using page_offset_aligned [of "vaddr_from_info \<lparr>page_offset = 0, pt_index = a, pd_index = b,
        pdpt_index = d, pml4_index = 510\<rparr>"] that
    by (simp add: info_from_info info_in_range_def)
  show ?thesis
    by (simp add: example_kernel_machine_def recursive_eval example_info frame_of_def ptr
        mmu_frame_code Let_def info_from_info info_in_range_def canonical_from_info
        node.addr_roundtrip example_frames pt_entry_addr_child)
qed

lemma kernel_map_correct_witness:
  "\<exists>mp' m'. virtual_map recursive_ops counting_source 0x5000 0x400000 VF_USER_MODE
      \<lparr> rm_recursion_index = 510 \<rparr> example_kernel_machine = Ret (Inr (), mp', m') \<and>
    kernel_inv counted mp' m' \<and>
    kernel_translate mp' m' 0x400000 = Some (Page (page_entry_for VF_USER_MODE 0x5000))"
  using example_kernel_run kernel_map_correct [OF example_kernel_inv counting_source_ok,
      where p = "0x5000" and v = "0x400000" and flags = VF_USER_MODE]
  by (auto simp: same_page_def)

lemma mmu_translates_kernel_map_witness:
  "\<exists>mp' m'. virtual_map recursive_ops counting_source 0x5000 0x400000 VF_USER_MODE
      \<lparr> rm_recursion_index = 510 \<rparr> example_kernel_machine = Ret (Inr (), mp', m') \<and>
    mmu_frame (frames m') 0x1000 0x400000 = Some 0x5000"
  using example_kernel_run mmu_translates_kernel_map [OF example_kernel_inv counting_source_ok
      _ example_canonical, where c = "0x1000" and p = "0x5000" and v = "0x400000" and flags = VF_USER_MODE]
  by (auto simp: same_page_def hw_index_info example_info example_kernel_machine_def)

lemma mapped_page_reaches_frame_witness:
  "\<exists>b1 m1 c mp m2.
    builder_map example_builder 0x5000 0x400000 VF_USER_MODE example_machine = Ret (Inr (), b1, m1) \<and>
    builder_finish b1 m1 = Ret (Inr (c, mp), m2) \<and> mmu_frame (frames m2) c 0x400000 = Some 0x5000"
proof -
  obtain b1 m1 mp m2 where r:
    "builder_map example_builder 0x5000 0x400000 VF_USER_MODE example_machine = Ret (Inr (), b1, m1)"
    "builder_finish b1 m1 = Ret (Inr (0x4000, mp), m2)"
    using example_run_finish by metis
  have "mmu_frame (frames m2) 0x4000 0x400000 = Some 0x5000"
    using mapped_page_reaches_frame [OF example_builder_inv _ r example_canonical]
      example_frames(5)
    by (simp add: example_info page_frame_def)
  with r show ?thesis by blast
qed

end
