(* ===== verification/Boot_Kernel.thy ===== *)
theory Boot_Kernel
  imports Elf_Image Map_Properties
begin

text \<open>
  What the bootloader (\<open>bootloader/src/main.rs\<close>) makes of the kernel binary: the constants
  it computes when it is compiled, the copy of the segments into memory, and the mappings
  it asks for. A panic in a constant is a compile error of the bootloader.
\<close>

section \<open>The segments\<close>

text \<open>
  \<open>KERNEL_SEGMENTS\<close>: the loop writes one array element per segment; the array has
  \<open>program_header_count\<close> elements and is assumed initialised.
\<close>

fun collect_segments :: "(elf_error + elf_segment64) list \<Rightarrow> elf_segment64 list exec" where
  "collect_segments [] = Ret []"
| "collect_segments (Inl e # rest) = Panic ''ELF error''"
| "collect_segments (Inr s # rest) =
     (if alignment s \<noteq> 4096 then Panic ''Kernel segments must be aligned''
      else bind_exec (collect_segments rest) (\<lambda>ss. Ret (s # ss)))"

definition kernel_segments :: "elf64 \<Rightarrow> elf_segment64 list exec" where
  "kernel_segments binary =
     (let n = unat (program_header_count binary) in
      bind_exec (collect_segments (drain programs_next n (program_segments binary))) (\<lambda>out.
        if length out = n then Ret out else Undefined))"

section \<open>The address of the boot information\<close>

text \<open>\<open>b".bootinfo"\<close>\<close>

definition bootinfo_name :: "u8 list" where
  "bootinfo_name = [0x2E, 0x62, 0x6F, 0x6F, 0x74, 0x69, 0x6E, 0x66, 0x6F]"

fun find_bootinfo :: "elf64 \<Rightarrow> (elf_error + elf_section64) list \<Rightarrow> usize exec" where
  "find_bootinfo binary [] = Ret 0"
| "find_bootinfo binary (Inl e # rest) = Panic ''ELF error''"
| "find_bootinfo binary (Inr s # rest) =
     bind_exec (section_name s binary) (\<lambda>name.
       if name = bootinfo_name
       then Ret (next_multiple_of (section_virtual_address s) PAGE_SIZE)
       else find_bootinfo binary rest)"

definition kernel_bootinfo_address :: "elf64 \<Rightarrow> usize exec" where
  "kernel_bootinfo_address binary =
     bind_exec (find_bootinfo binary
         (drain sections_next (unat (section_header_entry_len (header binary))) (sections binary)))
       (\<lambda>ret.
          if ret = 0 then Panic ''`.bootinfo` section not found''
          else if ret mod PAGE_SIZE \<noteq> 0 then Panic ''`.bootinfo` section not aligned''
          else Ret ret)"

section \<open>The virtual address range\<close>

text \<open>
  The loop of \<open>KERNEL_VIRTUAL_ADDRESSES\<close>. Its \<open>continue\<close> on a segment that is not loaded
  skips the increment of \<open>i\<close>, so it may not end: the value is then \<open>None\<close>. An overflow of
  the sum, and an index out of range, stop the evaluation of the constant.
\<close>

partial_function (option) virtual_range ::
  "elf_segment64 list \<Rightarrow> nat \<Rightarrow> u64 \<Rightarrow> u64 \<Rightarrow> (u64 \<times> u64) exec option" where
  "virtual_range segments i lo hi =
     (if length segments \<le> i then Some (Panic ''index out of bounds'')
      else let segment = segments ! i in
        if \<not> segment_type_eq (segment_type segment) SegLoad
        then virtual_range segments i lo hi
        else
          (case checked_add (virtual_address segment) (memory_size segment) of
             None \<Rightarrow> Some (Panic ''attempt to add with overflow'')
           | Some e \<Rightarrow>
               let lo' = min lo (virtual_address segment); hi' = max hi e in
               if Suc i = length segments then Some (Ret (lo', hi'))
               else virtual_range segments (Suc i) lo' hi'))"

definition kernel_virtual_addresses :: "elf_segment64 list \<Rightarrow> (usize \<times> usize) exec option" where
  "kernel_virtual_addresses segments =
     (case virtual_range segments 0 (- 1) 0 of
        None \<Rightarrow> None
      | Some r \<Rightarrow> Some (bind_exec r (\<lambda>(lo, hi).
          if lo mod PAGE_SIZE = 0 then Ret (lo, next_multiple_of hi PAGE_SIZE)
          else Panic ''Virtual address base isn't aligned'')))"

section \<open>Copying the segments\<close>

text \<open>
  The pages allocated for the kernel, as bytes from \<open>kernel_ptr\<close> on. A pointer or an
  access outside the allocation is undefined; the fresh pages hold arbitrary bytes.
\<close>

type_synonym allocation = "u8 list"

definition write_range :: "allocation \<Rightarrow> nat \<Rightarrow> u8 list \<Rightarrow> allocation exec" where
  "write_range mem off bs =
     (if off + length bs \<le> length mem
      then Ret (take off mem @ bs @ drop (off + length bs) mem) else Undefined)"

definition load_segment :: "usize \<Rightarrow> elf_segment64 \<Rightarrow> allocation \<Rightarrow> allocation exec" where
  "load_segment virtual_base segment mem =
     (let off = unat (virtual_address segment - virtual_base);
          len = length (segment_data segment)
      in bind_exec (write_range mem off (segment_data segment)) (\<lambda>mem1.
           write_range mem1 (off + len + len)
             (replicate (unat (memory_size segment - of_nat len)) 0)))"

fun load_segments :: "usize \<Rightarrow> elf_segment64 list \<Rightarrow> allocation \<Rightarrow> allocation exec" where
  "load_segments virtual_base [] mem = Ret mem"
| "load_segments virtual_base (s # ss) mem =
     (if \<not> segment_type_eq (segment_type s) SegLoad then load_segments virtual_base ss mem
      else bind_exec (load_segment virtual_base s mem) (load_segments virtual_base ss))"

section \<open>The mappings\<close>

text \<open>\<open>(0..n).step_by(PAGE_SIZE)\<close>\<close>

definition page_steps :: "usize \<Rightarrow> usize list" where
  "page_steps n = map (\<lambda>k. of_nat (4096 * k)) [0..<(unat n + 4095) div 4096]"

definition segment_requests ::
  "usize \<Rightarrow> usize \<Rightarrow> elf_segment64 \<Rightarrow> (paddr \<times> vaddr \<times> vflags) list" where
  "segment_requests kernel_ptr virtual_base segment =
     map (\<lambda>i. (kernel_ptr + (virtual_address segment - virtual_base) + i,
               virtual_address segment + i,
               VF_GLOBAL OR (if contains (segment_flags segment) WRITABLE then VF_WRITABLE else 0)))
       (page_steps (memory_size segment))"

definition kernel_requests ::
  "usize \<Rightarrow> usize \<Rightarrow> elf_segment64 list \<Rightarrow> (paddr \<times> vaddr \<times> vflags) list" where
  "kernel_requests kernel_ptr virtual_base segments =
     concat (map (segment_requests kernel_ptr virtual_base)
       (filter (\<lambda>s. segment_type_eq (segment_type s) SegLoad) segments))"

text \<open>\<open>next_free_page\<close>: the virtual address handed out, the next free one, and the mappings.\<close>

definition next_free_page ::
  "usize \<Rightarrow> paddr \<Rightarrow> usize \<Rightarrow> vflags \<Rightarrow> vaddr \<times> usize \<times> (paddr \<times> vaddr \<times> vflags) list" where
  "next_free_page next_v_addr p_addr page_count flags =
     (next_v_addr, next_v_addr + page_count * PAGE_SIZE,
      map (\<lambda>k. let offset = of_nat k * PAGE_SIZE in
               (p_addr + offset, next_v_addr + offset, VF_GLOBAL OR flags))
        [0..<unat page_count])"

definition KERNEL_STACK_PAGES :: usize where "KERNEL_STACK_PAGES = 8"

definition frame_buffer_pages :: "usize \<Rightarrow> usize \<Rightarrow> usize" where
  "frame_buffer_pages fb_phys fb_size =
     (let fb_phys_base = fb_phys AND NOT (PAGE_SIZE - 1);
          fb_phys_end = next_multiple_of (fb_phys + fb_size) PAGE_SIZE
      in (fb_phys_end - fb_phys_base) div PAGE_SIZE)"

text \<open>
  Everything \<open>setup_uefi_and_exit\<close> maps, in order, with the addresses it reports: the base
  of the stack, the frame buffer and the first free virtual address.
\<close>

definition boot_requests ::
  "elf_segment64 list \<Rightarrow> usize \<Rightarrow> usize \<Rightarrow> usize \<Rightarrow> usize \<Rightarrow> usize \<Rightarrow> usize \<Rightarrow> usize \<Rightarrow>
   (paddr \<times> vaddr \<times> vflags) list \<times> vaddr \<times> vaddr \<times> vaddr" where
  "boot_requests segments virtual_base next_v_addr kernel_ptr switcher stack_ptr fb_phys fb_size =
     (let kernel = kernel_requests kernel_ptr virtual_base segments;
          switcher_map = [(switcher, switcher, 0)];
          (stack, next1, stack_map) =
            next_free_page next_v_addr stack_ptr KERNEL_STACK_PAGES VF_WRITABLE;
          stack_base = stack + KERNEL_STACK_PAGES * PAGE_SIZE;
          (fb, next2, fb_map) =
            next_free_page next1 fb_phys (frame_buffer_pages fb_phys fb_size)
              (VF_WRITABLE OR VF_WRITE_THROUGH OR VF_CACHE_DISABLED)
      in (kernel @ switcher_map @ stack_map @ fb_map, stack_base, fb, next2))"

text \<open>
  The page tables of the bootloader: pages from the firmware's allocator, zeroed. The
  allocator is a parameter, a function on the state of the pool.
\<close>

definition boot_page_table :: "('a \<Rightarrow> paddr option \<times> 'a) \<Rightarrow> 'a table_source" where
  "boot_page_table allocate_pages m =
     (case allocate_pages (pool m) of
        (None, s) \<Rightarrow> (None, m\<lparr> pool := s \<rparr>)
      | (Some p, s) \<Rightarrow> (Some p, m\<lparr> pool := s, frames := (frames m)(p := (\<lambda>_. 0)) \<rparr>))"

definition boot_recursion_index :: usize where "boot_recursion_index = 510"

text \<open>
  The whole set-up of the virtual map: the switcher must be page-aligned, the first mapping
  that fails panics, and so does a failing \<open>finish\<close>.
\<close>

definition boot_virtual_map ::
  "('a \<Rightarrow> paddr option \<times> 'a) \<Rightarrow> usize \<Rightarrow> (paddr \<times> vaddr \<times> vflags) list \<Rightarrow> 'a machine \<Rightarrow>
   (paddr \<times> recursive_mapper \<times> 'a machine) exec" where
  "boot_virtual_map allocate_pages switcher requests m =
     (if switcher mod PAGE_SIZE \<noteq> 0 then Panic ''`switch_to_kernel` must be page-aligned''
      else
        bind_exec
          (builder_maps (builder_new boot_recursion_index (boot_page_table allocate_pages) (\<lambda>p. p))
             requests m)
          (\<lambda>(b, m1).
             bind_exec (builder_finish b m1) (\<lambda>(res, m2).
               case res of
                 Inl _ \<Rightarrow> Panic ''called `Result::unwrap()` on an `Err` value''
               | Inr (pml4, mapper) \<Rightarrow> Ret (pml4, mapper, m2))))"

text \<open>\<open>switch_to_kernel\<close>: \<open>mov cr3, rdi\<close> makes the finished table the active one.\<close>

definition switch_to_kernel :: "paddr \<Rightarrow> 'a machine \<Rightarrow> 'a machine" where
  "switch_to_kernel pml4_phys m = m\<lparr> cr3 := Some pml4_phys \<rparr>"

end
