(* ===== verification/Boot_Correct.thy ===== *)
theory Boot_Correct
  imports Boot_Kernel
begin

text \<open>
  The bootloader's preparations are what the kernel relies on: when the constant address
  range can be computed, what a copied segment looks like in memory, and that the finished
  page tables map exactly the requested pages.
\<close>

section \<open>The virtual address range\<close>

definition loads :: "elf_segment64 \<Rightarrow> bool" where
  "loads s \<longleftrightarrow> segment_type_eq (segment_type s) SegLoad"

lemma segment_type_eq_eq: "segment_type_eq a b \<longleftrightarrow> a = b"
  by (cases "(a, b)" rule: segment_type_eq.cases) auto

lemma loads_iff: "loads s \<longleftrightarrow> segment_type s = SegLoad"
  by (simp add: loads_def segment_type_eq_eq)

definition fits :: "elf_segment64 \<Rightarrow> bool" where
  "fits s \<longleftrightarrow> checked_add (virtual_address s) (memory_size s) \<noteq> None"

text \<open>Index \<open>k\<close> is the first segment that is not loaded, and the loop gets there from \<open>i\<close>.\<close>

definition stuck_at :: "elf_segment64 list \<Rightarrow> nat \<Rightarrow> nat \<Rightarrow> bool" where
  "stuck_at ss i k \<longleftrightarrow>
     i \<le> k \<and> k < length ss \<and> \<not> loads (ss ! k) \<and> (\<forall>j. i \<le> j \<and> j < k \<longrightarrow> loads (ss ! j) \<and> fits (ss ! j))"

lemma virtual_range_not_loaded:
  assumes "i < length ss" "\<not> loads (ss ! i)"
  shows "virtual_range ss i lo hi = None"
proof -
  have "\<not> (i < length ss \<and> \<not> loads (ss ! i))" if "virtual_range ss i lo hi = Some r" for r
    by (rule virtual_range.raw_induct [OF _ that])
      (auto simp: loads_def Let_def split: if_splits)
  with assms show ?thesis by fastforce
qed

lemma virtual_range_loaded:
  assumes "i < length ss" "loads (ss ! i)"
  shows "virtual_range ss i lo hi =
    (case checked_add (virtual_address (ss ! i)) (memory_size (ss ! i)) of
       None \<Rightarrow> Some (Panic ''attempt to add with overflow'')
     | Some e \<Rightarrow>
         if Suc i = length ss then Some (Ret (min lo (virtual_address (ss ! i)), max hi e))
         else virtual_range ss (Suc i) (min lo (virtual_address (ss ! i))) (max hi e))"
  using assms by (subst virtual_range.simps) (simp add: loads_def Let_def cong: option.case_cong)

lemma virtual_range_end: "length ss \<le> i \<Longrightarrow> virtual_range ss i lo hi \<noteq> None"
  by (subst virtual_range.simps) simp

lemma stuck_at_step:
  "i < length ss \<Longrightarrow> loads (ss ! i) \<Longrightarrow> fits (ss ! i) \<Longrightarrow> stuck_at ss i k \<longleftrightarrow> stuck_at ss (Suc i) k"
  unfolding stuck_at_def by (metis Suc_leD Suc_leI le_neq_implies_less)

lemma virtual_range_None_iff: "virtual_range ss i lo hi = None \<longleftrightarrow> (\<exists>k. stuck_at ss i k)"
proof (induction "length ss - i" arbitrary: i lo hi)
  case 0
  then show ?case using virtual_range_end [of ss i lo hi] by (auto simp: stuck_at_def)
next
  case (Suc d)
  then have i: "i < length ss" by simp
  show ?case
  proof (cases "loads (ss ! i)")
    case False
    then have "stuck_at ss i i" using i by (auto simp: stuck_at_def)
    with virtual_range_not_loaded [OF i False] show ?thesis by blast
  next
    case l: True
    show ?thesis
    proof (cases "fits (ss ! i)")
      case False
      then have "\<not> stuck_at ss i k" for k
        using l by (auto simp: stuck_at_def) (metis le_neq_implies_less le_refl)
      with virtual_range_loaded [OF i l] False show ?thesis by (simp add: fits_def)
    next
      case True
      then obtain e where e: "checked_add (virtual_address (ss ! i)) (memory_size (ss ! i)) = Some e"
        by (auto simp: fits_def)
      show ?thesis
      proof (cases "Suc i = length ss")
        case last: True
        then have "\<not> stuck_at ss i k" for k
          using l last unfolding stuck_at_def by (metis le_less_Suc_eq)
        then show ?thesis using virtual_range_loaded [OF i l] e last by simp
      next
        case False
        have "d = length ss - Suc i" using Suc(2) by simp
        from Suc(1) [OF this] show ?thesis
          using virtual_range_loaded [OF i l] e False stuck_at_step [OF i l True] by auto
      qed
    qed
  qed
qed

text \<open>
  C22: The evaluation of \<open>KERNEL_VIRTUAL_ADDRESSES\<close> runs forever exactly when some segment is
  not a loadable one and every segment before the first such one is loadable and does not
  overflow: \<open>continue\<close> skips the increment of the index.
\<close>

theorem kernel_virtual_addresses_diverges:
  "kernel_virtual_addresses ss = None \<longleftrightarrow>
     (\<exists>k < length ss. segment_type (ss ! k) \<noteq> SegLoad \<and>
        (\<forall>j < k. segment_type (ss ! j) = SegLoad \<and>
           unat (virtual_address (ss ! j)) + unat (memory_size (ss ! j)) < 2 ^ 64))"
proof -
  have "kernel_virtual_addresses ss = None \<longleftrightarrow> virtual_range ss 0 (- 1) 0 = None"
    by (simp add: kernel_virtual_addresses_def split: option.split)
  moreover have "fits s \<longleftrightarrow> unat (virtual_address s) + unat (memory_size s) < 2 ^ 64" for s
    by (simp add: fits_def checked_add_def)
  ultimately show ?thesis
    unfolding virtual_range_None_iff stuck_at_def loads_iff by auto
qed

lemma virtual_range_all_loaded:
  assumes "\<forall>s \<in> set (drop i ss). loads s \<and> fits s" and "i < length ss"
  shows "virtual_range ss i lo hi =
    Some (Ret (Min (insert lo (virtual_address ` set (drop i ss))),
      Max (insert hi ((\<lambda>s. virtual_address s + memory_size s) ` set (drop i ss)))))"
  using assms
proof (induction "length ss - Suc i" arbitrary: i lo hi)
  case 0
  then have last: "Suc i = length ss" by simp
  then have d: "drop i ss = [ss ! i]" using 0(3) by (simp add: Cons_nth_drop_Suc [symmetric])
  with 0 have l: "loads (ss ! i)" "fits (ss ! i)" by auto
  then obtain e where e: "checked_add (virtual_address (ss ! i)) (memory_size (ss ! i)) = Some e"
    by (auto simp: fits_def)
  then have "e = virtual_address (ss ! i) + memory_size (ss ! i)"
    by (auto simp: checked_add_def split: if_splits)
  with virtual_range_loaded [OF 0(3) l(1)] e last d show ?case
    by (simp add: min.commute)
next
  case (Suc n)
  then have next_i: "Suc i < length ss" by simp
  have d: "drop i ss = ss ! i # drop (Suc i) ss" using Suc(4) by (simp add: Cons_nth_drop_Suc)
  with Suc(3) have l: "loads (ss ! i)" "fits (ss ! i)" and rest: "\<forall>s \<in> set (drop (Suc i) ss). loads s \<and> fits s"
    by auto
  then obtain e where e: "checked_add (virtual_address (ss ! i)) (memory_size (ss ! i)) = Some e"
    by (auto simp: fits_def)
  then have ev: "e = virtual_address (ss ! i) + memory_size (ss ! i)"
    by (auto simp: checked_add_def split: if_splits)
  have "n = length ss - Suc (Suc i)" using Suc(2) by simp
  note IH = Suc(1) [OF this rest next_i]
  have ins: "insert x (f ` set (drop i ss)) = insert x (insert (f (ss ! i)) (f ` set (drop (Suc i) ss)))"
    for x and f :: "elf_segment64 \<Rightarrow> u64"
    using d by simp
  have "Min (insert (min lo a) A) = Min (insert lo (insert a A))"
    "Max (insert (max hi a) A) = Max (insert hi (insert a A))" if "finite A" for a and A :: "u64 set"
    using that by (cases "A = {}"; simp add: min.assoc max.assoc)+
  then show ?case
    using virtual_range_loaded [OF Suc(4) l(1)] e ev next_i IH
    by (simp add: ins min.assoc max.assoc)
qed

text \<open>
  Where every segment is loadable, ends below \<open>2 ^ 64\<close> and the lowest one is page-aligned,
  the constant is the lowest segment address and the highest segment end, rounded up to a
  page.
\<close>

theorem kernel_virtual_addresses_spec:
  assumes "ss \<noteq> []"
    and "\<forall>s \<in> set ss. segment_type s = SegLoad \<and>
      unat (virtual_address s) + unat (memory_size s) < 2 ^ 64"
    and "Min (virtual_address ` set ss) mod PAGE_SIZE = 0"
  shows "kernel_virtual_addresses ss =
    Some (Ret (Min (virtual_address ` set ss),
      next_multiple_of (Max ((\<lambda>s. virtual_address s + memory_size s) ` set ss)) PAGE_SIZE))"
proof -
  let ?A = "virtual_address ` set ss" and ?B = "(\<lambda>s. virtual_address s + memory_size s) ` set ss"
  have "\<forall>s \<in> set (drop 0 ss). loads s \<and> fits s"
    using assms(2) by (simp add: loads_iff fits_def checked_add_def)
  from virtual_range_all_loaded [OF this] assms(1)
  have r: "virtual_range ss 0 (- 1) 0 = Some (Ret (Min (insert (- 1) ?A), Max (insert 0 ?B)))"
    by simp
  have "Min (insert (- 1) ?A) = Min ?A"
    using assms(1) by (simp add: min_absorb2)
  moreover have "Max (insert 0 ?B) = Max ?B"
    using assms(1) by simp
  ultimately show ?thesis
    using r assms(3) by (simp add: kernel_virtual_addresses_def)
qed

definition example_load :: "u64 \<Rightarrow> u64 \<Rightarrow> elf_segment64" where
  "example_load a n =
     \<lparr> segment_type = SegLoad, segment_data = [1], segment_flags = 6, virtual_address = a,
       physical_address = 0, memory_size = n, alignment = 4096 \<rparr>"

lemma kernel_virtual_addresses_spec_witness:
  "kernel_virtual_addresses [example_load 0x3000 10, example_load 0x1000 0x1001] =
    Some (Ret (0x1000, 0x4000))"
  using kernel_virtual_addresses_spec [of "[example_load 0x3000 10, example_load 0x1000 0x1001]"]
  by (simp add: example_load_def PAGE_SIZE_def next_multiple_of_def)

lemma kernel_virtual_addresses_diverges_witness:
  "kernel_virtual_addresses [example_load 0x1000 10, (example_load 0x2000 10)\<lparr>segment_type := SegNote\<rparr>] =
    None"
  unfolding kernel_virtual_addresses_diverges
  by (rule exI [of _ 1]) (simp add: example_load_def)

section \<open>Copying a segment\<close>

text \<open>
  C18: Loading a segment copies its file data to its place and writes the zeros one data
  length too far: with \<open>len\<close> bytes of data, the bytes from \<open>off + len\<close> to \<open>off + 2 * len\<close>
  keep what the fresh pages held, and the zeros reach to \<open>off + len + memory_size\<close>, which is
  undefined when the allocation ends before that.
\<close>

theorem load_segment_spec:
  assumes "length (segment_data s) \<le> unat (memory_size s)"
    and "len = length (segment_data s)" and "off = unat (virtual_address s - base)"
  shows "load_segment base s mem =
    (if off + len + unat (memory_size s) \<le> length mem
     then Ret (take off mem @ segment_data s @ take len (drop (off + len) mem) @
            replicate (unat (memory_size s) - len) 0 @ drop (off + len + unat (memory_size s)) mem)
     else Undefined)"
proof -
  have lt: "len < 2 ^ 64"
    using assms(1,2) le_less_trans [OF _ unsigned_less [of "memory_size s"]] by simp
  have sz: "unat (memory_size s - of_nat len) = unat (memory_size s) - len"
    using assms(1,2) lt by (simp add: unat_sub word_le_nat_alt unat_of_nat)
  have "len \<le> unat (memory_size s)" using assms by simp
  then show ?thesis
    unfolding load_segment_def write_range_def Let_def assms(2,3) [symmetric] sz
    using assms(2) [symmetric] by (auto simp: take_drop ac_simps)
qed

lemma load_segment_spec_witness:
  "load_segment 0x1000 (example_load 0x1001 3) [7, 7, 7, 7, 7, 7] = Ret [7, 1, 7, 0, 0, 7]"
  using load_segment_spec [of "example_load 0x1001 3" 1 1 "0x1000" "[7, 7, 7, 7, 7, 7]"]
  by (simp add: example_load_def) (simp add: numeral_2_eq_2)

section \<open>The requested mappings\<close>

lemma translate_same_page: "same_page u v \<Longrightarrow> translate S r u = translate S r v"
  by (simp add: translate_def same_page_def Let_def)

lemma builder_maps_step:
  assumes "builder_inv taken b m" "builder_maps b ((p, v, flags) # rs) m = Ret (b', m')"
  obtains b1 m1 where "builder_inv taken b1 m1" "builder_slot b1 = builder_slot b"
    "builder_maps b1 rs m1 = Ret (b', m')" "builder_translate b m v = None"
    "pml4_index (vaddr_info v) \<noteq> builder_slot b"
    "\<And>u. builder_translate b1 m1 u =
      (if same_page u v then Some (Page (page_entry_for flags p)) else builder_translate b m u)"
proof -
  from assms(2) obtain b1 m1 where s: "builder_map b p v flags m = Ret (Inr (), b1, m1)"
    "builder_maps b1 rs m1 = Ret (b', m')"
    unfolding builder_maps_Cons by blast
  from builder_map_spec [OF assms(1), of p v flags] s that show thesis by auto
qed

text \<open>Mappings that succeed were not there before.\<close>

lemma builder_maps_unmapped:
  assumes "builder_inv taken b m" "builder_maps b rs m = Ret (b', m')" "(p, v, flags) \<in> set rs"
  shows "builder_translate b m v = None"
  using assms
proof (induction rs arbitrary: b m)
  case (Cons r rs)
  obtain p0 v0 flags0 where r: "r = (p0, v0, flags0)" by (cases r)
  obtain b1 m1 where s: "builder_inv taken b1 m1" "builder_maps b1 rs m1 = Ret (b', m')"
    "builder_translate b m v0 = None"
    "\<And>u. builder_translate b1 m1 u =
      (if same_page u v0 then Some (Page (page_entry_for flags0 p0)) else builder_translate b m u)"
    using builder_maps_step [OF Cons.prems(1), of p0 v0 flags0 rs b' m'] Cons.prems(2) r by metis
  show ?case
  proof (cases "(p, v, flags) = r")
    case True
    with s(3) r show ?thesis by simp
  next
    case False
    with Cons.prems(3) have "builder_translate b1 m1 v = None" using Cons.IH [OF s(1,2)] by simp
    with s(4) [of v] show ?thesis by (auto split: if_splits)
  qed
qed simp

text \<open>The mapping of an address among the requests.\<close>

definition requested :: "(paddr \<times> vaddr \<times> vflags) list \<Rightarrow> vaddr \<Rightarrow> (paddr \<times> vaddr \<times> vflags) option" where
  "requested rs u = find (\<lambda>(p, v, flags). same_page u v) rs"

lemma builder_maps_translate:
  assumes "builder_inv taken b m" "builder_maps b rs m = Ret (b', m')"
  shows "builder_translate b' m' u =
    (case requested rs u of
       None \<Rightarrow> builder_translate b m u
     | Some (p, v, flags) \<Rightarrow> Some (Page (page_entry_for flags p)))"
  using assms
proof (induction rs arbitrary: b m)
  case Nil
  then show ?case by (simp add: requested_def)
next
  case (Cons r rs)
  obtain p v flags where r: "r = (p, v, flags)" by (cases r)
  obtain b1 m1 where s: "builder_inv taken b1 m1" "builder_maps b1 rs m1 = Ret (b', m')"
    "\<And>u. builder_translate b1 m1 u =
      (if same_page u v then Some (Page (page_entry_for flags p)) else builder_translate b m u)"
    using builder_maps_step [OF Cons.prems(1), of p v flags rs b' m'] Cons.prems(2) r by metis
  show ?case
  proof (cases "same_page u v")
    case True
    have "requested rs u = None"
    proof (rule ccontr)
      assume "requested rs u \<noteq> None"
      then obtain p1 v1 flags1 where q: "(p1, v1, flags1) \<in> set rs" "same_page u v1"
        by (auto simp: requested_def find_Some_iff in_set_conv_nth)
      have "builder_translate b1 m1 v1 = builder_translate b1 m1 u"
        unfolding builder_translate_def
        by (rule translate_same_page [OF same_page_sym [OF q(2)]])
      then have "builder_translate b1 m1 v1 \<noteq> None" using s(3) [of u] True by simp
      with builder_maps_unmapped [OF s(1,2) q(1)] show False by simp
    qed
    with Cons.IH [OF s(1,2)] s(3) [of u] True r show ?thesis by (simp add: requested_def)
  next
    case False
    with Cons.IH [OF s(1,2)] s(3) [of u] r show ?thesis
      by (simp add: requested_def split: option.split)
  qed
qed

text \<open>
  What the bootloader relies on of the firmware's page allocator: it hands out page frames
  nobody owns.
\<close>

definition fresh_allocator :: "('a \<Rightarrow> paddr set) \<Rightarrow> ('a \<Rightarrow> paddr option \<times> 'a) \<Rightarrow> bool" where
  "fresh_allocator taken alloc \<longleftrightarrow>
     (\<forall>s. case alloc s of
        (None, s') \<Rightarrow> taken s' = taken s
      | (Some p, s') \<Rightarrow> page_frame p \<and> p \<notin> taken s \<and> taken s' = insert p (taken s))"

lemma boot_page_table_source:
  assumes "fresh_allocator taken alloc"
  shows "page_table_source taken (boot_page_table alloc)"
  unfolding page_table_source_def
proof
  fix m :: "'a machine"
  have "case alloc (pool m) of
      (None, s') \<Rightarrow> taken s' = taken (pool m)
    | (Some p, s') \<Rightarrow> page_frame p \<and> p \<notin> taken (pool m) \<and> taken s' = insert p (taken (pool m))"
    using assms [unfolded fresh_allocator_def, THEN spec [of _ "pool m"]] .
  then show "case boot_page_table alloc m of
      (None, m1) \<Rightarrow> cr3 m1 = cr3 m \<and> frames m1 = frames m \<and> taken (pool m1) = taken (pool m)
    | (Some f, m1) \<Rightarrow> cr3 m1 = cr3 m \<and> frames m1 = (frames m)(f := (\<lambda>_. 0)) \<and> page_frame f \<and>
        f \<notin> taken (pool m) \<and> taken (pool m1) = insert f (taken (pool m))"
    by (auto simp: boot_page_table_def split: prod.splits option.splits)
qed

text \<open>The mappings a builder has made so far, and what the finished map makes of them.\<close>

definition mapped_so_far ::
  "('a \<Rightarrow> paddr set) \<Rightarrow> (paddr \<times> vaddr \<times> vflags) list \<Rightarrow> 'a virtual_map_builder \<Rightarrow> 'a machine \<Rightarrow> bool" where
  "mapped_so_far taken rs b m \<longleftrightarrow>
     builder_inv taken b m \<and> builder_slot b = boot_recursion_index
     \<and> (\<forall>u. builder_translate b m u =
          (case requested rs u of None \<Rightarrow> None | Some (p, v, flags) \<Rightarrow> Some (Page (page_entry_for flags p))))"

lemma requested_append:
  "requested (rs @ qs) u = (case requested rs u of None \<Rightarrow> requested qs u | Some x \<Rightarrow> Some x)"
  by (induction rs) (auto simp: requested_def split: option.splits)

lemma mapped_so_far_new:
  assumes "fresh_allocator taken alloc" "cr3 m = None"
  shows "mapped_so_far taken [] (builder_new boot_recursion_index (boot_page_table alloc) (\<lambda>p. p)) m"
proof -
  note inv0 = builder_new_inv [OF assms(2) _ boot_page_table_source [OF assms(1)], of "\<lambda>p. p"]
  show ?thesis using inv0
    by (simp add: mapped_so_far_def requested_def) (simp add: builder_slot_def builder_new_def)
qed

lemma mapped_so_far_maps:
  assumes s: "mapped_so_far taken rs b m" and run: "builder_maps b qs m = Ret (b', m')"
  shows "mapped_so_far taken (rs @ qs) b' m'"
proof -
  have inv: "builder_inv taken b m" and slot: "builder_slot b = boot_recursion_index"
    and tr: "\<And>u. builder_translate b m u =
      (case requested rs u of None \<Rightarrow> None | Some (p, v, flags) \<Rightarrow> Some (Page (page_entry_for flags p)))"
    using s by (auto simp: mapped_so_far_def)
  have "builder_translate b' m' u = (case requested (rs @ qs) u of None \<Rightarrow> None
      | Some (p, v, flags) \<Rightarrow> Some (Page (page_entry_for flags p)))" for u
  proof (cases "requested qs u")
    case None
    then show ?thesis using builder_maps_translate [OF inv run, of u] tr[of u]
      by (simp add: requested_append split: option.splits)
  next
    case (Some x)
    obtain p v flags where x: "x = (p, v, flags)" by (cases x)
    have q: "(p, v, flags) \<in> set qs" "same_page u v"
      using Some x by (auto simp: requested_def find_Some_iff in_set_conv_nth)
    have "builder_translate b m u = builder_translate b m v"
      unfolding builder_translate_def by (rule translate_same_page [OF q(2)])
    then have "requested rs u = None"
      using builder_maps_unmapped [OF inv run q(1)] tr[of u] by (auto split: option.splits)
    then show ?thesis using builder_maps_translate [OF inv run, of u] Some x by (simp add: requested_append)
  qed
  then show ?thesis using builder_maps_inv [OF run inv] slot by (simp add: mapped_so_far_def)
qed

lemma mapped_so_far_pool:
  assumes "mapped_so_far taken rs b m" "taken (pool m) \<subseteq> taken s"
  shows "mapped_so_far taken rs b (m\<lparr> pool := s \<rparr>)"
proof -
  have view: "local_view mp (m\<lparr> pool := s \<rparr>) = local_view mp m" for mp
    by (auto simp: local_view_def fun_eq_iff split: table_ref.split)
  have "builder_inv taken b m \<Longrightarrow> builder_inv taken b (m\<lparr> pool := s \<rparr>)"
    using assms(2) by (auto simp: builder_inv_def map_inv_def view local_prot_def local_ok_def elim: tree_mono)
  then show ?thesis using assms(1) by (auto simp: mapped_so_far_def builder_translate_def view)
qed

lemma mapped_so_far_finish:
  assumes s: "mapped_so_far taken rs b m" and fin: "builder_finish b m = Ret (Inr (pml4, mapper), m')"
  shows "kernel_inv taken mapper (switch_to_kernel pml4 m')"
    and "canonical u \<Longrightarrow> pml4_index (vaddr_info u) \<noteq> boot_recursion_index \<Longrightarrow>
      mmu_frame (frames (switch_to_kernel pml4 m')) pml4 u =
        map_option (\<lambda>(p, v, flags). p AND NODE_ADDRESS_MASK) (requested rs u)"
proof -
  have b: "builder_inv taken b m" "builder_slot b = boot_recursion_index" using s by (auto simp: mapped_so_far_def)
  then have "builder_slot b < 512" by (simp add: boot_recursion_index_def)
  from builder_finish_spec [OF b(1) this] fin b(2)
  have k: "kernel_inv taken mapper (switch_to_kernel pml4 m')" "rm_recursion_index mapper = boot_recursion_index"
    "\<And>u. kernel_translate mapper (switch_to_kernel pml4 m') u = builder_translate b m u"
    by (auto simp: switch_to_kernel_def)
  then show "kernel_inv taken mapper (switch_to_kernel pml4 m')" by simp
  assume u: "canonical u" "pml4_index (vaddr_info u) \<noteq> boot_recursion_index"
  have "mmu_frame (frames (switch_to_kernel pml4 m')) pml4 u = map_option (mapped_frame u) (builder_translate b m u)"
    using mmu_frame_view [OF k(1) _ u(1)] k(2,3) u(2) by (simp add: switch_to_kernel_def)
  with s show "mmu_frame (frames (switch_to_kernel pml4 m')) pml4 u =
      map_option (\<lambda>(p, v, flags). p AND NODE_ADDRESS_MASK) (requested rs u)"
    by (auto simp: mapped_so_far_def page_entry_addr split: option.splits)
qed

lemma builder_maps_append:
  "builder_maps b (xs @ ys) m = bind_exec (builder_maps b xs m) (\<lambda>(b1, m1). builder_maps b1 ys m1)"
proof (induction xs arbitrary: b m)
  case (Cons x xs)
  obtain p v f where x: "x = (p, v, f)" by (cases x)
  show ?case
    by (cases "builder_map b p v f m") (auto simp: x Cons.IH split: sum.splits prod.splits)
qed simp

text \<open>
  When the set-up of the virtual map succeeds and the processor switches to it, the memory
  management unit translates a canonical address outside the recursive slot exactly if its
  page was requested - each segment page, the switcher, the stack, the frame buffer - and
  then to the requested frame; every other address faults.
\<close>

theorem boot_map_translates_requests:
  assumes "fresh_allocator taken alloc" and "cr3 m = None"
    and "boot_virtual_map alloc switcher requests m = Ret (pml4, mapper, m1)"
    and "canonical u" and "pml4_index (vaddr_info u) \<noteq> boot_recursion_index"
  shows "mmu_frame (frames (switch_to_kernel pml4 m1)) pml4 u =
    map_option (\<lambda>(p, v, flags). p AND NODE_ADDRESS_MASK) (requested requests u)"
proof -
  let ?b0 = "builder_new boot_recursion_index (boot_page_table alloc) (\<lambda>p. p)"
  from assms(3) obtain b m2 where run: "builder_maps ?b0 requests m = Ret (b, m2)"
    and fin: "builder_finish b m2 = Ret (Inr (pml4, mapper), m1)"
    by (auto simp: boot_virtual_map_def exec_simps split: if_splits prod.splits)
  from mapped_so_far_maps [OF mapped_so_far_new [OF assms(1,2)] run]
  have "mapped_so_far taken requests b m2" by simp
  from mapped_so_far_finish(2) [OF this fin assms(4,5)] show ?thesis .
qed

text \<open>The allocator that counts frames, and one page mapped over it.\<close>

definition counting_alloc :: "usize \<Rightarrow> paddr option \<times> usize" where
  "counting_alloc n =
     (if n < 0x10000000000 then (Some (push_bit 12 n), n + 1) else (None, n))"

lemma counting_alloc_fresh: "fresh_allocator counted counting_alloc"
  unfolding fresh_allocator_def
proof
  fix n
  show "case counting_alloc n of
      (None, s') \<Rightarrow> counted s' = counted n
    | (Some p, s') \<Rightarrow> page_frame p \<and> p \<notin> counted n \<and> counted s' = insert p (counted n)"
    using counting_source_ok [unfolded page_table_source_def,
        THEN spec [of _ "\<lparr>frames = (\<lambda>_ _. 0), cr3 = None, pool = n\<rparr>"]]
    by (simp add: counting_alloc_def counting_source_def split: if_splits)
qed

lemma boot_page_table_counting: "boot_page_table counting_alloc = counting_source"
  by (rule ext) (simp add: boot_page_table_def counting_alloc_def counting_source_def)

lemma boot_map_translates_requests_witness:
  "\<exists>pml4 mapper m1.
     boot_virtual_map counting_alloc 0x1000 [(0x5000, 0x400000, VF_USER_MODE)] example_machine =
       Ret (pml4, mapper, m1) \<and>
     mmu_frame (frames (switch_to_kernel pml4 m1)) pml4 0x400000 = Some 0x5000"
proof -
  obtain b1 m1 mp m2 where
    "builder_maps example_builder [(0x5000, 0x400000, VF_USER_MODE)] example_machine = Ret (b1, m1)"
    "builder_finish b1 m1 = Ret (Inr (0x4000, mp), m2)"
    using example_run_finish by metis
  then have r: "boot_virtual_map counting_alloc 0x1000 [(0x5000, 0x400000, VF_USER_MODE)]
      example_machine = Ret (0x4000, mp, m2)"
    by (simp add: boot_virtual_map_def boot_page_table_counting example_builder_def
        boot_recursion_index_def PAGE_SIZE_def)
  have "mmu_frame (frames (switch_to_kernel 0x4000 m2)) 0x4000 0x400000 =
      map_option (\<lambda>(p, v, flags). p AND NODE_ADDRESS_MASK)
        (requested [(0x5000, 0x400000, VF_USER_MODE)] 0x400000)"
    by (rule boot_map_translates_requests [OF counting_alloc_fresh _ r example_canonical])
      (simp_all add: example_machine_def example_info boot_recursion_index_def)
  with r example_frames(5) show ?thesis
    by (auto simp: requested_def page_frame_def)
qed

section \<open>The frame buffer\<close>

lemma unat_next_multiple_of:
  fixes x n :: usize
  assumes "0 < unat n" and "unat x + unat n \<le> 2 ^ 64"
  shows "unat (next_multiple_of x n) = (unat x + unat n - 1) div unat n * unat n"
proof -
  let ?x = "unat x" and ?n = "unat n"
  have m: "unat (x mod n) = ?x mod ?n" by (simp add: unat_mod)
  show ?thesis
  proof (cases "?x mod ?n = 0")
    case True
    then have "x mod n = 0" using m by (simp add: unat_eq_0)
    moreover have "(?x + ?n - 1) div ?n = ?x div ?n"
    proof -
      obtain q where q: "?x = ?n * q" using True by (auto simp: mod_eq_0_iff_dvd)
      have "(?n * q + (?n - 1)) div ?n = q" by (rule div_nat_eqI) (use assms(1) in auto)
      moreover have "?x + ?n - 1 = ?n * q + (?n - 1)" using assms(1) q by simp
      ultimately show ?thesis using assms(1) q by simp
    qed
    ultimately show ?thesis
      using True by (simp add: next_multiple_of_def mod_eq_0_iff_dvd)
  next
    case False
    let ?r = "?x mod ?n"
    have r: "?r < ?n" "?r \<le> ?x" using assms(1) by simp_all
    have d: "?x = ?x div ?n * ?n + ?r" by simp
    have "unat (n - x mod n) = ?n - ?r" using r m by (simp add: unat_sub word_le_nat_alt)
    moreover have "unat (x + (n - x mod n)) = ?x + (?n - ?r)"
      using calculation assms r False by (simp add: unat_word_ariths)
    moreover have "?x + (?n - ?r) = (?x div ?n + 1) * ?n"
      using r minus_mod_eq_div_mult [of ?x ?n] by (simp only: add_mult_distrib)
    moreover have "(?x + ?n - 1) div ?n = ?x div ?n + 1"
    proof -
      have "?x + ?n - 1 = (?x div ?n + 1) * ?n + (?r - 1)" using d r False by simp
      with r show ?thesis by (intro div_nat_eqI) (auto simp: algebra_simps)
    qed
    moreover have "x mod n \<noteq> 0" using False m by (metis unat_0)
    ultimately show ?thesis by (simp add: next_multiple_of_def)
  qed
qed

lemma unat_page_base: "unat (x AND NOT (PAGE_SIZE - 1)) = unat x - unat x mod 4096"
proof -
  have "PAGE_SIZE - 1 = mask 12" by (simp add: PAGE_SIZE_def mask_eq_exp_minus_1)
  moreover have "x AND NOT (mask 12) = push_bit 12 (drop_bit 12 x)"
    by (auto simp: word_eq_bits bit_and_iff bit_not_iff bit_mask_iff bit_push_bit_iff
        bit_drop_bit_eq dest: bit_imp_le_length)
  moreover have "push_bit 12 (drop_bit 12 x) = x - take_bit 12 x"
    using bits_ident [of 12 x] by (simp add: algebra_simps)
  moreover have t: "unat (take_bit 12 x) = unat x mod 4096"
    unfolding unsigned_take_bit_eq by (simp add: take_bit_eq_mod)
  moreover have "take_bit 12 x \<le> x" unfolding word_le_nat_alt t by simp
  ultimately show ?thesis by (simp add: unat_sub)
qed

text \<open>
  The frame buffer is mapped with exactly the pages it overlaps: the number of pages is
  the distance from the page of its first byte to the first page boundary at or after its
  end.
\<close>

theorem frame_buffer_pages_spec:
  assumes "unat fb_phys + unat fb_size + 4096 \<le> 2 ^ 64"
  shows "unat (frame_buffer_pages fb_phys fb_size) =
    (unat fb_phys + unat fb_size + 4095) div 4096 - unat fb_phys div 4096"
proof -
  let ?p = "unat fb_phys" and ?s = "unat fb_size"
  have s: "unat (fb_phys + fb_size) = ?p + ?s" using assms by (simp add: unat_word_ariths)
  have e: "unat (next_multiple_of (fb_phys + fb_size) PAGE_SIZE) = (?p + ?s + 4095) div 4096 * 4096"
    using unat_next_multiple_of [of PAGE_SIZE "fb_phys + fb_size"] assms s
    by (simp add: PAGE_SIZE_def)
  have b: "unat (fb_phys AND NOT (PAGE_SIZE - 1)) = ?p div 4096 * 4096"
    unfolding unat_page_base by (simp add: minus_mod_eq_div_mult)
  have "?p div 4096 * 4096 \<le> (?p + ?s + 4095) div 4096 * 4096"
    by (intro mult_right_mono div_le_mono) simp_all
  then show ?thesis
    using e b
    by (simp add: frame_buffer_pages_def Let_def unat_div unat_sub word_le_nat_alt PAGE_SIZE_def
        flip: diff_mult_distrib)
qed

lemma frame_buffer_pages_spec_witness: "unat (frame_buffer_pages 0x80000010 0x3000) = 4"
  using frame_buffer_pages_spec [of "0x80000010" "0x3000"] by simp

end
