(* ===== verification/Boot_Memory.thy ===== *)
theory Boot_Memory
  imports Page_Entries "HOL-Library.Multiset"
begin

text \<open>
  The memory the bootloader hands to the kernel: the firmware's memory map grouped into
  regions (\<open>bootloader/src/main.rs\<close>,
  \<open>bootinfo/src/lib.rs\<close>).
\<close>

section \<open>Grouping the memory map\<close>

datatype memory_type =
    LOADER_CODE | LOADER_DATA | BOOT_SERVICES_CODE | BOOT_SERVICES_DATA | CONVENTIONAL
  | OtherMemory u32

record memory_descriptor =
  ty :: memory_type
  phys_start :: u64
  page_count :: u64

record memory_region =
  region_base :: paddr
  region_page_count :: usize

definition MAX_MEMORY_REGIONS :: nat where "MAX_MEMORY_REGIONS = 128"

fun usable_type :: "memory_type \<Rightarrow> bool" where
  "usable_type (OtherMemory _) = False"
| "usable_type _ = True"

definition region_of :: "memory_descriptor \<Rightarrow> memory_region" where
  "region_of e = \<lparr> region_base = phys_start e, region_page_count = page_count e \<rparr>"

text \<open>
  The loop over the memory map: the regions written so far and the region being grown. The
  loop stops when the array is full. An entry that does not continue a region of fewer than
  eight pages replaces that region by \<open>None\<close>: it is dropped together with the region.
\<close>

fun group_entries ::
  "memory_descriptor list \<Rightarrow> memory_region list \<Rightarrow> memory_region option \<Rightarrow>
   memory_region list \<times> memory_region option" where
  "group_entries [] out region = (out, region)"
| "group_entries (e # es) out region =
     (if \<not> usable_type (ty e) then group_entries es out region
      else case region of
          None \<Rightarrow> group_entries es out (Some (region_of e))
        | Some reg \<Rightarrow>
            if region_base reg + region_page_count reg * PAGE_SIZE = phys_start e
            then group_entries es out
                   (Some (reg\<lparr> region_page_count := region_page_count reg + page_count e \<rparr>))
            else if 8 \<le> region_page_count reg
            then let out' = out @ [reg] in
                 if length out' = MAX_MEMORY_REGIONS then (out', Some (region_of e))
                 else group_entries es out' (Some (region_of e))
            else group_entries es out None)"

text \<open>
  \<open>sort_unstable_by(|a, b| b.pages.cmp(&a.pages))\<close>: largest first. The order of regions of
  the same size is not specified; the model keeps them in place.
\<close>

definition sort_regions :: "memory_region list \<Rightarrow> memory_region list" where
  "sort_regions = sort_key (\<lambda>r. - uint (region_page_count r))"

definition memory_regions :: "memory_descriptor list \<Rightarrow> memory_region list" where
  "memory_regions entries =
     (case group_entries entries [] None of
        (out, region) \<Rightarrow>
          sort_regions
            (if length out < MAX_MEMORY_REGIONS
             then (case region of Some reg \<Rightarrow> out @ [reg] | None \<Rightarrow> out) else out))"

section \<open>Pages\<close>

definition pages_from :: "paddr \<Rightarrow> usize \<Rightarrow> paddr set" where
  "pages_from a n = {a + of_nat k * PAGE_SIZE | k. k < unat n}"

definition region_pages :: "memory_region \<Rightarrow> paddr set" where
  "region_pages r = pages_from (region_base r) (region_page_count r)"

definition entry_pages :: "memory_descriptor \<Rightarrow> paddr set" where
  "entry_pages e = pages_from (phys_start e) (page_count e)"

lemma region_of_simps [simp]:
  "region_pages (region_of e) = entry_pages e"
  "region_page_count (region_of e) = page_count e"
  by (simp_all add: region_pages_def region_of_def entry_pages_def)

lemma pages_from_append:
  assumes "a + n * PAGE_SIZE = b"
  shows "pages_from a (n + m) \<subseteq> pages_from a n \<union> pages_from b m"
proof
  fix x assume "x \<in> pages_from a (n + m)"
  then obtain k where k: "k < unat (n + m)" "x = a + of_nat k * PAGE_SIZE"
    by (auto simp: pages_from_def)
  have "unat (n + m) \<le> unat n + unat m" by (simp add: unat_word_ariths)
  show "x \<in> pages_from a n \<union> pages_from b m"
  proof (cases "k < unat n")
    case True
    with k show ?thesis by (auto simp: pages_from_def)
  next
    case False
    define j where "j = k - unat n"
    have "j < unat m" using False k(1) \<open>unat (n + m) \<le> unat n + unat m\<close> by (simp add: j_def)
    moreover have "x = b + of_nat j * PAGE_SIZE"
    proof -
      have "k = unat n + j" using False by (simp add: j_def)
      then have "(of_nat k :: usize) = n + of_nat j" by simp
      with k(2) assms show ?thesis by (simp add: algebra_simps)
    qed
    ultimately show ?thesis by (auto simp: pages_from_def)
  qed
qed

text \<open>Ranges of pages that follow each other do not overlap.\<close>

lemma pages_from_bounds:
  assumes "x \<in> pages_from a n" and "unat a + unat n * 4096 \<le> 2 ^ 64"
  shows "unat a \<le> unat x \<and> unat x + 4096 \<le> unat a + unat n * 4096"
proof -
  obtain k where k: "k < unat n" "x = a + of_nat k * PAGE_SIZE"
    using assms(1) by (auto simp: pages_from_def)
  have le: "unat a + k * 4096 + 4096 \<le> unat a + unat n * 4096"
    using k(1) by simp
  have "unat x = (unat a + k * 4096) mod 2 ^ 64"
    by (simp add: k(2) PAGE_SIZE_def unat_word_ariths unat_of_nat mod_simps)
  with le assms(2) have "unat x = unat a + k * 4096" by simp
  with le show ?thesis by simp
qed

lemma pages_apart_below:
  assumes "unat a + unat n * 4096 \<le> unat b" and "unat b + unat m * 4096 \<le> 2 ^ 64"
  shows "pages_from a n \<inter> pages_from b m = {}"
  using pages_from_bounds[of _ a n] pages_from_bounds[of _ b m] assms by fastforce

text \<open>The regions in hand: those written and the one being grown.\<close>

definition in_hand :: "memory_region list \<times> memory_region option \<Rightarrow> memory_region list" where
  "in_hand s = fst s @ (case snd s of None \<Rightarrow> [] | Some r \<Rightarrow> [r])"

definition apart :: "memory_region list \<Rightarrow> bool" where
  "apart = sorted_wrt (\<lambda>r r'. region_pages r \<inter> region_pages r' = {})"

lemma apart_simps [simp]:
  "apart []"
  "apart (rs @ [r]) \<longleftrightarrow> apart rs \<and> (\<forall>r' \<in> set rs. region_pages r' \<inter> region_pages r = {})"
  by (auto simp: apart_def sorted_wrt_append)

text \<open>
  The usable pages of the memory map, and a memory map whose entries do not overlap.
\<close>

definition usable_pages :: "memory_descriptor list \<Rightarrow> paddr set" where
  "usable_pages es = (\<Union>e \<in> {e \<in> set es. usable_type (ty e)}. entry_pages e)"

definition entries_apart :: "memory_descriptor list \<Rightarrow> bool" where
  "entries_apart = sorted_wrt (\<lambda>e e'. entry_pages e \<inter> entry_pages e' = {})"

lemma entries_apart_Cons:
  "entries_apart (e # es) \<Longrightarrow> entries_apart es \<and> entry_pages e \<inter> usable_pages es = {}"
  by (auto simp: entries_apart_def usable_pages_def)

lemma usable_pages_Cons [simp]:
  "usable_pages [] = {}"
  "usable_pages (e # es) =
     (if usable_type (ty e) then entry_pages e \<union> usable_pages es else usable_pages es)"
  by (auto simp: usable_pages_def)

text \<open>
  The invariant of the loop: fewer than 128 regions, written ones with eight pages or more,
  pairwise disjoint, and within the usable pages \<open>P\<close> seen so far.
\<close>

definition group_inv :: "paddr set \<Rightarrow> memory_region list \<times> memory_region option \<Rightarrow> bool" where
  "group_inv P s \<longleftrightarrow>
     length (fst s) \<le> MAX_MEMORY_REGIONS \<and> (\<forall>r \<in> set (fst s). 8 \<le> region_page_count r) \<and>
     apart (in_hand s) \<and> (\<forall>r \<in> set (in_hand s). region_pages r \<subseteq> P)"

lemma group_inv_mono: "group_inv P s \<Longrightarrow> P \<subseteq> Q \<Longrightarrow> group_inv Q s"
  by (auto simp: group_inv_def)

lemma group_inv_drop: "group_inv P (out, region) \<Longrightarrow> group_inv P (out, None)"
  by (cases region) (auto simp: group_inv_def in_hand_def)

lemma group_inv_start:
  assumes "group_inv P (out, None)" and "entry_pages e \<inter> P = {}"
  shows "group_inv (P \<union> entry_pages e) (out, Some (region_of e))"
  using assms by (auto simp: group_inv_def in_hand_def)

lemma group_inv_write:
  assumes "group_inv P (out, Some reg)" and "8 \<le> region_page_count reg"
    and "length out < MAX_MEMORY_REGIONS"
  shows "group_inv P (out @ [reg], None)"
  using assms by (auto simp: group_inv_def in_hand_def)

lemma region_pages_grow:
  assumes "region_base reg + region_page_count reg * PAGE_SIZE = phys_start e"
  shows "region_pages (reg\<lparr> region_page_count := region_page_count reg + page_count e \<rparr>)
    \<subseteq> region_pages reg \<union> entry_pages e"
  using pages_from_append[OF assms] by (simp add: region_pages_def entry_pages_def)

lemma group_inv_grow:
  assumes inv: "group_inv P (out, Some reg)" and sep: "entry_pages e \<inter> P = {}"
    and adj: "region_base reg + region_page_count reg * PAGE_SIZE = phys_start e"
  shows "group_inv (P \<union> entry_pages e)
    (out, Some (reg\<lparr> region_page_count := region_page_count reg + page_count e \<rparr>))"
proof -
  let ?reg = "reg\<lparr> region_page_count := region_page_count reg + page_count e \<rparr>"
  have sub: "region_pages ?reg \<subseteq> region_pages reg \<union> entry_pages e"
    by (rule region_pages_grow[OF adj])
  have out: "region_pages r \<inter> region_pages ?reg = {}" "region_pages r \<subseteq> P" if "r \<in> set out" for r
  proof -
    from that inv have "region_pages r \<inter> region_pages reg = {}" "region_pages r \<subseteq> P"
      by (auto simp: group_inv_def in_hand_def)
    with sub sep show "region_pages r \<inter> region_pages ?reg = {}" "region_pages r \<subseteq> P" by blast+
  qed
  have "region_pages ?reg \<subseteq> P \<union> entry_pages e"
    using sub inv by (auto simp: group_inv_def in_hand_def)
  with out inv show ?thesis by (auto simp: group_inv_def in_hand_def)
qed

text \<open>The loop keeps the invariant; it enters each iteration with room for a region.\<close>

lemma group_entries_inv:
  assumes "group_inv P (out, region)" and "length out < MAX_MEMORY_REGIONS"
    and "entries_apart es" and "usable_pages es \<inter> P = {}"
  shows "group_inv (P \<union> usable_pages es) (group_entries es out region)"
  using assms
proof (induction es out region arbitrary: P rule: group_entries.induct)
  case (1 out region)
  then show ?case by simp
next
  case (2 e es out region)
  show ?case
  proof (cases "usable_type (ty e)")
    case False
    with 2 entries_apart_Cons[OF 2(8)] show ?thesis by simp
  next
    case True
    note IH = "2.IH" and inv = "2.prems"(1) and room = "2.prems"(2)
    have rest: "entries_apart es" "usable_pages es \<inter> (P \<union> entry_pages e) = {}"
        "entry_pages e \<inter> P = {}"
      using entries_apart_Cons[OF "2.prems"(3)] "2.prems"(4) True by auto
    have U: "P \<union> usable_pages (e # es) = (P \<union> entry_pages e) \<union> usable_pages es"
      using True by auto
    show ?thesis
    proof (cases region)
      case None
      show ?thesis unfolding U
        using IH(2)[OF _ None _ room rest(1,2)] group_inv_start[OF inv[unfolded None] rest(3)]
          True None by simp
    next
      case (Some reg)
      note inv' = inv[unfolded Some]
      consider (adjacent) "region_base reg + region_page_count reg * PAGE_SIZE = phys_start e"
        | (full) "region_base reg + region_page_count reg * PAGE_SIZE \<noteq> phys_start e"
            "8 \<le> region_page_count reg" "length (out @ [reg]) = MAX_MEMORY_REGIONS"
        | (next_region) "region_base reg + region_page_count reg * PAGE_SIZE \<noteq> phys_start e"
            "8 \<le> region_page_count reg" "length (out @ [reg]) \<noteq> MAX_MEMORY_REGIONS"
        | (small) "region_base reg + region_page_count reg * PAGE_SIZE \<noteq> phys_start e"
            "\<not> 8 \<le> region_page_count reg"
        by blast
      then show ?thesis
      proof cases
        case adjacent
        show ?thesis unfolding U
          using IH(3)[OF _ Some adjacent group_inv_grow[OF inv' rest(3) adjacent] room rest(1,2)]
            True Some adjacent by simp
      next
        case full
        show ?thesis unfolding U
          using group_inv_mono[OF group_inv_start[OF group_inv_write[OF inv' full(2) room] rest(3)] Un_upper1]
            True Some full by simp
      next
        case next_region
        have "length (out @ [reg]) < MAX_MEMORY_REGIONS" using room next_region(3) by simp
        then show ?thesis unfolding U
          using IH(4)[OF _ Some next_region(1,2) refl next_region(3)
              group_inv_start[OF group_inv_write[OF inv' next_region(2) room] rest(3)] _ rest(1,2)]
            True Some next_region by simp
      next
        case small
        show ?thesis unfolding U
          using IH(5)[OF _ Some small group_inv_mono[OF group_inv_drop[OF inv']] room rest(1,2)]
            True Some small by simp
      qed
    qed
  qed
qed

text \<open>Sorting and the last region.\<close>

lemma apart_perm:
  assumes "mset rs = mset rs'" and "apart rs"
  shows "apart rs'"
proof -
  show ?thesis using assms
  proof (induction rs arbitrary: rs' rule: rev_induct)
    case Nil
    then show ?case by simp
  next
    case (snoc r rs)
    from snoc.prems(1) have "r \<in> set rs'" by (metis in_set_conv_decomp mset_eq_setD)
    then obtain ys zs where rs': "rs' = ys @ r # zs" by (auto dest: split_list)
    with snoc.prems(1) have "mset rs = mset (ys @ zs)" by simp
    moreover from this have "set rs = set (ys @ zs)" by (rule mset_eq_setD)
    ultimately have "apart (ys @ zs)" "\<forall>r' \<in> set (ys @ zs). region_pages r' \<inter> region_pages r = {}"
      using snoc.IH[of "ys @ zs"] snoc.prems(2) by simp_all
    then show ?case unfolding rs' by (auto simp: apart_def sorted_wrt_append)
  qed
qed

lemma sort_regions_simps [simp]:
  "length (sort_regions rs) = length rs"
  "set (sort_regions rs) = set rs"
  "mset (sort_regions rs) = mset rs"
  "apart (sort_regions rs) = apart rs"
  by (auto simp: sort_regions_def intro: apart_perm[rotated])

lemma sort_regions_descending:
  "sorted_wrt (\<lambda>r r'. region_page_count r' \<le> region_page_count r) (sort_regions rs)"
proof -
  have "sorted (map (\<lambda>r. - uint (region_page_count r)) (sort_regions rs))"
    by (simp add: sort_regions_def)
  then show ?thesis by (simp add: sorted_map word_le_def)
qed

lemma memory_regions_eq:
  assumes "entries_apart es"
  obtains out region where "group_entries es [] None = (out, region)"
    and "group_inv (usable_pages es) (out, region)"
    and "memory_regions es = sort_regions
      (if length out < MAX_MEMORY_REGIONS then in_hand (out, region) else out)"
proof -
  obtain out region where g: "group_entries es [] None = (out, region)" by force
  have "group_inv ({} \<union> usable_pages es) (group_entries es [] None)"
    by (rule group_entries_inv)
      (use assms in \<open>auto simp: group_inv_def in_hand_def MAX_MEMORY_REGIONS_def\<close>)
  with g show thesis
    by (intro that[of out region]) (auto simp: memory_regions_def in_hand_def split: option.splits)
qed

section \<open>What the kernel is given\<close>

text \<open>
  C14: of a memory map whose entries do not overlap, the kernel is given at most 128 regions,
  largest first, that do not overlap and hold only pages of usable entries; at most one of
  them has fewer than eight pages.
\<close>

theorem memory_regions_sound:
  assumes "entries_apart es"
  shows "length (memory_regions es) \<le> MAX_MEMORY_REGIONS
    \<and> sorted_wrt (\<lambda>r r'. region_page_count r' \<le> region_page_count r) (memory_regions es)
    \<and> apart (memory_regions es)
    \<and> (\<forall>r \<in> set (memory_regions es). region_pages r \<subseteq> usable_pages es)
    \<and> length (filter (\<lambda>r. region_page_count r < 8) (memory_regions es)) \<le> 1"
proof -
  from assms obtain out region where inv: "group_inv (usable_pages es) (out, region)"
    and eq: "memory_regions es = sort_regions
      (if length out < MAX_MEMORY_REGIONS then in_hand (out, region) else out)"
    by (rule memory_regions_eq)
  have "filter (\<lambda>r. region_page_count r < 8) out = []"
    using inv by (auto simp: group_inv_def filter_empty_conv)
  moreover have "length (filter P (sort_regions rs)) = length (filter P rs)" for P rs
    by (simp add: sort_regions_def filter_sort)
  ultimately have small: "length (filter (\<lambda>r. region_page_count r < 8) (memory_regions es)) \<le> 1"
    by (auto simp: eq in_hand_def split: option.splits)
  have parts: "length out \<le> MAX_MEMORY_REGIONS" "apart (in_hand (out, region))" "apart out"
    "\<forall>r \<in> set (in_hand (out, region)). region_pages r \<subseteq> usable_pages es"
    "\<forall>r \<in> set out. region_pages r \<subseteq> usable_pages es"
    using inv by (auto simp: group_inv_def in_hand_def split: option.splits)
  have "length (in_hand (out, region)) \<le> Suc (length out)"
    by (simp add: in_hand_def split: option.splits)
  with parts small show ?thesis
    by (auto simp: eq sort_regions_descending split: if_splits)
qed

definition example_entries :: "memory_descriptor list" where
  "example_entries =
     [\<lparr> ty = CONVENTIONAL, phys_start = 0x100000, page_count = 16 \<rparr>,
      \<lparr> ty = OtherMemory 9, phys_start = 0x110000, page_count = 4 \<rparr>,
      \<lparr> ty = LOADER_DATA, phys_start = 0x114000, page_count = 32 \<rparr>,
      \<lparr> ty = CONVENTIONAL, phys_start = 0x134000, page_count = 32 \<rparr>]"

theorem memory_regions_sound_witness:
  "entries_apart example_entries \<and> length (memory_regions example_entries) \<le> MAX_MEMORY_REGIONS"
proof -
  have "entries_apart example_entries"
    by (simp add: entries_apart_def example_entries_def entry_pages_def pages_apart_below
        PAGE_SIZE_def)
  with memory_regions_sound[OF this] show ?thesis by simp
qed

text \<open>
  A memory map of large entries loses nothing. The hypotheses on the entries still to come:
  eight pages or more each, and not so many pages that a count could wrap.
\<close>

definition total_pages :: "memory_descriptor list \<Rightarrow> nat" where
  "total_pages es = sum_list (map (\<lambda>e. unat (page_count e)) (filter (\<lambda>e. usable_type (ty e)) es))"

definition covered :: "memory_region list \<times> memory_region option \<Rightarrow> paddr set" where
  "covered s = (\<Union>r \<in> set (in_hand s). region_pages r)"

lemma total_pages_Cons [simp]:
  "total_pages [] = 0"
  "total_pages (e # es) =
     (if usable_type (ty e) then unat (page_count e) + total_pages es else total_pages es)"
  by (auto simp: total_pages_def)

lemma covered_simps [simp]:
  "covered (out, Some r) = covered (out, None) \<union> region_pages r"
  "covered (out @ [r], None) = covered (out, None) \<union> region_pages r"
  "covered ([], None) = {}"
  by (auto simp: covered_def in_hand_def)

lemma length_in_hand [simp]:
  "length (in_hand (out, None)) = length out"
  "length (in_hand (out, Some r)) = Suc (length out)"
  by (simp_all add: in_hand_def)

lemma pages_from_append_eq:
  assumes "a + n * PAGE_SIZE = b" and "unat n + unat m < 2 ^ 64"
  shows "pages_from a (n + m) = pages_from a n \<union> pages_from b m"
proof
  have nm: "unat (n + m) = unat n + unat m"
    using assms(2) by (simp add: unat_word_ariths)
  have "b + of_nat j * PAGE_SIZE \<in> pages_from a (n + m)" if "j < unat m" for j
    unfolding pages_from_def nm
    using assms(1) that by (auto simp: algebra_simps intro!: exI[where x = "unat n + j"])
  then show "pages_from a n \<union> pages_from b m \<subseteq> pages_from a (n + m)"
    by (auto simp: pages_from_def nm intro: trans_less_add1)
qed (rule pages_from_append[OF assms(1)])

lemma group_entries_covers:
  assumes "\<forall>e \<in> set es. usable_type (ty e) \<longrightarrow> 8 \<le> page_count e"
    and "\<forall>reg. region = Some reg \<longrightarrow> 8 \<le> region_page_count reg
           \<and> unat (region_page_count reg) + total_pages es < 2 ^ 64"
    and "total_pages es < 2 ^ 64"
    and "length (in_hand (out, region)) + length (filter (\<lambda>e. usable_type (ty e)) es)
           \<le> MAX_MEMORY_REGIONS"
  shows "covered (group_entries es out region) = covered (out, region) \<union> usable_pages es
    \<and> length (in_hand (group_entries es out region)) \<le> MAX_MEMORY_REGIONS"
  using assms
proof (induction es out region rule: group_entries.induct)
  case (1 out region)
  then show ?case by simp
next
  case (2 e es out region)
  show ?case
  proof (cases "usable_type (ty e)")
    case False
    with 2 show ?thesis by simp
  next
    case True
    note IH = "2.IH" and prems = "2.prems"
    show ?thesis
    proof (cases region)
      case None
      with True prems IH(2)[OF _ None] show ?thesis by auto
    next
      case (Some reg)
      from prems(2) Some True have reg: "8 \<le> region_page_count reg"
          "unat (region_page_count reg) + unat (page_count e) < 2 ^ 64"
          "unat (region_page_count reg) + unat (page_count e) + total_pages es < 2 ^ 64"
        by auto
      have sum: "unat (region_page_count reg + page_count e)
          = unat (region_page_count reg) + unat (page_count e)"
        using reg(2) by (simp add: unat_word_ariths)
      show ?thesis
      proof (cases "region_base reg + region_page_count reg * PAGE_SIZE = phys_start e")
        case adj: True
        have grown: "region_pages (reg\<lparr> region_page_count := region_page_count reg + page_count e \<rparr>)
            = region_pages reg \<union> entry_pages e"
          using pages_from_append_eq[OF adj reg(2)] by (simp add: region_pages_def entry_pages_def)
        have "8 \<le> region_page_count reg + page_count e"
          using reg(1) sum by (simp add: word_le_nat_alt)
        with IH(3)[OF _ Some adj] prems True Some adj grown sum reg(3) show ?thesis
          by (auto simp: Un_assoc)
      next
        case far: False
        have "length (out @ [reg]) \<noteq> MAX_MEMORY_REGIONS"
          using prems(4) Some True by simp
        with IH(4)[OF _ Some far reg(1) refl] prems True Some far reg show ?thesis
          by (auto simp: Un_assoc)
      qed
    qed
  qed
qed

text \<open>
  C30: of a memory map of at most 128 usable entries, each of eight pages or more, nothing is
  lost: the regions given to the kernel hold exactly the usable pages.
\<close>

theorem memory_regions_complete:
  assumes "\<forall>e \<in> set es. usable_type (ty e) \<longrightarrow> 8 \<le> page_count e"
    and "total_pages es < 2 ^ 64"
    and "length (filter (\<lambda>e. usable_type (ty e)) es) \<le> MAX_MEMORY_REGIONS"
  shows "(\<Union>r \<in> set (memory_regions es). region_pages r) = usable_pages es"
proof -
  obtain out region where g: "group_entries es [] None = (out, region)" by force
  from group_entries_covers[of es None "[]"] assms g
  have "covered (out, region) = usable_pages es" "length (in_hand (out, region)) \<le> MAX_MEMORY_REGIONS"
    by simp_all
  moreover have "memory_regions es = sort_regions (in_hand (out, region))"
    using g \<open>length (in_hand (out, region)) \<le> MAX_MEMORY_REGIONS\<close>
    by (auto simp: memory_regions_def in_hand_def split: option.splits)
  ultimately show ?thesis by (simp add: covered_def)
qed

theorem memory_regions_complete_witness:
  "(\<Union>r \<in> set (memory_regions (tl example_entries)). region_pages r)
     = entry_pages \<lparr> ty = LOADER_DATA, phys_start = 0x114000, page_count = 32 \<rparr>
       \<union> entry_pages \<lparr> ty = CONVENTIONAL, phys_start = 0x134000, page_count = 32 \<rparr>"
  by (subst memory_regions_complete) (auto simp: example_entries_def MAX_MEMORY_REGIONS_def)

text \<open>
  An entry that follows a region of fewer than eight pages without continuing it is
  dropped together with that region, however large it is.
\<close>

theorem small_region_drops_next_entry:
  assumes "usable_type (ty e)" and "usable_type (ty e')"
    and "page_count e < 8" and "phys_start e + page_count e * PAGE_SIZE \<noteq> phys_start e'"
  shows "memory_regions (e # e' # es) = memory_regions es"
  using assms by (simp add: memory_regions_def region_of_def flip: not_less)

theorem small_region_drops_next_entry_witness:
  "memory_regions
     [\<lparr> ty = CONVENTIONAL, phys_start = 0x1000, page_count = 2 \<rparr>,
      \<lparr> ty = CONVENTIONAL, phys_start = 0x100000, page_count = 0x10000 \<rparr>] = []"
  by (subst small_region_drops_next_entry) (simp_all add: PAGE_SIZE_def memory_regions_def sort_regions_def)

end
