(* ===== verification/Boot_Display.thy ===== *)
theory Boot_Display
  imports Page_Entries
begin

text \<open>
  The choice of the display mode and the description of the display the kernel is given
  (\<open>bootloader/src/main.rs\<close>, \<open>bootinfo/src/lib.rs\<close>).
\<close>

section \<open>Display modes\<close>

text \<open>The pixel formats of the firmware and of the boot information.\<close>

datatype gop_pixel_format = Rgb | Bgr | Bitmask | BltOnly

record mode_info =
  resolution :: "usize \<times> usize"
  mode_stride :: usize
  mode_pixel_format :: gop_pixel_format

datatype pixel_format = RGB_8_BIT | BGR_8_BIT | BIT_MASK | BLT_ONLY

record graphics_info =
  gi_w :: usize
  gi_h :: usize
  gi_stride :: usize
  gi_pixel_format :: pixel_format
  frame_buffer :: usize
  frame_buffer_size :: usize

definition mode_area :: "mode_info \<Rightarrow> usize" where
  "mode_area i = fst (resolution i) * snd (resolution i)"

fun select_mode :: "mode_info list \<Rightarrow> usize \<Rightarrow> mode_info option \<Rightarrow> mode_info option" where
  "select_mode [] max_area max_mode = max_mode"
| "select_mode (i # is) max_area max_mode =
     (if max_mode = None \<or> max_area < mode_area i
      then select_mode is (mode_area i) (Some i)
      else select_mode is max_area max_mode)"

definition choose_mode :: "mode_info list \<Rightarrow> mode_info exec" where
  "choose_mode modes =
     (case select_mode modes 0 None of
        None \<Rightarrow> Panic ''called `Option::unwrap()` on a `None` value''
      | Some i \<Rightarrow> Ret i)"

fun convert_pixel_format :: "gop_pixel_format \<Rightarrow> pixel_format" where
  "convert_pixel_format Rgb = RGB_8_BIT"
| "convert_pixel_format Bgr = BGR_8_BIT"
| "convert_pixel_format Bitmask = BIT_MASK"
| "convert_pixel_format BltOnly = BLT_ONLY"

definition boot_graphics_info :: "mode_info \<Rightarrow> usize \<Rightarrow> usize \<Rightarrow> graphics_info" where
  "boot_graphics_info i frame_buffer_ptr fb_size =
     \<lparr> gi_w = fst (resolution i), gi_h = snd (resolution i), gi_stride = mode_stride i,
       gi_pixel_format = convert_pixel_format (mode_pixel_format i),
       frame_buffer = frame_buffer_ptr, frame_buffer_size = fb_size \<rparr>"

lemma select_mode_Some:
  "select_mode is a (Some i) = Some j \<Longrightarrow> a = mode_area i \<Longrightarrow>
     (\<exists>as bs. i # is = as @ j # bs \<and> (\<forall>k \<in> set as. mode_area k < mode_area j)
        \<and> (\<forall>k \<in> set bs. mode_area k \<le> mode_area j))"
proof (induction "is" arbitrary: a i)
  case Nil
  then show ?case by (auto intro: exI[where x = "[]"])
next
  case (Cons k ks)
  show ?case
  proof (cases "mode_area i < mode_area k")
    case True
    with Cons.prems have "select_mode ks (mode_area k) (Some k) = Some j" by simp
    from Cons.IH[OF this refl] obtain as bs where
      *: "k # ks = as @ j # bs" "\<forall>k \<in> set as. mode_area k < mode_area j"
         "\<forall>k \<in> set bs. mode_area k \<le> mode_area j" by auto
    then have "mode_area k \<le> mode_area j" by (cases as) auto
    with * True show ?thesis by (intro exI[where x = "i # as"] exI[where x = bs]) auto
  next
    case False
    with Cons.prems have "select_mode ks a (Some i) = Some j" by simp
    from Cons.IH[OF this] Cons.prems(2) obtain as bs where
      *: "i # ks = as @ j # bs" "\<forall>k \<in> set as. mode_area k < mode_area j"
         "\<forall>k \<in> set bs. mode_area k \<le> mode_area j" by auto
    show ?thesis
    proof (cases as)
      case Nil
      with * False show ?thesis by (intro exI[where x = "[]"] exI[where x = "k # bs"]) auto
    next
      case (Cons i' as')
      with * False show ?thesis
        by (intro exI[where x = "i # k # as'"] exI[where x = bs]) auto
    qed
  qed
qed

lemma select_mode_not_None [simp]: "select_mode is a (Some i) \<noteq> None"
  by (induction "is" arbitrary: a i) auto

text \<open>
  The bootloader sets the first of the display modes with the largest area, whatever
  their order; it panics exactly when the firmware offers none.
\<close>

theorem choose_mode_first_largest:
  "(modes = [] \<longrightarrow> \<not> is_ret (choose_mode modes)) \<and>
   (modes \<noteq> [] \<longrightarrow> (\<exists>as i bs. choose_mode modes = Ret i \<and> modes = as @ i # bs
      \<and> (\<forall>k \<in> set as. mode_area k < mode_area i) \<and> (\<forall>k \<in> set bs. mode_area k \<le> mode_area i)))"
proof (cases modes)
  case Nil
  then show ?thesis by (simp add: choose_mode_def)
next
  case (Cons i "is")
  obtain j where j: "select_mode is (mode_area i) (Some i) = Some j"
    by (metis not_Some_eq select_mode_not_None)
  with select_mode_Some[OF j refl] Cons show ?thesis by (auto simp: choose_mode_def)
qed

theorem choose_mode_first_largest_witness:
  "\<exists>as i bs.
     [\<lparr> resolution = (640, 480), mode_stride = 640, mode_pixel_format = Bgr \<rparr>] = as @ i # bs
     \<and> (\<forall>k \<in> set as. mode_area k < mode_area i)"
  using choose_mode_first_largest
    [of "[\<lparr> resolution = (640, 480), mode_stride = 640, mode_pixel_format = Bgr \<rparr>]"]
  by blast

end
