(* ===== verification/Display.thy ===== *)
theory Display
  imports Boot_Display
begin

text \<open>
  The text display of the kernel (\<open>kernel/src/rendering.rs\<close>): the font, the cursor, the
  characters painted into the frame buffer, and \<open>write_str\<close>. The frame buffer is a list of
  32-bit pixels; an index outside it is undefined behaviour. Arithmetic wraps, as in the
  release profile the kernel is built with.
\<close>

section \<open>The font\<close>

definition FONT_HEIGHT :: nat where "FONT_HEIGHT = 13"
definition FONT_WIDTH :: nat where "FONT_WIDTH = 8"
definition VERTICAL_SPACING :: nat where "VERTICAL_SPACING = 3"
definition HORIZONTAL_SPACING :: nat where "HORIZONTAL_SPACING = 1"

definition FONT :: "u8 list list" where
  "FONT =
    [[0x00, 0x00, 0x00, 0x00, 0x00, 0x00, 0x00, 0x00, 0x00, 0x00, 0x00, 0x00, 0x00],
     [0x00, 0x00, 0x18, 0x18, 0x00, 0x00, 0x18, 0x18, 0x18, 0x18, 0x18, 0x18, 0x18],
     [0x00, 0x00, 0x00, 0x00, 0x00, 0x00, 0x00, 0x00, 0x00, 0x36, 0x36, 0x36, 0x36],
     [0x00, 0x00, 0x00, 0x66, 0x66, 0xff, 0x66, 0x66, 0xff, 0x66, 0x66, 0x00, 0x00],
     [0x00, 0x00, 0x18, 0x7e, 0xff, 0x1b, 0x1f, 0x7e, 0xf8, 0xd8, 0xff, 0x7e, 0x18],
     [0x00, 0x00, 0x0e, 0x1b, 0xdb, 0x6e, 0x30, 0x18, 0x0c, 0x76, 0xdb, 0xd8, 0x70],
     [0x00, 0x00, 0x7f, 0xc6, 0xcf, 0xd8, 0x70, 0x70, 0xd8, 0xcc, 0xcc, 0x6c, 0x38],
     [0x00, 0x00, 0x00, 0x00, 0x00, 0x00, 0x00, 0x00, 0x00, 0x18, 0x1c, 0x0c, 0x0e],
     [0x00, 0x00, 0x0c, 0x18, 0x30, 0x30, 0x30, 0x30, 0x30, 0x30, 0x30, 0x18, 0x0c],
     [0x00, 0x00, 0x30, 0x18, 0x0c, 0x0c, 0x0c, 0x0c, 0x0c, 0x0c, 0x0c, 0x18, 0x30],
     [0x00, 0x00, 0x00, 0x00, 0x99, 0x5a, 0x3c, 0xff, 0x3c, 0x5a, 0x99, 0x00, 0x00],
     [0x00, 0x00, 0x00, 0x18, 0x18, 0x18, 0xff, 0xff, 0x18, 0x18, 0x18, 0x00, 0x00],
     [0x00, 0x00, 0x30, 0x18, 0x1c, 0x1c, 0x00, 0x00, 0x00, 0x00, 0x00, 0x00, 0x00],
     [0x00, 0x00, 0x00, 0x00, 0x00, 0x00, 0xff, 0xff, 0x00, 0x00, 0x00, 0x00, 0x00],
     [0x00, 0x00, 0x00, 0x38, 0x38, 0x00, 0x00, 0x00, 0x00, 0x00, 0x00, 0x00, 0x00],
     [0x00, 0x60, 0x60, 0x30, 0x30, 0x18, 0x18, 0x0c, 0x0c, 0x06, 0x06, 0x03, 0x03],
     [0x00, 0x00, 0x3c, 0x66, 0xc3, 0xe3, 0xf3, 0xdb, 0xcf, 0xc7, 0xc3, 0x66, 0x3c],
     [0x00, 0x00, 0x7e, 0x18, 0x18, 0x18, 0x18, 0x18, 0x18, 0x18, 0x78, 0x38, 0x18],
     [0x00, 0x00, 0xff, 0xc0, 0xc0, 0x60, 0x30, 0x18, 0x0c, 0x06, 0x03, 0xe7, 0x7e],
     [0x00, 0x00, 0x7e, 0xe7, 0x03, 0x03, 0x07, 0x7e, 0x07, 0x03, 0x03, 0xe7, 0x7e],
     [0x00, 0x00, 0x0c, 0x0c, 0x0c, 0x0c, 0x0c, 0xff, 0xcc, 0x6c, 0x3c, 0x1c, 0x0c],
     [0x00, 0x00, 0x7e, 0xe7, 0x03, 0x03, 0x07, 0xfe, 0xc0, 0xc0, 0xc0, 0xc0, 0xff],
     [0x00, 0x00, 0x7e, 0xe7, 0xc3, 0xc3, 0xc7, 0xfe, 0xc0, 0xc0, 0xc0, 0xe7, 0x7e],
     [0x00, 0x00, 0x30, 0x30, 0x30, 0x30, 0x18, 0x0c, 0x06, 0x03, 0x03, 0x03, 0xff],
     [0x00, 0x00, 0x7e, 0xe7, 0xc3, 0xc3, 0xe7, 0x7e, 0xe7, 0xc3, 0xc3, 0xe7, 0x7e],
     [0x00, 0x00, 0x7e, 0xe7, 0x03, 0x03, 0x03, 0x7f, 0xe7, 0xc3, 0xc3, 0xe7, 0x7e],
     [0x00, 0x00, 0x00, 0x38, 0x38, 0x00, 0x00, 0x38, 0x38, 0x00, 0x00, 0x00, 0x00],
     [0x00, 0x00, 0x30, 0x18, 0x1c, 0x1c, 0x00, 0x00, 0x1c, 0x1c, 0x00, 0x00, 0x00],
     [0x00, 0x00, 0x06, 0x0c, 0x18, 0x30, 0x60, 0xc0, 0x60, 0x30, 0x18, 0x0c, 0x06],
     [0x00, 0x00, 0x00, 0x00, 0xff, 0xff, 0x00, 0xff, 0xff, 0x00, 0x00, 0x00, 0x00],
     [0x00, 0x00, 0x60, 0x30, 0x18, 0x0c, 0x06, 0x03, 0x06, 0x0c, 0x18, 0x30, 0x60],
     [0x00, 0x00, 0x18, 0x00, 0x00, 0x18, 0x18, 0x0c, 0x06, 0x03, 0xc3, 0xc3, 0x7e],
     [0x00, 0x00, 0x3f, 0x60, 0xcf, 0xdb, 0xd3, 0xdd, 0xc3, 0x7e, 0x00, 0x00, 0x00],
     [0x00, 0x00, 0xc3, 0xc3, 0xc3, 0xc3, 0xff, 0xc3, 0xc3, 0xc3, 0x66, 0x3c, 0x18],
     [0x00, 0x00, 0xfe, 0xc7, 0xc3, 0xc3, 0xc7, 0xfe, 0xc7, 0xc3, 0xc3, 0xc7, 0xfe],
     [0x00, 0x00, 0x7e, 0xe7, 0xc0, 0xc0, 0xc0, 0xc0, 0xc0, 0xc0, 0xc0, 0xe7, 0x7e],
     [0x00, 0x00, 0xfc, 0xce, 0xc7, 0xc3, 0xc3, 0xc3, 0xc3, 0xc3, 0xc7, 0xce, 0xfc],
     [0x00, 0x00, 0xff, 0xc0, 0xc0, 0xc0, 0xc0, 0xfc, 0xc0, 0xc0, 0xc0, 0xc0, 0xff],
     [0x00, 0x00, 0xc0, 0xc0, 0xc0, 0xc0, 0xc0, 0xc0, 0xfc, 0xc0, 0xc0, 0xc0, 0xff],
     [0x00, 0x00, 0x7e, 0xe7, 0xc3, 0xc3, 0xcf, 0xc0, 0xc0, 0xc0, 0xc0, 0xe7, 0x7e],
     [0x00, 0x00, 0xc3, 0xc3, 0xc3, 0xc3, 0xc3, 0xff, 0xc3, 0xc3, 0xc3, 0xc3, 0xc3],
     [0x00, 0x00, 0x7e, 0x18, 0x18, 0x18, 0x18, 0x18, 0x18, 0x18, 0x18, 0x18, 0x7e],
     [0x00, 0x00, 0x7c, 0xee, 0xc6, 0x06, 0x06, 0x06, 0x06, 0x06, 0x06, 0x06, 0x06],
     [0x00, 0x00, 0xc3, 0xc6, 0xcc, 0xd8, 0xf0, 0xe0, 0xf0, 0xd8, 0xcc, 0xc6, 0xc3],
     [0x00, 0x00, 0xff, 0xc0, 0xc0, 0xc0, 0xc0, 0xc0, 0xc0, 0xc0, 0xc0, 0xc0, 0xc0],
     [0x00, 0x00, 0xc3, 0xc3, 0xc3, 0xc3, 0xc3, 0xc3, 0xdb, 0xff, 0xff, 0xe7, 0xc3],
     [0x00, 0x00, 0xc7, 0xc7, 0xcf, 0xcf, 0xdf, 0xdb, 0xfb, 0xf3, 0xf3, 0xe3, 0xe3],
     [0x00, 0x00, 0x7e, 0xe7, 0xc3, 0xc3, 0xc3, 0xc3, 0xc3, 0xc3, 0xc3, 0xe7, 0x7e],
     [0x00, 0x00, 0xc0, 0xc0, 0xc0, 0xc0, 0xc0, 0xfe, 0xc7, 0xc3, 0xc3, 0xc7, 0xfe],
     [0x00, 0x00, 0x3f, 0x6e, 0xdf, 0xdb, 0xc3, 0xc3, 0xc3, 0xc3, 0xc3, 0x66, 0x3c],
     [0x00, 0x00, 0xc3, 0xc6, 0xcc, 0xd8, 0xf0, 0xfe, 0xc7, 0xc3, 0xc3, 0xc7, 0xfe],
     [0x00, 0x00, 0x7e, 0xe7, 0x03, 0x03, 0x07, 0x7e, 0xe0, 0xc0, 0xc0, 0xe7, 0x7e],
     [0x00, 0x00, 0x18, 0x18, 0x18, 0x18, 0x18, 0x18, 0x18, 0x18, 0x18, 0x18, 0xff],
     [0x00, 0x00, 0x7e, 0xe7, 0xc3, 0xc3, 0xc3, 0xc3, 0xc3, 0xc3, 0xc3, 0xc3, 0xc3],
     [0x00, 0x00, 0x18, 0x3c, 0x3c, 0x66, 0x66, 0xc3, 0xc3, 0xc3, 0xc3, 0xc3, 0xc3],
     [0x00, 0x00, 0xc3, 0xe7, 0xff, 0xff, 0xdb, 0xdb, 0xc3, 0xc3, 0xc3, 0xc3, 0xc3],
     [0x00, 0x00, 0xc3, 0x66, 0x66, 0x3c, 0x3c, 0x18, 0x3c, 0x3c, 0x66, 0x66, 0xc3],
     [0x00, 0x00, 0x18, 0x18, 0x18, 0x18, 0x18, 0x18, 0x3c, 0x3c, 0x66, 0x66, 0xc3],
     [0x00, 0x00, 0xff, 0xc0, 0xc0, 0x60, 0x30, 0x7e, 0x0c, 0x06, 0x03, 0x03, 0xff],
     [0x00, 0x00, 0x3c, 0x30, 0x30, 0x30, 0x30, 0x30, 0x30, 0x30, 0x30, 0x30, 0x3c],
     [0x00, 0x03, 0x03, 0x06, 0x06, 0x0c, 0x0c, 0x18, 0x18, 0x30, 0x30, 0x60, 0x60],
     [0x00, 0x00, 0x3c, 0x0c, 0x0c, 0x0c, 0x0c, 0x0c, 0x0c, 0x0c, 0x0c, 0x0c, 0x3c],
     [0x00, 0x00, 0x00, 0x00, 0x00, 0x00, 0x00, 0x00, 0x00, 0xc3, 0x66, 0x3c, 0x18],
     [0xff, 0xff, 0x00, 0x00, 0x00, 0x00, 0x00, 0x00, 0x00, 0x00, 0x00, 0x00, 0x00],
     [0x00, 0x00, 0x00, 0x00, 0x00, 0x00, 0x00, 0x00, 0x00, 0x18, 0x38, 0x30, 0x70],
     [0x00, 0x00, 0x7f, 0xc3, 0xc3, 0x7f, 0x03, 0xc3, 0x7e, 0x00, 0x00, 0x00, 0x00],
     [0x00, 0x00, 0xfe, 0xc3, 0xc3, 0xc3, 0xc3, 0xfe, 0xc0, 0xc0, 0xc0, 0xc0, 0xc0],
     [0x00, 0x00, 0x7e, 0xc3, 0xc0, 0xc0, 0xc0, 0xc3, 0x7e, 0x00, 0x00, 0x00, 0x00],
     [0x00, 0x00, 0x7f, 0xc3, 0xc3, 0xc3, 0xc3, 0x7f, 0x03, 0x03, 0x03, 0x03, 0x03],
     [0x00, 0x00, 0x7f, 0xc0, 0xc0, 0xfe, 0xc3, 0xc3, 0x7e, 0x00, 0x00, 0x00, 0x00],
     [0x00, 0x00, 0x30, 0x30, 0x30, 0x30, 0x30, 0xfc, 0x30, 0x30, 0x30, 0x33, 0x1e],
     [0x7e, 0xc3, 0x03, 0x03, 0x7f, 0xc3, 0xc3, 0xc3, 0x7e, 0x00, 0x00, 0x00, 0x00],
     [0x00, 0x00, 0xc3, 0xc3, 0xc3, 0xc3, 0xc3, 0xc3, 0xfe, 0xc0, 0xc0, 0xc0, 0xc0],
     [0x00, 0x00, 0x18, 0x18, 0x18, 0x18, 0x18, 0x18, 0x18, 0x00, 0x00, 0x18, 0x00],
     [0x38, 0x6c, 0x0c, 0x0c, 0x0c, 0x0c, 0x0c, 0x0c, 0x0c, 0x00, 0x00, 0x0c, 0x00],
     [0x00, 0x00, 0xc6, 0xcc, 0xf8, 0xf0, 0xd8, 0xcc, 0xc6, 0xc0, 0xc0, 0xc0, 0xc0],
     [0x00, 0x00, 0x7e, 0x18, 0x18, 0x18, 0x18, 0x18, 0x18, 0x18, 0x18, 0x18, 0x78],
     [0x00, 0x00, 0xdb, 0xdb, 0xdb, 0xdb, 0xdb, 0xdb, 0xfe, 0x00, 0x00, 0x00, 0x00],
     [0x00, 0x00, 0xc6, 0xc6, 0xc6, 0xc6, 0xc6, 0xc6, 0xfc, 0x00, 0x00, 0x00, 0x00],
     [0x00, 0x00, 0x7c, 0xc6, 0xc6, 0xc6, 0xc6, 0xc6, 0x7c, 0x00, 0x00, 0x00, 0x00],
     [0xc0, 0xc0, 0xc0, 0xfe, 0xc3, 0xc3, 0xc3, 0xc3, 0xfe, 0x00, 0x00, 0x00, 0x00],
     [0x03, 0x03, 0x03, 0x7f, 0xc3, 0xc3, 0xc3, 0xc3, 0x7f, 0x00, 0x00, 0x00, 0x00],
     [0x00, 0x00, 0xc0, 0xc0, 0xc0, 0xc0, 0xc0, 0xe0, 0xfe, 0x00, 0x00, 0x00, 0x00],
     [0x00, 0x00, 0xfe, 0x03, 0x03, 0x7e, 0xc0, 0xc0, 0x7f, 0x00, 0x00, 0x00, 0x00],
     [0x00, 0x00, 0x1c, 0x36, 0x30, 0x30, 0x30, 0x30, 0xfc, 0x30, 0x30, 0x30, 0x00],
     [0x00, 0x00, 0x7e, 0xc6, 0xc6, 0xc6, 0xc6, 0xc6, 0xc6, 0x00, 0x00, 0x00, 0x00],
     [0x00, 0x00, 0x18, 0x3c, 0x3c, 0x66, 0x66, 0xc3, 0xc3, 0x00, 0x00, 0x00, 0x00],
     [0x00, 0x00, 0xc3, 0xe7, 0xff, 0xdb, 0xc3, 0xc3, 0xc3, 0x00, 0x00, 0x00, 0x00],
     [0x00, 0x00, 0xc3, 0x66, 0x3c, 0x18, 0x3c, 0x66, 0xc3, 0x00, 0x00, 0x00, 0x00],
     [0xc0, 0x60, 0x60, 0x30, 0x18, 0x3c, 0x66, 0x66, 0xc3, 0x00, 0x00, 0x00, 0x00],
     [0x00, 0x00, 0xff, 0x60, 0x30, 0x18, 0x0c, 0x06, 0xff, 0x00, 0x00, 0x00, 0x00],
     [0x00, 0x00, 0x0f, 0x18, 0x18, 0x18, 0x38, 0xf0, 0x38, 0x18, 0x18, 0x18, 0x0f],
     [0x18, 0x18, 0x18, 0x18, 0x18, 0x18, 0x18, 0x18, 0x18, 0x18, 0x18, 0x18, 0x18],
     [0x00, 0x00, 0xf0, 0x18, 0x18, 0x18, 0x1c, 0x0f, 0x1c, 0x18, 0x18, 0x18, 0xf0],
     [0x00, 0x00, 0x00, 0x00, 0x00, 0x00, 0x06, 0x8f, 0xf1, 0x60, 0x00, 0x00, 0x00]]"

definition get_character :: "u8 \<Rightarrow> u8 list exec" where
  "get_character ascii_code =
     (if ascii_code \<le> 32 then Ret (FONT ! 0)
      else if unat (ascii_code - 32) < length FONT then Ret (FONT ! unat (ascii_code - 32))
      else Panic ''index out of bounds'')"

section \<open>The cursor\<close>

record display_writer =
  graphics :: graphics_info
  line :: usize
  col :: usize

definition columns :: "display_writer \<Rightarrow> usize" where
  "columns d = gi_w (graphics d) div of_nat (FONT_WIDTH + HORIZONTAL_SPACING)"

definition lines :: "display_writer \<Rightarrow> usize" where
  "lines d = gi_h (graphics d) div of_nat (FONT_HEIGHT + VERTICAL_SPACING)"

definition advance_line :: "display_writer \<Rightarrow> display_writer" where
  "advance_line d =
     (let d1 = d\<lparr> col := 0, line := line d + 1 \<rparr>
      in if gi_h (graphics d1) div of_nat (FONT_HEIGHT + VERTICAL_SPACING) \<le> line d1
         then d1\<lparr> line := 0 \<rparr> else d1)"

definition advance_column :: "display_writer \<Rightarrow> display_writer" where
  "advance_column d =
     (let d1 = d\<lparr> col := col d + 1 \<rparr>
      in if gi_w (graphics d1) div of_nat (FONT_WIDTH + HORIZONTAL_SPACING) \<le> col d1
         then advance_line (d1\<lparr> col := 0 \<rparr>) else d1)"

section \<open>Painting\<close>

definition pixel_index :: "display_writer \<Rightarrow> nat \<Rightarrow> nat \<Rightarrow> usize" where
  "pixel_index d y x =
     (let base_x = col d * of_nat (FONT_WIDTH + HORIZONTAL_SPACING);
          base_y = line d * of_nat (FONT_HEIGHT + VERTICAL_SPACING)
      in (base_x + of_nat x) + (base_y + of_nat y) * gi_stride (graphics d))"

definition paint_pixel :: "u8 list \<Rightarrow> nat \<Rightarrow> nat \<Rightarrow> bool" where
  "paint_pixel character y x \<longleftrightarrow> (character ! (FONT_HEIGHT - 1 - y)) AND drop_bit x 0x80 \<noteq> 0"

definition pixel_value :: "u8 list \<Rightarrow> nat \<Rightarrow> nat \<Rightarrow> u32" where
  "pixel_value character y x = (if paint_pixel character y x then 0xBBBBBBBB else 0)"

definition write_volatile :: "usize \<Rightarrow> u32 \<Rightarrow> u32 list \<Rightarrow> u32 list exec" where
  "write_volatile i v buf = (if unat i < length buf then Ret (buf[unat i := v]) else Undefined)"

definition render_pixel ::
  "display_writer \<Rightarrow> u8 list \<Rightarrow> nat \<times> nat \<Rightarrow> u32 list \<Rightarrow> u32 list exec" where
  "render_pixel d character yx buf =
     (case yx of (y, x) \<Rightarrow>
        if gi_pixel_format (graphics d) \<in> {RGB_8_BIT, BGR_8_BIT}
        then write_volatile (pixel_index d y x) (pixel_value character y x) buf
        else Ret buf)"

definition cell_pixels :: "(nat \<times> nat) list" where
  "cell_pixels = List.product [0..<FONT_HEIGHT] [0..<FONT_WIDTH]"

definition render_character ::
  "display_writer \<Rightarrow> u8 list \<Rightarrow> u32 list \<Rightarrow> u32 list exec" where
  "render_character d character buf = fold_exec (render_pixel d character) cell_pixels buf"

section \<open>Writing a string\<close>

text \<open>The loop of a newline: the rest of the line is painted blank.\<close>

function blank_rest ::
  "display_writer \<Rightarrow> u32 list \<Rightarrow> (display_writer \<times> u32 list) exec" where
  "blank_rest d buf =
     (if col d < columns d
      then bind_exec (get_character 0) (\<lambda>g.
             bind_exec (render_character d g buf) (\<lambda>buf1.
               blank_rest (d\<lparr> col := col d + 1 \<rparr>) buf1))
      else Ret (d, buf))"
  by pat_completeness auto
termination
proof (relation "measure (\<lambda>(d, buf). unat (columns d) - unat (col d))")
  fix d :: display_writer and buf g buf1
  assume less: "col d < columns d"
  note unat_add_1_less[OF this]
  with less show "((d\<lparr> col := col d + 1 \<rparr>, buf1), d, buf) \<in> measure (\<lambda>(d, buf). unat (columns d) - unat (col d))"
    by (simp add: columns_def word_less_nat_alt)
qed simp

fun write_byte :: "u8 \<Rightarrow> display_writer \<times> u32 list \<Rightarrow> (display_writer \<times> u32 list) exec" where
  "write_byte c (d, buf) =
     (if c = 10
      then bind_exec (blank_rest d buf) (\<lambda>(d1, buf1). Ret (advance_line d1, buf1))
      else bind_exec (get_character c) (\<lambda>character.
             bind_exec (render_character d character buf) (\<lambda>buf1.
               Ret (advance_column d, buf1))))"

definition write_str ::
  "u8 list \<Rightarrow> display_writer \<times> u32 list \<Rightarrow> (display_writer \<times> u32 list) exec" where
  "write_str s st = fold_exec write_byte s st"

declare blank_rest.simps [simp del]

section \<open>Geometry\<close>

text \<open>
  A display the text fits on: room for one character, rows no longer than the stride, and a
  frame buffer that holds them all.
\<close>

definition display_fits :: "graphics_info \<Rightarrow> u32 list \<Rightarrow> bool" where
  "display_fits gi buf \<longleftrightarrow>
     9 \<le> unat (gi_w gi) \<and> 16 \<le> unat (gi_h gi) \<and> unat (gi_w gi) \<le> unat (gi_stride gi)
     \<and> unat (gi_h gi) * unat (gi_stride gi) \<le> length buf \<and> length buf < 2 ^ 64"

definition text_cols :: "graphics_info \<Rightarrow> nat" where "text_cols gi = unat (gi_w gi) div 9"
definition text_rows :: "graphics_info \<Rightarrow> nat" where "text_rows gi = unat (gi_h gi) div 16"

definition cursor_ok :: "display_writer \<Rightarrow> bool" where
  "cursor_ok d \<longleftrightarrow> unat (line d) < text_rows (graphics d) \<and> unat (col d) < text_cols (graphics d)"

definition cell_index :: "graphics_info \<Rightarrow> nat \<times> nat \<Rightarrow> nat \<times> nat \<Rightarrow> nat" where
  "cell_index gi lc yx =
     (9 * snd lc + snd yx) + (16 * fst lc + fst yx) * unat (gi_stride gi)"

lemma unat_columns [simp]: "unat (columns d) = text_cols (graphics d)"
  by (simp add: columns_def text_cols_def FONT_WIDTH_def HORIZONTAL_SPACING_def unat_div_distrib)

lemma unat_lines [simp]: "unat (lines d) = text_rows (graphics d)"
  by (simp add: lines_def text_rows_def FONT_HEIGHT_def VERTICAL_SPACING_def unat_div_distrib)

lemma cell_coordinate:
  fixes l H k y :: nat
  assumes "l < H div k" and "y < k"
  shows "k * l + y < H"
proof -
  have "k * Suc l \<le> k * (H div k)" using assms(1) by (intro mult_le_mono2) simp
  also have "\<dots> \<le> H" by simp
  finally show ?thesis using assms(2) by simp
qed

lemma cell_coordinate_inj:
  fixes k q r q' r' :: nat
  assumes "k * q + r = k * q' + r'" and "r < k" and "r' < k"
  shows "q = q' \<and> r = r'"
proof -
  have "(k * q + r) div k = (k * q' + r') div k" "(k * q + r) mod k = (k * q' + r') mod k"
    using assms(1) by simp_all
  with assms(2,3) show ?thesis by simp
qed

lemma cell_coordinates:
  assumes "l < text_rows gi" and "c < text_cols gi" and "y < 16" and "x < 9"
  shows "16 * l + y < unat (gi_h gi)" and "9 * c + x < unat (gi_w gi)"
  using assms cell_coordinate[of l _ 16 y] cell_coordinate[of c _ 9 x]
  by (simp_all add: text_rows_def text_cols_def)

lemma cell_index_bound:
  assumes "display_fits gi buf"
    and "l < text_rows gi" and "c < text_cols gi" and "y < 13" and "x < 8"
  shows "cell_index gi (l, c) (y, x) < length buf"
proof -
  let ?s = "unat (gi_stride gi)"
  have "9 * c + x < ?s" "16 * l + y < unat (gi_h gi)"
    using cell_coordinates[of l gi c y x] assms by (auto simp: display_fits_def)
  then have "(9 * c + x) + (16 * l + y) * ?s < Suc (16 * l + y) * ?s" by simp
  also have "\<dots> \<le> unat (gi_h gi) * ?s"
    using \<open>16 * l + y < unat (gi_h gi)\<close> by (intro mult_right_mono) auto
  finally show ?thesis using assms(1) by (simp add: cell_index_def display_fits_def)
qed

lemma cell_index_inj:
  assumes fits: "display_fits gi buf"
    and "l < text_rows gi" "c < text_cols gi" "y < 13" "x < 8"
    and "l' < text_rows gi" "c' < text_cols gi" "y' < 13" "x' < 8"
    and eq: "cell_index gi (l, c) (y, x) = cell_index gi (l', c') (y', x')"
  shows "l = l' \<and> c = c' \<and> y = y' \<and> x = x'"
proof -
  let ?s = "unat (gi_stride gi)"
  have lt: "9 * c + x < ?s" "9 * c' + x' < ?s"
    using cell_coordinates[of l gi c y x] cell_coordinates[of l' gi c' y' x'] assms
    by (auto simp: display_fits_def)
  have "(9 * c + x + (16 * l + y) * ?s) mod ?s = (9 * c' + x' + (16 * l' + y') * ?s) mod ?s"
    and "(9 * c + x + (16 * l + y) * ?s) div ?s = (9 * c' + x' + (16 * l' + y') * ?s) div ?s"
    using eq by (simp_all add: cell_index_def)
  with lt have "9 * c + x = 9 * c' + x'" "16 * l + y = 16 * l' + y'" by simp_all
  with assms show ?thesis
    using cell_coordinate_inj[of 9 c x c' x'] cell_coordinate_inj[of 16 l y l' y'] by simp
qed

text \<open>The address arithmetic of the writer does not wrap while the cursor is in range.\<close>

lemma pixel_index_unat:
  assumes fits: "display_fits (graphics d) buf" and cur: "cursor_ok d" and "y < 13" "x < 8"
  shows "unat (pixel_index d y x) = cell_index (graphics d) (unat (line d), unat (col d)) (y, x)"
proof -
  let ?i = "cell_index (graphics d) (unat (line d), unat (col d)) (y, x)"
  have "?i < length buf"
    using assms by (intro cell_index_bound[OF fits]) (auto simp: cursor_ok_def)
  then have "?i < 2 ^ 64" using fits by (simp add: display_fits_def)
  moreover have "pixel_index d y x = of_nat ?i"
    by (simp add: pixel_index_def cell_index_def FONT_WIDTH_def HORIZONTAL_SPACING_def
        FONT_HEIGHT_def VERTICAL_SPACING_def Let_def algebra_simps)
  ultimately show ?thesis by (simp add: unat_of_nat)
qed

section \<open>Painting a character\<close>

definition paint ::
  "graphics_info \<Rightarrow> nat \<times> nat \<Rightarrow> u8 list \<Rightarrow> u32 list \<Rightarrow> u32 list" where
  "paint gi lc g buf =
     (if gi_pixel_format gi \<in> {RGB_8_BIT, BGR_8_BIT}
      then fold (\<lambda>yx b. b[cell_index gi lc yx := pixel_value g (fst yx) (snd yx)]) cell_pixels buf
      else buf)"

lemma cell_pixels_iff [simp]: "(y, x) \<in> set cell_pixels \<longleftrightarrow> y < 13 \<and> x < 8"
  by (auto simp: cell_pixels_def FONT_HEIGHT_def FONT_WIDTH_def)

lemma length_fold_update [simp]: "length (fold (\<lambda>k b. b[f k := v k]) ks b) = length b"
  by (induction ks arbitrary: b) auto

lemma fold_update_other:
  "i \<notin> f ` set ks \<Longrightarrow> fold (\<lambda>k b. b[f k := v k]) ks b ! i = b ! i"
  by (induction ks arbitrary: b) auto

lemma fold_update_at:
  assumes "k \<in> set ks" "inj_on f (set ks)" "f k < length b"
  shows "fold (\<lambda>k b. b[f k := v k]) ks b ! f k = v k"
  using assms
proof (induction ks arbitrary: b)
  case (Cons a ks)
  show ?case
  proof (cases "k \<in> set ks")
    case True
    with Cons show ?thesis by (simp add: inj_on_def)
  next
    case False
    with Cons.prems have "f k \<notin> f ` set ks" "k = a" by (auto simp: inj_on_def)
    with Cons.prems show ?thesis by (simp add: fold_update_other)
  qed
qed simp

lemma length_paint [simp]: "length (paint gi lc g buf) = length buf"
  by (simp add: paint_def)

lemma display_fits_paint [simp]: "display_fits gi (paint gi' lc g buf) = display_fits gi buf"
  by (simp add: display_fits_def)

lemma render_character_eq:
  assumes fits: "display_fits (graphics d) buf" and cur: "cursor_ok d"
  shows "render_character d g buf =
    Ret (paint (graphics d) (unat (line d), unat (col d)) g buf)"
proof -
  let ?lc = "(unat (line d), unat (col d))"
  let ?f = "\<lambda>yx b. if gi_pixel_format (graphics d) \<in> {RGB_8_BIT, BGR_8_BIT}
      then b[cell_index (graphics d) ?lc yx := pixel_value g (fst yx) (snd yx)] else b"
  have "fold_exec (render_pixel d g) cell_pixels buf = Ret (fold ?f cell_pixels buf)
      \<and> length (fold ?f cell_pixels buf) = length buf"
  proof (rule fold_exec_total[where I = "\<lambda>b. length b = length buf"])
    fix yx :: "nat \<times> nat" and b :: "u32 list"
    assume "yx \<in> set cell_pixels" and b: "length b = length buf"
    then obtain y x where yx: "yx = (y, x)" "y < 13" "x < 8"
      by (metis cell_pixels_iff surj_pair)
    have "cell_index (graphics d) ?lc (y, x) < length buf"
      using yx cur by (intro cell_index_bound[OF fits]) (auto simp: cursor_ok_def)
    then show "render_pixel d g yx b = Ret (?f yx b) \<and> length (?f yx b) = length buf"
      using b yx pixel_index_unat[OF fits cur yx(2,3)]
      by (auto simp: render_pixel_def write_volatile_def)
  qed simp
  moreover have "fold (\<lambda>_ b. b) ks b = b" for ks :: "(nat \<times> nat) list" and b :: "u32 list"
    by (induction ks) auto
  ultimately show ?thesis by (auto simp: render_character_def paint_def)
qed

text \<open>What is to be seen at a cell, and what painting a character does to every cell.\<close>

definition cell_shows :: "graphics_info \<Rightarrow> u32 list \<Rightarrow> nat \<times> nat \<Rightarrow> u8 list \<Rightarrow> bool" where
  "cell_shows gi buf lc g \<longleftrightarrow>
     (\<forall>y < 13. \<forall>x < 8. buf ! cell_index gi lc (y, x) = pixel_value g y x)"

lemma cell_shows_paint:
  assumes fits: "display_fits gi buf" and fmt: "gi_pixel_format gi \<in> {RGB_8_BIT, BGR_8_BIT}"
    and lc: "l < text_rows gi" "c < text_cols gi"
  shows "cell_shows gi (paint gi (l, c) g buf) (l, c) g"
proof -
  have inj: "inj_on (cell_index gi (l, c)) (set cell_pixels)"
    using cell_index_inj[OF fits lc _ _ lc] by (auto simp: inj_on_def)
  show ?thesis
    using fold_update_at[OF _ inj, of _ buf "\<lambda>yx. pixel_value g (fst yx) (snd yx)"]
      cell_index_bound[OF fits lc] fmt
    by (simp add: cell_shows_def paint_def)
qed

lemma cell_shows_paint_other:
  assumes fits: "display_fits gi buf" and lc: "l < text_rows gi" "c < text_cols gi"
    and lc': "l' < text_rows gi" "c' < text_cols gi" and "(l, c) \<noteq> (l', c')"
  shows "cell_shows gi (paint gi (l, c) g buf) (l', c') g' = cell_shows gi buf (l', c') g'"
proof -
  have "cell_index gi (l', c') (y, x) \<notin> cell_index gi (l, c) ` set cell_pixels"
    if "y < 13" "x < 8" for y x
  proof
    assume "cell_index gi (l', c') (y, x) \<in> cell_index gi (l, c) ` set cell_pixels"
    then obtain y' x' where "y' < 13" "x' < 8"
        "cell_index gi (l', c') (y, x) = cell_index gi (l, c) (y', x')"
      by auto
    from cell_index_inj[OF fits lc' that lc this] assms(6) show False by simp
  qed
  then show ?thesis by (simp add: cell_shows_def paint_def fold_update_other)
qed

end
