(* ===== verification/Display_Correct.thy ===== *)
theory Display_Correct
  imports Display
begin

text \<open>
  What the text display promises: a terminal of character cells with a cursor, and the
  proof that \<open>write_str\<close> implements it on the frame buffer.
\<close>

section \<open>The terminal\<close>

record terminal =
  rows :: nat
  cols :: nat
  cursor :: "nat \<times> nat"
  cells :: "nat \<times> nat \<Rightarrow> u8 option"

definition next_line :: "terminal \<Rightarrow> terminal" where
  "next_line t = t\<lparr> cursor := (Suc (fst (cursor t)) mod rows t, 0) \<rparr>"

definition next_cell :: "terminal \<Rightarrow> terminal" where
  "next_cell t =
     (if Suc (snd (cursor t)) < cols t
      then t\<lparr> cursor := (fst (cursor t), Suc (snd (cursor t))) \<rparr> else next_line t)"

definition type_byte :: "u8 \<Rightarrow> terminal \<Rightarrow> terminal" where
  "type_byte ch t =
     (if ch = 10
      then next_line (t\<lparr> cells := (\<lambda>(l, c).
             if l = fst (cursor t) \<and> snd (cursor t) \<le> c \<and> c < cols t then Some 32
             else cells t (l, c)) \<rparr>)
      else next_cell (t\<lparr> cells := (cells t)(cursor t \<mapsto> ch) \<rparr>))"

text \<open>The glyph of a byte, and the frame buffer that displays a terminal.\<close>

definition glyph :: "u8 \<Rightarrow> u8 list" where
  "glyph ch = FONT ! (unat ch - 32)"

definition writer_cursor :: "display_writer \<Rightarrow> nat \<times> nat" where
  "writer_cursor d = (unat (line d), unat (col d))"

definition cells_displayed ::
  "graphics_info \<Rightarrow> u32 list \<Rightarrow> (nat \<times> nat \<Rightarrow> u8 option) \<Rightarrow> bool" where
  "cells_displayed gi buf cs \<longleftrightarrow>
     (\<forall>l < text_rows gi. \<forall>c < text_cols gi. \<forall>ch.
        cs (l, c) = Some ch \<longrightarrow> cell_shows gi buf (l, c) (glyph ch))"

definition displays :: "display_writer \<times> u32 list \<Rightarrow> terminal \<Rightarrow> bool" where
  "displays st t \<longleftrightarrow>
     rows t = text_rows (graphics (fst st)) \<and> cols t = text_cols (graphics (fst st))
     \<and> cursor t = writer_cursor (fst st) \<and> cells_displayed (graphics (fst st)) (snd st) (cells t)"

definition writer_ok :: "display_writer \<times> u32 list \<Rightarrow> bool" where
  "writer_ok st \<longleftrightarrow> cursor_ok (fst st) \<and> display_fits (graphics (fst st)) (snd st)"

section \<open>The font\<close>

lemma length_FONT [simp]: "length FONT = 95"
  by (simp add: FONT_def)

lemma get_character_ascii:
  assumes "ch \<le> 126"
  shows "get_character ch = Ret (glyph ch)"
proof (cases "ch \<le> 32")
  case True
  then show ?thesis by (simp add: get_character_def glyph_def word_le_nat_alt)
next
  case False
  then have "unat (ch - 32) = unat ch - 32"
    by (simp add: unat_sub word_le_nat_alt)
  with assms False show ?thesis
    by (simp add: get_character_def glyph_def word_le_nat_alt)
qed

lemma get_character_above:
  assumes "\<not> ch \<le> 126"
  shows "get_character ch = Panic ''index out of bounds''"
proof -
  have "unat (ch - 32) = unat ch - 32" "\<not> ch \<le> 32"
    using assms by (simp_all add: unat_sub word_le_nat_alt)
  with assms show ?thesis by (simp add: get_character_def word_le_nat_alt)
qed

lemma glyph_0 [simp]: "get_character 0 = Ret (glyph 32)"
  by (simp add: get_character_def glyph_def)

section \<open>The cursor\<close>

lemma graphics_advance [simp]:
  "graphics (advance_line d) = graphics d"
  "graphics (advance_column d) = graphics d"
  by (simp_all add: advance_line_def advance_column_def Let_def)

lemma div_columns [simp]:
  "gi_w (graphics d) div of_nat (FONT_WIDTH + HORIZONTAL_SPACING) = columns d"
  "gi_h (graphics d) div of_nat (FONT_HEIGHT + VERTICAL_SPACING) = lines d"
  by (simp_all add: columns_def lines_def)

lemma writer_cursor_advance_line:
  assumes "unat (line d) < text_rows (graphics d)"
  shows "writer_cursor (advance_line d) = (Suc (unat (line d)) mod text_rows (graphics d), 0)"
proof -
  have less: "line d < lines d" using assms by (simp add: word_less_nat_alt)
  note Suc = unat_add_1_less[OF less]
  have same: "lines (d\<lparr>col := 0, line := line d + 1\<rparr>) = lines d" by (simp add: lines_def)
  show ?thesis
  proof (cases "lines d \<le> line d + 1")
    case True
    then have "Suc (unat (line d)) = text_rows (graphics d)"
      using Suc assms by (simp add: word_le_nat_alt)
    with True show ?thesis
      by (simp add: advance_line_def writer_cursor_def Let_def lines_def)
  next
    case False
    then have "Suc (unat (line d)) < text_rows (graphics d)"
      using Suc by (simp add: word_le_nat_alt)
    with False Suc show ?thesis
      by (simp add: advance_line_def writer_cursor_def Let_def lines_def)
  qed
qed

lemma writer_cursor_advance_column:
  assumes "cursor_ok d"
  shows "writer_cursor (advance_column d) =
    (if Suc (unat (col d)) < text_cols (graphics d) then (unat (line d), Suc (unat (col d)))
     else (Suc (unat (line d)) mod text_rows (graphics d), 0))"
proof -
  have less: "col d < columns d" using assms by (simp add: word_less_nat_alt cursor_ok_def)
  note Suc = unat_add_1_less[OF less]
  show ?thesis
  proof (cases "columns d \<le> col d + 1")
    case True
    then have "\<not> Suc (unat (col d)) < text_cols (graphics d)"
      using Suc by (simp add: word_le_nat_alt)
    moreover have "advance_column d = advance_line (d\<lparr> col := 0 \<rparr>)"
      using True by (simp add: advance_column_def Let_def columns_def)
    ultimately show ?thesis
      using writer_cursor_advance_line[of "d\<lparr> col := 0 \<rparr>"] assms by (simp add: cursor_ok_def)
  next
    case False
    then have "Suc (unat (col d)) < text_cols (graphics d)"
      using Suc by (simp add: word_le_nat_alt)
    with False Suc show ?thesis
      by (simp add: advance_column_def writer_cursor_def Let_def columns_def)
  qed
qed

lemma cursor_ok_iff:
  "cursor_ok d \<longleftrightarrow>
     fst (writer_cursor d) < text_rows (graphics d) \<and> snd (writer_cursor d) < text_cols (graphics d)"
  by (simp add: cursor_ok_def writer_cursor_def)

lemma cursor_ok_advance:
  assumes "display_fits (graphics d) buf"
  shows "unat (line d) < text_rows (graphics d) \<Longrightarrow> cursor_ok (advance_line d)"
    and "cursor_ok d \<Longrightarrow> cursor_ok (advance_column d)"
proof -
  have "0 < text_cols (graphics d)" "0 < text_rows (graphics d)"
    using assms by (auto simp: display_fits_def text_cols_def text_rows_def div_greater_zero_iff)
  then show "unat (line d) < text_rows (graphics d) \<Longrightarrow> cursor_ok (advance_line d)"
    and "cursor_ok d \<Longrightarrow> cursor_ok (advance_column d)"
    by (auto simp: cursor_ok_iff writer_cursor_advance_line writer_cursor_advance_column)
      (auto simp: writer_cursor_def)
qed

section \<open>Painting\<close>

lemma cells_displayed_paint:
  assumes fits: "display_fits gi buf" and fmt: "gi_pixel_format gi \<in> {RGB_8_BIT, BGR_8_BIT}"
    and lc: "l < text_rows gi" "c < text_cols gi" and cs: "cells_displayed gi buf cs"
  shows "cells_displayed gi (paint gi (l, c) (glyph ch) buf) (cs((l, c) \<mapsto> ch))"
  unfolding cells_displayed_def
proof (intro allI impI)
  fix l' c' ch'
  assume lc': "l' < text_rows gi" "c' < text_cols gi" and upd: "(cs((l, c) \<mapsto> ch)) (l', c') = Some ch'"
  show "cell_shows gi (paint gi (l, c) (glyph ch) buf) (l', c') (glyph ch')"
  proof (cases "(l, c) = (l', c')")
    case True
    with upd show ?thesis using cell_shows_paint[OF fits fmt lc] by simp
  next
    case False
    with upd cs lc' show ?thesis
      using cell_shows_paint_other[OF fits lc lc' False] by (auto simp: cells_displayed_def)
  qed
qed

text \<open>The rest of a line, painted blank.\<close>

lemma blank_rest_spec:
  assumes "display_fits (graphics d) buf" and "gi_pixel_format (graphics d) \<in> {RGB_8_BIT, BGR_8_BIT}"
    and "unat (line d) < text_rows (graphics d)" and "unat (col d) \<le> text_cols (graphics d)"
    and "cells_displayed (graphics d) buf cs"
  shows "\<exists>d' buf'. blank_rest d buf = Ret (d', buf') \<and> graphics d' = graphics d
    \<and> line d' = line d \<and> length buf' = length buf
    \<and> cells_displayed (graphics d) buf' (\<lambda>(l, c).
        if l = unat (line d) \<and> unat (col d) \<le> c \<and> c < text_cols (graphics d) then Some 32
        else cs (l, c))"
  using assms
proof (induction d buf arbitrary: cs rule: blank_rest.induct)
  case (1 d buf)
  show ?case
  proof (cases "col d < columns d")
    case False
    then have "text_cols (graphics d) \<le> unat (col d)" by (simp add: word_less_nat_alt not_less)
    then have "(\<lambda>(l, c). if l = unat (line d) \<and> unat (col d) \<le> c \<and> c < text_cols (graphics d)
        then Some 32 else cs (l, c)) = cs"
      by (auto simp: fun_eq_iff)
    with False 1 show ?thesis by (subst blank_rest.simps) simp
  next
    case True
    note Suc = unat_add_1_less[OF True]
    have lt: "unat (col d) < text_cols (graphics d)" using True by (simp add: word_less_nat_alt)
    then have cur: "cursor_ok d" using 1(4) by (simp add: cursor_ok_def)
    let ?lc = "(unat (line d), unat (col d))"
    let ?buf = "paint (graphics d) ?lc (glyph 32) buf"
    have r: "render_character d (glyph 32) buf = Ret ?buf"
      by (rule render_character_eq[OF 1(2) cur])
    have shown: "cells_displayed (graphics d) ?buf (cs(?lc \<mapsto> 32))"
      using cells_displayed_paint[OF 1(2,3,4) lt 1(6)] .
    have cells: "(\<lambda>(l, c). if l = unat (line d) \<and> Suc (unat (col d)) \<le> c \<and> c < text_cols (graphics d)
        then Some 32 else (cs(?lc \<mapsto> 32)) (l, c)) =
      (\<lambda>(l, c). if l = unat (line d) \<and> unat (col d) \<le> c \<and> c < text_cols (graphics d)
        then Some 32 else cs (l, c))"
      using lt by (auto simp: fun_eq_iff)
    define cs1 where "cs1 = cs(?lc \<mapsto> 32)"
    define d1 where "d1 = d\<lparr> col := col d + 1 \<rparr>"
    have d1: "graphics d1 = graphics d" "line d1 = line d" "unat (col d1) = Suc (unat (col d))"
      using Suc by (simp_all add: d1_def)
    have "blank_rest d buf = blank_rest d1 ?buf"
      by (subst blank_rest.simps) (simp add: True r d1_def)
    moreover note 1(1)[OF True glyph_0 r, folded d1_def, of cs1] cells[folded cs1_def]
      shown[folded cs1_def]
    ultimately show ?thesis using 1(2-5) lt by (simp add: d1)
  qed
qed

section \<open>Writing\<close>

lemma write_byte_spec:
  assumes ok: "writer_ok st" and shown: "displays st t" and ascii: "ch \<le> 126"
    and fmt: "gi_pixel_format (graphics (fst st)) \<in> {RGB_8_BIT, BGR_8_BIT}"
  shows "\<exists>st'. write_byte ch st = Ret st' \<and> writer_ok st' \<and> graphics (fst st') = graphics (fst st)
    \<and> length (snd st') = length (snd st) \<and> displays st' (type_byte ch t)"
proof -
  obtain d buf where st: "st = (d, buf)" by force
  have fits: "display_fits (graphics d) buf" and cur: "cursor_ok d"
    and row: "unat (line d) < text_rows (graphics d)"
    and column: "unat (col d) < text_cols (graphics d)"
    using ok by (auto simp: st writer_ok_def cursor_ok_def)
  have shown': "cells_displayed (graphics d) buf (cells t)"
    and t: "rows t = text_rows (graphics d)" "cols t = text_cols (graphics d)"
      "cursor t = (unat (line d), unat (col d))"
    using shown by (auto simp: displays_def st writer_cursor_def)
  show ?thesis
  proof (cases "ch = 10")
    case True
    from blank_rest_spec[OF fits _ row less_imp_le[OF column] shown'] fmt
    obtain d' buf' where b: "blank_rest d buf = Ret (d', buf')" "graphics d' = graphics d"
        "line d' = line d" "length buf' = length buf"
        "cells_displayed (graphics d) buf' (\<lambda>(l, c).
          if l = unat (line d) \<and> unat (col d) \<le> c \<and> c < text_cols (graphics d) then Some 32
          else cells t (l, c))"
      by (auto simp: st)
    have "display_fits (graphics d') buf'" using fits b by (simp add: display_fits_def)
    then have "writer_ok (advance_line d', buf')"
      using cursor_ok_advance(1) b(2,3) row by (simp add: writer_ok_def)
    moreover have "displays (advance_line d', buf') (type_byte ch t)"
      using b writer_cursor_advance_line[of d'] row t True
      by (simp add: displays_def type_byte_def next_line_def)
    ultimately show ?thesis using b True by (simp add: st)
  next
    case False
    let ?buf = "paint (graphics d) (unat (line d), unat (col d)) (glyph ch) buf"
    have "write_byte ch (d, buf) = Ret (advance_column d, ?buf)"
      by (simp add: False get_character_ascii[OF ascii] render_character_eq[OF fits cur])
    moreover have "writer_ok (advance_column d, ?buf)"
      using cursor_ok_advance(2)[OF fits cur] fits by (simp add: writer_ok_def)
    moreover have "displays (advance_column d, ?buf) (type_byte ch t)"
      using cells_displayed_paint[OF fits _ row column shown', of ch] fmt t False
        writer_cursor_advance_column[OF cur]
      by (simp add: displays_def type_byte_def next_cell_def next_line_def st)
    ultimately show ?thesis by (simp add: st)
  qed
qed

lemma write_str_spec:
  assumes "writer_ok st" and "displays st t" and "\<forall>ch \<in> set s. ch \<le> 126"
    and "gi_pixel_format (graphics (fst st)) \<in> {RGB_8_BIT, BGR_8_BIT}"
  shows "\<exists>st'. write_str s st = Ret st' \<and> writer_ok st' \<and> graphics (fst st') = graphics (fst st)
    \<and> length (snd st') = length (snd st) \<and> displays st' (fold type_byte s t)"
  using assms
proof (induction s arbitrary: st t)
  case Nil
  then show ?case by (simp add: write_str_def)
next
  case (Cons ch s)
  from write_byte_spec[OF Cons.prems(1,2) _ Cons.prems(4), of ch] Cons.prems(3)
  obtain st1 where st1: "write_byte ch st = Ret st1" "writer_ok st1"
      "graphics (fst st1) = graphics (fst st)" "length (snd st1) = length (snd st)"
      "displays st1 (type_byte ch t)"
    by auto
  with Cons.IH[OF st1(2,5)] Cons.prems(3,4) show ?case by (auto simp: write_str_def)
qed

text \<open>A terminal about which nothing is known but its size and cursor.\<close>

definition blank_terminal :: "display_writer \<Rightarrow> terminal" where
  "blank_terminal d =
     \<lparr> rows = text_rows (graphics d), cols = text_cols (graphics d),
       cursor = writer_cursor d, cells = (\<lambda>_. None) \<rparr>"

lemma displays_blank [simp]: "displays (d, buf) (blank_terminal d)"
  by (simp add: displays_def blank_terminal_def cells_displayed_def)

text \<open>
  C8: \<open>write_str\<close> implements a terminal: what the frame buffer displays after an ASCII
  string is what typing the bytes one by one into the grid of characters gives, with the
  cursor wrapping at the end of a line and from the last line to the first, a newline
  blanking the rest of its line, and every other cell unchanged.
\<close>

theorem write_str_implements_terminal:
  assumes "writer_ok st" and "displays st t" and "\<forall>ch \<in> set s. ch \<le> 126"
    and "gi_pixel_format (graphics (fst st)) \<in> {RGB_8_BIT, BGR_8_BIT}"
  shows "\<exists>st'. write_str s st = Ret st' \<and> displays st' (fold type_byte s t)"
  using write_str_spec[OF assms] by blast

definition small_display :: "display_writer \<times> u32 list" where
  "small_display =
     (\<lparr> graphics = \<lparr> gi_w = 20, gi_h = 16, gi_stride = 20, gi_pixel_format = RGB_8_BIT,
                    frame_buffer = 0x1000, frame_buffer_size = 1280 \<rparr>,
        line = 0, col = 0 \<rparr>,
      replicate 320 7)"

lemma small_display_ok [simp]:
  "writer_ok small_display"
  "gi_pixel_format (graphics (fst small_display)) = RGB_8_BIT"
  "displays small_display (blank_terminal (fst small_display))"
  by (simp_all add: writer_ok_def small_display_def cursor_ok_def display_fits_def text_rows_def
      text_cols_def)

theorem write_str_implements_terminal_witness:
  "\<exists>st'. write_str [72, 10] small_display = Ret st'
     \<and> displays st' (fold type_byte [72, 10] (blank_terminal (fst small_display)))
     \<and> cells (fold type_byte [72, 10] (blank_terminal (fst small_display))) (0, 0) = Some 72
     \<and> cells (fold type_byte [72, 10] (blank_terminal (fst small_display))) (0, 1) = Some 32"
proof -
  have "\<exists>st'. write_str [72, 10] small_display = Ret st'
     \<and> displays st' (fold type_byte [72, 10] (blank_terminal (fst small_display)))"
    by (rule write_str_implements_terminal) simp_all
  moreover have "cells (fold type_byte [72, 10] (blank_terminal (fst small_display))) (0, 0) = Some 72"
    "cells (fold type_byte [72, 10] (blank_terminal (fst small_display))) (0, 1) = Some 32"
    by (simp_all add: small_display_def blank_terminal_def type_byte_def next_cell_def
        next_line_def writer_cursor_def text_rows_def text_cols_def)
  ultimately show ?thesis by blast
qed

text \<open>
  Every pixel written lies in the frame buffer, the cursor stays on the screen and the
  description of the display is not changed: on a display that holds a character, writing an
  ASCII string never panics and is never undefined.
\<close>

theorem write_str_stays_on_screen:
  assumes "writer_ok (d, buf)" and "\<forall>ch \<in> set s. ch \<le> 126"
    and "gi_pixel_format (graphics d) \<in> {RGB_8_BIT, BGR_8_BIT}"
  shows "\<exists>d' buf'. write_str s (d, buf) = Ret (d', buf') \<and> col d' < columns d'
    \<and> line d' < lines d' \<and> graphics d' = graphics d \<and> length buf' = length buf"
proof -
  from write_str_spec[OF assms(1) displays_blank assms(2)] assms(3)
  obtain d' buf' where "write_str s (d, buf) = Ret (d', buf')" "writer_ok (d', buf')"
      "graphics d' = graphics d" "length buf' = length buf"
    by auto
  then show ?thesis by (auto simp: writer_ok_def cursor_ok_def word_less_nat_alt)
qed

theorem write_str_stays_on_screen_witness:
  "\<exists>d' buf'. write_str [65, 66, 67] small_display = Ret (d', buf') \<and> col d' < columns d'
     \<and> length buf' = 320"
  using write_str_stays_on_screen[of "fst small_display" "snd small_display" "[65, 66, 67]"]
    small_display_ok
  by (auto simp: small_display_def)

text \<open>
  A string with any byte above 126, so any text that is not ASCII, makes \<open>write_str\<close>
  panic on the font table, after the bytes before it were painted.
\<close>

theorem write_str_panics_above_ascii:
  assumes "writer_ok (d, buf)" and "\<forall>ch \<in> set s. ch \<le> 126" and "126 < ch"
    and "gi_pixel_format (graphics d) \<in> {RGB_8_BIT, BGR_8_BIT}"
  shows "write_str (s @ ch # s') (d, buf) = Panic ''index out of bounds''"
proof -
  from write_str_spec[OF assms(1) displays_blank assms(2)] assms(4)
  obtain d' buf' where "write_str s (d, buf) = Ret (d', buf')" by auto
  moreover have "ch \<noteq> 10" using assms(3) by auto
  moreover have "get_character ch = Panic ''index out of bounds''"
    using assms(3) by (intro get_character_above) (simp add: not_le)
  ultimately show ?thesis by (simp add: write_str_def fold_exec_append)
qed

theorem write_str_panics_above_ascii_witness:
  "write_str [99, 97, 102, 0xC3, 0xA9] small_display = Panic ''index out of bounds''"
  using write_str_panics_above_ascii
    [of "fst small_display" "snd small_display" "[99, 97, 102]" "0xC3" "[0xA9]"]
    small_display_ok
  by (simp add: small_display_def)

end
