(* ===== verification/Sync_Locks.thy ===== *)
theory Sync_Locks
  imports Prelude
begin

text \<open>
  The locks of the standard library port (\<open>std/sys-src/sync\<close>): \<open>Mutex\<close>, \<open>RwLock\<close>,
  \<open>Condvar\<close> and \<open>Parker\<close>. The platform has no threads, so each is a cell; an operation
  returns the new cell and how it ended. A failed assertion unwinds with the cell already
  changed, \<open>rtabort!\<close> ends the process.
\<close>

section \<open>Outcomes of stateful code\<close>

datatype 'a run = Done 'a | Unwind string | Abort string

fun is_done :: "'a run \<Rightarrow> bool" where
  "is_done (Done _) = True"
| "is_done (Unwind _) = False"
| "is_done (Abort _) = False"

section \<open>Mutex\<close>

record mutex =
  locked :: bool

definition mutex_new :: mutex where
  "mutex_new = \<lparr> locked = False \<rparr>"

definition mutex_lock :: "mutex \<Rightarrow> mutex \<times> unit run" where
  "mutex_lock m =
     (let old = locked m; m' = m\<lparr> locked := True \<rparr>
      in if old = False then (m', Done ()) else (m', Unwind ''cannot recursively acquire mutex''))"

definition mutex_unlock :: "mutex \<Rightarrow> mutex" where
  "mutex_unlock m = m\<lparr> locked := False \<rparr>"

definition mutex_try_lock :: "mutex \<Rightarrow> mutex \<times> bool" where
  "mutex_try_lock m = (m\<lparr> locked := True \<rparr>, \<not> locked m)"

section \<open>RwLock\<close>

type_synonym isize = "64 word"

definition isize_MAX :: isize where "isize_MAX = 0x7FFFFFFFFFFFFFFF"

record rwlock =
  mode :: isize

definition rwlock_new :: rwlock where
  "rwlock_new = \<lparr> mode = 0 \<rparr>"

definition rwlock_read :: "rwlock \<Rightarrow> rwlock \<times> unit run" where
  "rwlock_read l =
     (let m = mode l
      in if 0 \<le>s m
         then if m = isize_MAX then (l, Unwind ''rwlock overflowed read locks'')
              else (l\<lparr> mode := m + 1 \<rparr>, Done ())
         else (l, Abort ''rwlock locked for writing''))"

definition rwlock_try_read :: "rwlock \<Rightarrow> rwlock \<times> bool" where
  "rwlock_try_read l =
     (let m = mode l
      in if 0 \<le>s m
         then if m = isize_MAX then (l, False) else (l\<lparr> mode := m + 1 \<rparr>, True)
         else (l, False))"

definition rwlock_write :: "rwlock \<Rightarrow> rwlock \<times> unit run" where
  "rwlock_write l =
     (if mode l = 0 then (l\<lparr> mode := -1 \<rparr>, Done ())
      else (l, Abort ''rwlock locked for reading''))"

definition rwlock_try_write :: "rwlock \<Rightarrow> rwlock \<times> bool" where
  "rwlock_try_write l = (if mode l = 0 then (l\<lparr> mode := -1 \<rparr>, True) else (l, False))"

definition rwlock_read_unlock :: "rwlock \<Rightarrow> rwlock \<times> unit run" where
  "rwlock_read_unlock l =
     (let old = mode l; l' = l\<lparr> mode := mode l - 1 \<rparr>
      in if 0 <s old then (l', Done ())
         else (l', Unwind ''rwlock has not been locked for reading''))"

definition rwlock_write_unlock :: "rwlock \<Rightarrow> rwlock \<times> unit run" where
  "rwlock_write_unlock l =
     (let old = mode l; l' = l\<lparr> mode := 0 \<rparr>
      in if old = -1 then (l', Done ())
         else (l', Unwind ''rwlock has not been locked for writing''))"

definition rwlock_downgrade :: "rwlock \<Rightarrow> rwlock \<times> unit run" where
  "rwlock_downgrade l =
     (let old = mode l; l' = l\<lparr> mode := 1 \<rparr>
      in if old = -1 then (l', Done ())
         else (l', Unwind ''rwlock has not been locked for writing''))"

section \<open>Condvar and Parker\<close>

text \<open>
  Neither has any state: notifying, parking and unparking return at once, waiting panics, and
  waiting with a timeout sleeps (\<open>thread::sleep\<close> is a parameter) and reports a timeout.
\<close>

definition condvar_notify_one :: "unit run" where "condvar_notify_one = Done ()"
definition condvar_notify_all :: "unit run" where "condvar_notify_all = Done ()"

definition condvar_wait :: "mutex \<Rightarrow> mutex \<times> unit run" where
  "condvar_wait m = (m, Unwind ''condvar wait not supported'')"

definition condvar_wait_timeout :: "('d \<Rightarrow> unit run) \<Rightarrow> mutex \<Rightarrow> 'd \<Rightarrow> mutex \<times> bool run" where
  "condvar_wait_timeout sleep m dur =
     (m, case sleep dur of Done _ \<Rightarrow> Done False | Unwind s \<Rightarrow> Unwind s | Abort s \<Rightarrow> Abort s)"

definition parker_park :: "unit run" where "parker_park = Done ()"
definition parker_park_timeout :: "'d \<Rightarrow> unit run" where "parker_park_timeout dur = Done ()"
definition parker_unpark :: "unit run" where "parker_unpark = Done ()"

section \<open>An exclusive lock\<close>

text \<open>
  What a caller of \<open>try_lock\<close> relies on. The guards a sequence of attempts and releases
  leaves alive: only a successful attempt makes one, only the owner of one may release.
\<close>

datatype lock_op = Acquire | Release

fun guards :: "('s \<Rightarrow> 's \<times> bool) \<Rightarrow> ('s \<Rightarrow> 's) \<Rightarrow> lock_op list \<Rightarrow> 's \<times> nat \<Rightarrow> 's \<times> nat" where
  "guards acquire release [] (s, n) = (s, n)"
| "guards acquire release (Acquire # ops) (s, n) =
     (case acquire s of (s', ok) \<Rightarrow> guards acquire release ops (s', if ok then Suc n else n))"
| "guards acquire release (Release # ops) (s, n) =
     (if n = 0 then guards acquire release ops (s, n)
      else guards acquire release ops (release s, n - 1))"

locale exclusive_lock =
  fixes init :: 's
    and acquire :: "'s \<Rightarrow> 's \<times> bool"
    and release :: "'s \<Rightarrow> 's"
    and held :: "'s \<Rightarrow> bool"
  assumes init_free: "\<not> held init"
    and acquire_iff: "acquire s = (s', ok) \<Longrightarrow> held s' \<and> ok = (\<not> held s)"
    and release_free: "held s \<Longrightarrow> \<not> held (release s)"
begin

lemma guards_track:
  assumes "n = (if held s then 1 else 0)" and "guards acquire release ops (s, n) = (s', n')"
  shows "n' = (if held s' then 1 else 0)"
  using assms
proof (induction ops arbitrary: s n)
  case (Cons op ops)
  show ?case
  proof (cases op)
    case Acquire
    obtain t ok where t: "acquire s = (t, ok)" by force
    with acquire_iff[OF t] Cons.IH[of "if ok then Suc n else n" t] Cons.prems Acquire
    show ?thesis by (auto split: if_splits)
  next
    case Release
    with Cons.IH[of "n - 1" "release s"] Cons.IH[of n s] Cons.prems release_free[of s]
    show ?thesis by (auto split: if_splits)
  qed
qed simp

lemma at_most_one:
  "snd (guards acquire release ops (init, 0)) \<le> 1"
  using guards_track[of 0 init ops] init_free by (cases "guards acquire release ops (init, 0)") auto

lemma attempt_succeeds_iff:
  assumes "guards acquire release ops (init, 0) = (s, n)"
  shows "snd (acquire s) \<longleftrightarrow> n = 0"
  using guards_track[OF _ assms] init_free acquire_iff[of s] by (cases "acquire s") auto

end

interpretation mutex: exclusive_lock mutex_new mutex_try_lock mutex_unlock locked
  by unfold_locales (auto simp: mutex_new_def mutex_try_lock_def mutex_unlock_def)

definition write_release :: "rwlock \<Rightarrow> rwlock" where
  "write_release l = fst (rwlock_write_unlock l)"

interpretation writer: exclusive_lock rwlock_new rwlock_try_write write_release "\<lambda>l. mode l \<noteq> 0"
  by unfold_locales
    (auto simp: rwlock_new_def rwlock_try_write_def write_release_def rwlock_write_unlock_def Let_def
       split: if_splits)

text \<open>
  C32: however attempts and releases follow each other, a mutex has at most one live guard, and
  the next \<open>try_lock\<close> succeeds, and \<open>lock\<close> does not panic, exactly when there is none.
\<close>

theorem mutex_mutual_exclusion:
  "snd (guards mutex_try_lock mutex_unlock ops (mutex_new, 0)) \<le> 1
   \<and> (snd (mutex_try_lock (fst (guards mutex_try_lock mutex_unlock ops (mutex_new, 0))))
        \<longleftrightarrow> snd (guards mutex_try_lock mutex_unlock ops (mutex_new, 0)) = 0)
   \<and> (is_done (snd (mutex_lock (fst (guards mutex_try_lock mutex_unlock ops (mutex_new, 0)))))
        \<longleftrightarrow> snd (guards mutex_try_lock mutex_unlock ops (mutex_new, 0)) = 0)"
proof -
  obtain s n where g: "guards mutex_try_lock mutex_unlock ops (mutex_new, 0) = (s, n)" by force
  have "is_done (snd (mutex_lock s)) = snd (mutex_try_lock s)"
    by (simp add: mutex_lock_def mutex_try_lock_def Let_def)
  with mutex.attempt_succeeds_iff[OF g] mutex.at_most_one[of ops] g show ?thesis by simp
qed

section \<open>Readers and writers\<close>

text \<open>
  The users of a reader-writer lock: how many read guards and write guards are alive. A step is
  an operation that returns; the unlocking operations are \<open>unsafe\<close> and only the owner of a
  guard may call them.
\<close>

record rw_system =
  lock :: rwlock
  readers :: nat
  writers :: nat

definition rw_init :: rw_system where
  "rw_init = \<lparr> lock = rwlock_new, readers = 0, writers = 0 \<rparr>"

inductive rw_step :: "rw_system \<Rightarrow> rw_system \<Rightarrow> bool" where
  read_lock: "rwlock_read (lock s) = (l, Done ()) \<Longrightarrow>
     rw_step s (s\<lparr> lock := l, readers := Suc (readers s) \<rparr>)"
| read_overflow: "rwlock_read (lock s) = (l, Unwind msg) \<Longrightarrow> rw_step s (s\<lparr> lock := l \<rparr>)"
| try_read: "rwlock_try_read (lock s) = (l, ok) \<Longrightarrow>
     rw_step s (s\<lparr> lock := l, readers := (if ok then Suc (readers s) else readers s) \<rparr>)"
| write_lock: "rwlock_write (lock s) = (l, Done ()) \<Longrightarrow>
     rw_step s (s\<lparr> lock := l, writers := Suc (writers s) \<rparr>)"
| try_write: "rwlock_try_write (lock s) = (l, ok) \<Longrightarrow>
     rw_step s (s\<lparr> lock := l, writers := (if ok then Suc (writers s) else writers s) \<rparr>)"
| read_unlock: "0 < readers s \<Longrightarrow> rwlock_read_unlock (lock s) = (l, r) \<Longrightarrow>
     rw_step s (s\<lparr> lock := l, readers := readers s - 1 \<rparr>)"
| write_unlock: "0 < writers s \<Longrightarrow> rwlock_write_unlock (lock s) = (l, r) \<Longrightarrow>
     rw_step s (s\<lparr> lock := l, writers := writers s - 1 \<rparr>)"
| downgrade: "0 < writers s \<Longrightarrow> rwlock_downgrade (lock s) = (l, r) \<Longrightarrow>
     rw_step s (s\<lparr> lock := l, writers := writers s - 1, readers := Suc (readers s) \<rparr>)"

inductive_cases rw_stepE: "rw_step s s'"

text \<open>The lock counts the guards.\<close>

definition rw_inv :: "rw_system \<Rightarrow> bool" where
  "rw_inv s \<longleftrightarrow>
     (writers s = 0 \<and> sint (mode (lock s)) = int (readers s)
      \<or> writers s = 1 \<and> readers s = 0 \<and> mode (lock s) = -1)"

lemma sint_isize_MAX [simp]: "sint isize_MAX = 2 ^ 63 - 1"
  by (simp add: isize_MAX_def)

lemma sint_bounds: "- (2 ^ 63) \<le> sint (m :: isize)" "sint (m :: isize) \<le> 2 ^ 63 - 1"
  using sint_ge[of m] sint_lt[of m] by simp_all

lemma sint_add_1: "m \<noteq> isize_MAX \<Longrightarrow> sint (m + 1 :: isize) = sint m + 1"
proof -
  assume "m \<noteq> isize_MAX"
  then have "sint m \<noteq> 2 ^ 63 - 1" by (metis sint_isize_MAX signed_word_eqI)
  with sint_bounds[of m] show ?thesis by (simp add: sint_word_ariths signed_take_bit_int_eq_self)
qed

lemma sint_sub_1: "0 < sint m \<Longrightarrow> sint (m - 1 :: isize) = sint m - 1"
  using sint_bounds[of m] by (simp add: sint_word_ariths signed_take_bit_int_eq_self)

lemmas rwlock_defs = rwlock_read_def rwlock_try_read_def rwlock_write_def rwlock_try_write_def
  rwlock_read_unlock_def rwlock_write_unlock_def rwlock_downgrade_def

lemma rw_step_inv: "rw_step s s' \<Longrightarrow> rw_inv s \<Longrightarrow> rw_inv s'"
  by (erule rw_stepE)
    (auto simp: rw_inv_def rwlock_defs Let_def word_sle_eq word_sless_alt sint_add_1 sint_sub_1
       split: if_splits)

lemma rw_init_inv: "rw_inv rw_init"
  by (simp add: rw_init_def rw_inv_def rwlock_new_def)

lemma rw_reachable_inv: "rw_step\<^sup>*\<^sup>* rw_init s \<Longrightarrow> rw_inv s"
  by (induction rule: rtranclp_induct) (auto intro: rw_step_inv rw_init_inv)

text \<open>
  C27: in every state the users of a reader-writer lock can reach, there is no writer, or one
  writer and no reader, and none of the three operations that give up a guard fails its
  assertion.
\<close>

theorem rwlock_readers_xor_writer:
  assumes "rw_step\<^sup>*\<^sup>* rw_init s"
  shows "(writers s = 0 \<or> writers s = 1 \<and> readers s = 0)
    \<and> (0 < readers s \<longrightarrow> is_done (snd (rwlock_read_unlock (lock s))))
    \<and> (0 < writers s \<longrightarrow> is_done (snd (rwlock_write_unlock (lock s)))
         \<and> is_done (snd (rwlock_downgrade (lock s))))"
  using rw_reachable_inv[OF assms]
  by (auto simp: rw_inv_def rwlock_defs Let_def word_sless_alt)

text \<open>
  The lock is taken exactly when it can be: in every reachable state \<open>try_write\<close> and
  \<open>write\<close> succeed when no guard is alive, \<open>try_read\<close> and \<open>read\<close> when there is no writer and
  the count of readers does not overflow. So it is never left locked when all guards are gone.
\<close>

theorem rwlock_available_iff:
  assumes "rw_step\<^sup>*\<^sup>* rw_init s"
  shows "(snd (rwlock_try_write (lock s)) \<longleftrightarrow> readers s = 0 \<and> writers s = 0)
    \<and> (is_done (snd (rwlock_write (lock s))) \<longleftrightarrow> readers s = 0 \<and> writers s = 0)
    \<and> (snd (rwlock_try_read (lock s)) \<longleftrightarrow> writers s = 0 \<and> readers s < 2 ^ 63 - 1)
    \<and> (is_done (snd (rwlock_read (lock s))) \<longleftrightarrow> writers s = 0 \<and> readers s < 2 ^ 63 - 1)"
proof -
  have max: "m = isize_MAX \<longleftrightarrow> sint m = 2 ^ 63 - 1" for m :: isize
    by (metis sint_isize_MAX signed_word_eqI)
  have zero: "m = 0 \<longleftrightarrow> sint m = 0" for m :: isize
    by (metis signed_0 signed_word_eqI)
  from rw_reachable_inv[OF assms] show ?thesis
  proof (unfold rw_inv_def, elim disjE conjE)
    assume w: "writers s = 0" and m: "sint (mode (lock s)) = int (readers s)"
    have "int (readers s) \<le> 2 ^ 63 - 1" using sint_bounds(2)[of "mode (lock s)"] m by simp
    then have "readers s = 2 ^ 63 - 1 \<longleftrightarrow> \<not> readers s < 2 ^ 63 - 1" by auto
    moreover have "mode (lock s) = isize_MAX \<longleftrightarrow> readers s = 2 ^ 63 - 1"
      unfolding max m by auto
    moreover have "mode (lock s) = 0 \<longleftrightarrow> readers s = 0"
      unfolding zero m by simp
    ultimately show ?thesis
      using w m by (simp add: rwlock_defs Let_def word_sle_eq)
  next
    assume "writers s = 1" "readers s = 0" "mode (lock s) = - 1"
    then show ?thesis by (simp add: rwlock_defs Let_def word_sle_eq)
  qed
qed

lemma rw_two_readers: "rw_step\<^sup>*\<^sup>* rw_init (rw_init\<lparr> lock := \<lparr> mode = 2 \<rparr>, readers := 2 \<rparr>)"
proof -
  have one: "1 \<noteq> isize_MAX" by (simp add: isize_MAX_def)
  have "rw_step rw_init (rw_init\<lparr> lock := \<lparr> mode = 1 \<rparr>, readers := 1 \<rparr>)"
    using rw_step.read_lock[of rw_init "\<lparr> mode = 1 \<rparr>"]
    by (simp add: rw_init_def rwlock_new_def rwlock_read_def Let_def isize_MAX_def)
  moreover have "rw_step (rw_init\<lparr> lock := \<lparr> mode = 1 \<rparr>, readers := 1 \<rparr>)
      (rw_init\<lparr> lock := \<lparr> mode = 2 \<rparr>, readers := 2 \<rparr>)"
    using rw_step.read_lock[of "rw_init\<lparr> lock := \<lparr> mode = 1 \<rparr>, readers := 1 \<rparr>" "\<lparr> mode = 2 \<rparr>"]
    using one by (simp add: rw_init_def rwlock_read_def Let_def word_sle_eq numeral_2_eq_2)
  ultimately show ?thesis by auto
qed

theorem rwlock_readers_xor_writer_witness:
  "is_done (snd (rwlock_read_unlock \<lparr> mode = 2 \<rparr>))"
  using rwlock_readers_xor_writer[OF rw_two_readers] by simp

theorem rwlock_available_iff_witness:
  "\<not> snd (rwlock_try_write \<lparr> mode = 2 \<rparr>) \<and> snd (rwlock_try_read \<lparr> mode = 2 \<rparr>)"
  using rwlock_available_iff[OF rw_two_readers] by (simp add: rw_init_def)

end
