(* ===== verification/Sync_Once.thy ===== *)
theory Sync_Once
  imports Sync_Locks
begin

text \<open>
  One-time initialisation on a single thread: \<open>Once\<close> (\<open>std/sys-src/sync/once\<close>). The closures the
  operations run see and change the whole state, the cell itself included: a closure that uses
  the cell it initialises is a state transformer like any other. Programs of nested calls, with a
  log of what their initializers do, are what the main property is about.
\<close>

section \<open>Once\<close>

datatype once_cell_state = OnceIncomplete | OncePoisoned | OnceRunning | OnceComplete

datatype once_exclusive_state = ExclIncomplete | ExclPoisoned | ExclComplete

record once_state =
  poisoned :: bool
  set_state_to :: once_cell_state

text \<open>What a closure does, given the \<open>OnceState\<close>: the new world and the \<open>OnceState\<close> it leaves.\<close>

type_synonym 'w once_closure =
  "once_state \<Rightarrow> once_cell_state \<times> 'w \<Rightarrow> (once_cell_state \<times> 'w) \<times> once_state run"

definition once_new :: once_cell_state where "once_new = OnceIncomplete"
definition once_new_complete :: once_cell_state where "once_new_complete = OnceComplete"

definition once_is_completed :: "once_cell_state \<Rightarrow> bool" where
  "once_is_completed st \<longleftrightarrow> st = OnceComplete"

fun once_exclusive :: "once_cell_state \<Rightarrow> once_exclusive_state run" where
  "once_exclusive OnceIncomplete = Done ExclIncomplete"
| "once_exclusive OncePoisoned = Done ExclPoisoned"
| "once_exclusive OnceComplete = Done ExclComplete"
| "once_exclusive OnceRunning = Unwind ''invalid Once state''"

fun once_set_state :: "once_exclusive_state \<Rightarrow> once_cell_state" where
  "once_set_state ExclIncomplete = OnceIncomplete"
| "once_set_state ExclPoisoned = OncePoisoned"
| "once_set_state ExclComplete = OnceComplete"

definition once_wait :: "bool \<Rightarrow> unit run" where
  "once_wait ignore_poisoning = Unwind ''not implementable on this target''"

definition once_is_poisoned :: "once_state \<Rightarrow> bool" where
  "once_is_poisoned s = poisoned s"

definition once_poison :: "once_state \<Rightarrow> once_state" where
  "once_poison s = s\<lparr> set_state_to := OncePoisoned \<rparr>"

text \<open>
  The completion guard sets the state when it is dropped: to \<open>Poisoned\<close> when the closure
  unwinds, to what the closure asked for when it returns. An abort drops nothing.
\<close>

fun completion_guard ::
  "(once_cell_state \<times> 'w) \<times> once_state run \<Rightarrow> (once_cell_state \<times> 'w) \<times> unit run" where
  "completion_guard ((st, w), Done f_state) = ((set_state_to f_state, w), Done ())"
| "completion_guard ((st, w), Unwind msg) = ((OncePoisoned, w), Unwind msg)"
| "completion_guard ((st, w), Abort msg) = ((st, w), Abort msg)"

definition once_call ::
  "bool \<Rightarrow> 'w once_closure \<Rightarrow> once_cell_state \<times> 'w \<Rightarrow> (once_cell_state \<times> 'w) \<times> unit run" where
  "once_call ignore_poisoning f s =
     (case s of (state, w) \<Rightarrow>
        if state = OncePoisoned \<and> \<not> ignore_poisoning
        then (s, Unwind ''Once instance has previously been poisoned'')
        else if state = OnceIncomplete \<or> state = OncePoisoned
        then completion_guard
               (f \<lparr> poisoned = (state = OncePoisoned), set_state_to = OnceComplete \<rparr>
                  (OnceRunning, w))
        else if state = OnceRunning
        then (s, Unwind ''one-time initialization may not be performed recursively'')
        else (s, Done ()))"

subsection \<open>Programs that use a cell\<close>

text \<open>
  What a program does with a cell, as the events it leaves behind: an initializer is started, it
  completes the initialisation, it fails (it panicked, or returned after asking for poisoning),
  and a look at the cell found it completed or not.
\<close>

datatype once_event = Started | Completed | Failed | Saw bool

text \<open>
  The actions of a program and of an initializer: look at the cell, ask for poisoning, panic,
  abort, and call the cell with an initializer of its own, which may call the cell in turn. A
  panic out of a call is caught or passed on.
\<close>

datatype once_action =
    Look
  | AskPoison
  | PanicNow
  | AbortNow
  | CallCell bool bool "once_action list"

text \<open>An initializer with its events.\<close>

definition logged :: "once_event list once_closure \<Rightarrow> once_event list once_closure" where
  "logged f g s =
     (case f g (fst s, snd s @ [Started]) of
        ((st, l), Done g') \<Rightarrow>
          ((st, l @ [if set_state_to g' = OnceComplete then Completed else Failed]), Done g')
      | ((st, l), Unwind m) \<Rightarrow> ((st, l @ [Failed]), Unwind m)
      | ((st, l), Abort m) \<Rightarrow> ((st, l), Abort m))"

fun once_actions :: "once_action list \<Rightarrow> once_event list once_closure" where
  "once_actions [] = (\<lambda>g s. (s, Done g))"
| "once_actions (Look # as) = (\<lambda>g s.
     once_actions as g (fst s, snd s @ [Saw (once_is_completed (fst s))]))"
| "once_actions (AskPoison # as) = (\<lambda>g s. once_actions as (once_poison g) s)"
| "once_actions (PanicNow # as) = (\<lambda>g s. (s, Unwind ''panic''))"
| "once_actions (AbortNow # as) = (\<lambda>g s. (s, Abort ''abort''))"
| "once_actions (CallCell ignore_poisoning catches body # as) = (\<lambda>g s.
     (case once_call ignore_poisoning (logged (once_actions body)) s of
        (s', Done _) \<Rightarrow> once_actions as g s'
      | (s', Unwind m) \<Rightarrow> if catches then once_actions as g s' else (s', Unwind m)
      | (s', Abort m) \<Rightarrow> (s', Abort m)))"

text \<open>
  The orders of events a cell is meant to allow: one initializer at a time, none after one has
  completed, and looks that see the completion exactly from then on.
\<close>

datatype once_phase = Idle | Busy | Over

fun once_phase_step :: "once_event \<Rightarrow> once_phase option \<Rightarrow> once_phase option" where
  "once_phase_step Started (Some Idle) = Some Busy"
| "once_phase_step Completed (Some Busy) = Some Over"
| "once_phase_step Failed (Some Busy) = Some Idle"
| "once_phase_step (Saw b) (Some ph) = (if b = (ph = Over) then Some ph else None)"
| "once_phase_step _ _ = None"

definition once_phase :: "once_event list \<Rightarrow> once_phase option" where
  "once_phase l = fold once_phase_step l (Some Idle)"

lemma once_phase_Nil [simp]: "once_phase [] = Some Idle"
  by (simp add: once_phase_def)

lemma once_phase_snoc [simp]: "once_phase (l @ [e]) = once_phase_step e (once_phase l)"
  by (simp add: once_phase_def)

definition once_agrees :: "once_cell_state \<Rightarrow> once_event list \<Rightarrow> bool" where
  "once_agrees st l \<longleftrightarrow>
     once_phase l =
       Some (case st of OnceComplete \<Rightarrow> Over | OnceRunning \<Rightarrow> Busy | _ \<Rightarrow> Idle)"

lemma once_agrees_simps [simp]:
  "once_agrees OnceComplete l \<longleftrightarrow> once_phase l = Some Over"
  "once_agrees OnceRunning l \<longleftrightarrow> once_phase l = Some Busy"
  "once_agrees OnceIncomplete l \<longleftrightarrow> once_phase l = Some Idle"
  "once_agrees OncePoisoned l \<longleftrightarrow> once_phase l = Some Idle"
  by (simp_all add: once_agrees_def)

lemma once_agrees_look: "once_agrees st l \<Longrightarrow> once_agrees st (l @ [Saw (once_is_completed st)])"
  by (cases st) (simp_all add: once_is_completed_def)

text \<open>What a piece of program keeps: the events agree with the cell, and only an abort leaves it running.\<close>

definition once_kept ::
  "once_cell_state \<Rightarrow> (once_cell_state \<times> once_event list) \<times> 'r run \<Rightarrow> bool" where
  "once_kept st r \<longleftrightarrow>
     (case r of ((st', l'), res) \<Rightarrow>
        once_agrees st' l' \<and> ((\<nexists>m. res = Abort m) \<longrightarrow> (st' = OnceRunning \<longleftrightarrow> st = OnceRunning)))"

lemma once_call_kept:
  assumes "once_agrees st l"
    and body: "\<And>g l. once_phase l = Some Busy \<Longrightarrow> set_state_to g = OnceComplete \<Longrightarrow>
      once_kept OnceRunning (f g (OnceRunning, l)) \<and>
      (\<forall>s' g'. f g (OnceRunning, l) = (s', Done g') \<longrightarrow> set_state_to g' \<in> {OnceComplete, OncePoisoned})"
  shows "once_kept st (once_call ignore_poisoning (logged f) (st, l))"
proof (cases "st = OnceIncomplete \<or> st = OncePoisoned \<and> ignore_poisoning")
  case True
  let ?g = "\<lparr> poisoned = (st = OncePoisoned), set_state_to = OnceComplete \<rparr>"
  have "once_phase (l @ [Started]) = Some Busy" using True assms(1) by auto
  note b = body [OF this, of ?g]
  obtain st1 l1 r1 where f: "f ?g (OnceRunning, l @ [Started]) = ((st1, l1), r1)" by (metis surj_pair)
  show ?thesis
    using True b f
    by (cases r1) (auto simp: once_call_def once_kept_def logged_def)
next
  case False
  then show ?thesis using assms(1) by (auto simp: once_call_def once_kept_def)
qed

lemma once_actions_kept:
  "once_agrees st l \<Longrightarrow> set_state_to g \<in> {OnceComplete, OncePoisoned} \<Longrightarrow>
   once_kept st (once_actions as g (st, l)) \<and>
   (\<forall>s' g'. once_actions as g (st, l) = (s', Done g') \<longrightarrow>
      set_state_to g' \<in> {OnceComplete, OncePoisoned})"
proof (induction as arbitrary: g st l rule: once_actions.induct)
  case (2 as)
  show ?case using "2.IH" [OF once_agrees_look [OF "2.prems"(1)] "2.prems"(2)] by simp
next
  case (3 as)
  have "set_state_to (once_poison g) \<in> {OnceComplete, OncePoisoned}" by (simp add: once_poison_def)
  from "3.IH" [OF "3.prems"(1) this] show ?case by simp
next
  case (6 ignore_poisoning catches body as)
  obtain st' l' r where c: "once_call ignore_poisoning (logged (once_actions body)) (st, l) = ((st', l'), r)"
    by (metis surj_pair)
  have "once_kept st (once_call ignore_poisoning (logged (once_actions body)) (st, l))"
    by (rule once_call_kept [OF "6.prems"(1)], rule "6.IH"(1)) simp_all
  then have k: "once_agrees st' l'" "(\<nexists>m. r = Abort m) \<Longrightarrow> st' = OnceRunning \<longleftrightarrow> st = OnceRunning"
    by (simp_all add: c once_kept_def)
  show ?case
  proof (cases "(\<exists>m. r = Abort m) \<or> (\<exists>m. r = Unwind m) \<and> \<not> catches")
    case True
    then show ?thesis using k by (auto simp: c once_kept_def)
  next
    case False
    then have IH: "once_kept st' (once_actions as g (st', l')) \<and>
      (\<forall>s' g'. once_actions as g (st', l') = (s', Done g') \<longrightarrow>
        set_state_to g' \<in> {OnceComplete, OncePoisoned})"
      using "6.IH"(2,3) [OF c [symmetric]] k(1) "6.prems"(2) by (cases r) blast+
    from False have "once_actions (CallCell ignore_poisoning catches body # as) g (st, l)
      = once_actions as g (st', l')"
      by (cases r) (simp_all add: c)
    with IH k(2) False show ?thesis by (auto simp: once_kept_def split: prod.splits)
  qed
qed (auto simp: once_kept_def)

lemma once_phase_None [simp]: "fold once_phase_step l None = None"
  by (induction l) simp_all

lemma once_phase_append: "once_phase (l1 @ l2) = fold once_phase_step l2 (once_phase l1)"
  by (simp add: once_phase_def)

lemma once_phase_step_Some:
  "once_phase_step e (Some ph) = Some ph' \<Longrightarrow>
   (ph' = Over \<longleftrightarrow> ph = Over \<or> e = Completed) \<and> (ph = Over \<longrightarrow> e \<noteq> Started \<and> e \<noteq> Completed)"
  by (cases e; cases ph) (auto split: if_splits)

lemma once_phase_Over: "once_phase l = Some ph \<Longrightarrow> ph = Over \<longleftrightarrow> Completed \<in> set l"
proof (induction l arbitrary: ph rule: rev_induct)
  case (snoc e l)
  then obtain ph1 where ph1: "once_phase l = Some ph1" by (cases "once_phase l") simp_all
  with snoc show ?case using once_phase_step_Some [of e ph1 ph] by auto
qed simp

lemma once_phase_after_Completed:
  "fold once_phase_step l (Some Over) \<noteq> None \<Longrightarrow> Started \<notin> set l \<and> Completed \<notin> set l"
proof (induction l)
  case (Cons e l)
  then have "once_phase_step e (Some Over) = Some Over" by (cases e) (auto split: if_splits)
  with Cons show ?case using once_phase_step_Some [of e Over Over] by auto
qed simp

lemma once_phase_second_Started:
  "fold once_phase_step (mid @ Started # post) (Some Busy) \<noteq> None \<Longrightarrow> Failed \<in> set mid"
proof (induction mid)
  case (Cons e mid)
  have over: "fold once_phase_step (mid @ Started # post) (Some Over) = None"
    using once_phase_after_Completed [of "mid @ Started # post"]
    by (cases "fold once_phase_step (mid @ Started # post) (Some Over) = None") auto
  with Cons show ?case by (cases e) (auto split: if_splits)
qed simp

definition once_program ::
  "once_action list \<Rightarrow> (once_cell_state \<times> once_event list) \<times> once_state run" where
  "once_program as = once_actions as \<lparr> poisoned = False, set_state_to = OnceComplete \<rparr> (once_new, [])"

text \<open>
  C23: Whatever a program does with a fresh cell - calls with initializers that look at the cell,
  ask for poisoning, panic, abort, or call the same cell again, with the panics of inner and outer
  calls caught or not - at most one initializer completes, and none is started after one has; an
  initializer is never started while another one runs; the cell is seen completed exactly from
  the completion on; and unless the program aborts, the cell is not left running, and it is
  completed exactly when an initializer completed.
\<close>

theorem once_completes_once:
  assumes "once_program as = ((st, log), r)"
  shows "(\<forall>before after. log = before @ Completed # after \<longrightarrow>
        Started \<notin> set after \<and> Completed \<notin> set after) \<and>
    (\<forall>before between after. log = before @ Started # between @ Started # after \<longrightarrow>
        Failed \<in> set between) \<and>
    (\<forall>before b after. log = before @ Saw b # after \<longrightarrow> b = (Completed \<in> set before)) \<and>
    ((\<nexists>m. r = Abort m) \<longrightarrow>
        st \<noteq> OnceRunning \<and> (once_is_completed st \<longleftrightarrow> Completed \<in> set log))"
proof -
  have k: "once_kept OnceIncomplete (once_program as)"
    unfolding once_program_def once_new_def
    by (rule once_actions_kept [THEN conjunct1]) simp_all
  then have phase: "once_phase log \<noteq> None" and agrees: "once_agrees st log"
    by (auto simp: assms once_kept_def once_agrees_def)
  have pre: "once_phase before \<noteq> None" if "log = before @ after" for before after
    using phase that once_phase_append [of before after] by (cases "once_phase before") auto
  have "Started \<notin> set after \<and> Completed \<notin> set after" if l: "log = before @ Completed # after" for before after
  proof -
    have "once_phase (before @ [Completed]) = Some Over"
      using pre [of "before @ [Completed]" after] once_phase_Over [of "before @ [Completed]"] l by auto
    then show ?thesis
      using phase once_phase_append [of "before @ [Completed]" after] l
      by (intro once_phase_after_Completed) simp
  qed
  moreover have "Failed \<in> set between" if l: "log = before @ Started # between @ Started # after"
    for before between after
  proof -
    have "once_phase_step Started (once_phase before) = Some Busy"
      using pre [of "before @ [Started]"] l
      by (cases "once_phase before"; cases "the (once_phase before)") auto
    then show ?thesis
      using phase once_phase_append [of "before @ [Started]" "between @ Started # after"] l
      by (intro once_phase_second_Started) simp
  qed
  moreover have "b = (Completed \<in> set before)" if l: "log = before @ Saw b # after" for before b after
  proof -
    obtain ph where ph: "once_phase before = Some ph" using pre l by blast
    then have "b = (ph = Over)"
      using pre [of "before @ [Saw b]" after] l by (auto split: if_splits)
    with once_phase_Over [OF ph] show ?thesis by simp
  qed
  moreover have "st \<noteq> OnceRunning" if "\<nexists>m. r = Abort m"
    using k that by (simp add: assms once_kept_def)
  moreover have "once_is_completed st \<longleftrightarrow> Completed \<in> set log"
    using agrees once_phase_Over [of log] by (cases st) (auto simp: once_is_completed_def)
  ultimately show ?thesis by blast
qed

text \<open>
  An initializer that calls the cell again and catches the panic, one that panics, and calls that
  ignore the poisoning.
\<close>

definition once_example :: "once_action list" where
  "once_example =
     [CallCell False True [CallCell True False []],
      CallCell False True [],
      CallCell True True [CallCell True True [Look], Look],
      Look, CallCell False False [PanicNow]]"

lemma once_example_run:
  "once_program once_example =
     ((OnceComplete, [Started, Failed, Started, Saw False, Completed, Saw True]),
      Done \<lparr> poisoned = False, set_state_to = OnceComplete \<rparr>)"
  by (simp add: once_example_def once_program_def once_new_def once_call_def logged_def
      once_is_completed_def)

theorem once_completes_once_witness:
  "once_program once_example =
     ((OnceComplete, [Started, Failed, Started, Saw False, Completed, Saw True]),
      Done \<lparr> poisoned = False, set_state_to = OnceComplete \<rparr>) \<and>
   Failed \<in> set [Failed] \<and> True = (Completed \<in> set [Started, Failed, Started, Saw False, Completed])"
  using once_example_run once_completes_once [OF once_example_run] by simp

definition counting_init :: "nat once_closure" where
  "counting_init g s = ((fst s, Suc (snd s)), Done g)"

text \<open>
  A closure that calls the same cell again makes the inner call panic, whatever it ignores
  and whatever it was given to run; when that panic is not caught the cell is poisoned, and the
  next call panics unless it ignores poisoning.
\<close>

definition recursive_closure :: "bool \<Rightarrow> 'w once_closure \<Rightarrow> 'w once_closure" where
  "recursive_closure ignore f g s =
     (case once_call ignore f s of
        (s', Done _) \<Rightarrow> (s', Done g) | (s', Unwind m) \<Rightarrow> (s', Unwind m) | (s', Abort m) \<Rightarrow> (s', Abort m))"

theorem once_recursion_poisons:
  "st \<in> {OnceIncomplete, OncePoisoned} \<Longrightarrow>
   once_call True (recursive_closure ignore f) (st, w)
     = ((OncePoisoned, w), Unwind ''one-time initialization may not be performed recursively'')
   \<and> once_call False f' (OncePoisoned, w)
     = ((OncePoisoned, w), Unwind ''Once instance has previously been poisoned'')"
  by (auto simp: once_call_def recursive_closure_def)

theorem once_recursion_poisons_witness:
  "once_call True (recursive_closure False counting_init) (once_new, 0)
     = ((OncePoisoned, 0), Unwind ''one-time initialization may not be performed recursively'')"
  using once_recursion_poisons[of once_new False counting_init 0 counting_init]
  by (simp add: once_new_def)

end
