(* ===== verification/Thread_Local.thy ===== *)
theory Thread_Local
  imports Sync_Locks
begin

text \<open>
  Thread-local storage without threads (\<open>std/sys-src/thread_local\<close>): the eager and the lazy
  storage, the local pointer, the guard around destructors, and the clean-up callback that is
  re-armed until no other destructor runs.
\<close>

section \<open>Lazy storage\<close>

datatype tls_state = TlsInitial | TlsAlive | TlsDestroying

text \<open>The value is \<open>None\<close> while the memory is uninitialised.\<close>

record 'a lazy_storage =
  tls_value :: "'a option"
  tls_state :: tls_state

definition lazy_storage_new :: "'a lazy_storage" where
  "lazy_storage_new = \<lparr> tls_value = None, tls_state = TlsInitial \<rparr>"

text \<open>
  The initialiser and the destructor of the type run arbitrary code: they change the world and,
  through \<open>get\<close>, the storage itself.
\<close>

type_synonym ('a, 'w) tls_init =
  "'a lazy_storage \<times> 'w \<Rightarrow> ('a lazy_storage \<times> 'w) \<times> 'a run"
type_synonym ('a, 'w) tls_drop =
  "'a \<Rightarrow> 'a lazy_storage \<times> 'w \<Rightarrow> ('a lazy_storage \<times> 'w) \<times> unit run"

text \<open>Unwinding past a value drops it; a second panic while unwinding aborts.\<close>

definition unwind_dropping ::
  "('a, 'w) tls_drop \<Rightarrow> 'a \<Rightarrow> string \<Rightarrow> 'a lazy_storage \<times> 'w \<Rightarrow>
   ('a lazy_storage \<times> 'w) \<times> 'b run" where
  "unwind_dropping drp v msg sw =
     (case drp v sw of
        (sw', Done _) \<Rightarrow> (sw', Unwind msg)
      | (sw', Unwind _) \<Rightarrow> (sw', Abort ''panic in a destructor during cleanup'')
      | (sw', Abort m) \<Rightarrow> (sw', Abort m))"

text \<open>\<open>i.and_then(Option::take).unwrap_or_else(f)\<close>, with what is left in the caller's option.\<close>

definition take_or_init ::
  "'a option option \<Rightarrow> ('a, 'w) tls_init \<Rightarrow> 'a lazy_storage \<times> 'w \<Rightarrow>
   ('a lazy_storage \<times> 'w) \<times> 'a option option \<times> 'a run" where
  "take_or_init i f sw =
     (case i of
        Some (Some v) \<Rightarrow> (sw, Some None, Done v)
      | _ \<Rightarrow> (case f sw of (sw', r) \<Rightarrow> (sw', i, r)))"

definition destroy_old ::
  "('a, 'w) tls_drop \<Rightarrow> 'a lazy_storage \<times> 'w \<Rightarrow> ('a lazy_storage \<times> 'w) \<times> unit run" where
  "destroy_old drp sw =
     (case sw of (s, w) \<Rightarrow>
        if tls_state s = TlsAlive
        then case tls_value s of
            None \<Rightarrow> (sw, Abort ''undefined: dropping an uninitialised value'')
          | Some old \<Rightarrow>
              (case drp old (s\<lparr> tls_state := TlsDestroying \<rparr>, w) of
                 ((s', w'), Done _) \<Rightarrow> ((s'\<lparr> tls_state := TlsInitial \<rparr>, w'), Done ())
               | (sw', Unwind m) \<Rightarrow> (sw', Unwind m)
               | (sw', Abort m) \<Rightarrow> (sw', Abort m))
        else (sw, Done ()))"

definition lazy_initialize ::
  "('a, 'w) tls_drop \<Rightarrow> 'a option option \<Rightarrow> ('a, 'w) tls_init \<Rightarrow> 'a lazy_storage \<times> 'w \<Rightarrow>
   ('a lazy_storage \<times> 'w) \<times> 'a option option \<times> 'a option run" where
  "lazy_initialize drp i f sw =
     (case take_or_init i f sw of
        (sw1, i1, Unwind m) \<Rightarrow> (sw1, i1, Unwind m)
      | (sw1, i1, Abort m) \<Rightarrow> (sw1, i1, Abort m)
      | (sw1, i1, Done v) \<Rightarrow>
          (case destroy_old drp sw1 of
             (sw2, Unwind m) \<Rightarrow> (case unwind_dropping drp v m sw2 of (sw3, r) \<Rightarrow> (sw3, i1, r))
           | (sw2, Abort m) \<Rightarrow> (sw2, i1, Abort m)
           | ((s2, w2), Done _) \<Rightarrow>
               if tls_state s2 = TlsDestroying
               then (case unwind_dropping drp v
                        ''Attempted to initialize thread-local while it is being dropped'' (s2, w2)
                     of (sw3, r) \<Rightarrow> (sw3, i1, r))
               else ((\<lparr> tls_value = Some v, tls_state = TlsAlive \<rparr>, w2), i1, Done (Some v))))"

text \<open>\<open>get\<close>: the result is what the returned pointer points to.\<close>

definition lazy_get ::
  "('a, 'w) tls_drop \<Rightarrow> 'a option option \<Rightarrow> ('a, 'w) tls_init \<Rightarrow> 'a lazy_storage \<times> 'w \<Rightarrow>
   ('a lazy_storage \<times> 'w) \<times> 'a option option \<times> 'a option run" where
  "lazy_get drp i f sw =
     (if tls_state (fst sw) = TlsAlive then (sw, i, Done (tls_value (fst sw)))
      else lazy_initialize drp i f sw)"

subsection \<open>Invariant\<close>

definition storage_ok :: "'a lazy_storage \<Rightarrow> bool" where
  "storage_ok s \<longleftrightarrow> (tls_state s = TlsAlive \<longrightarrow> tls_value s \<noteq> None)"

text \<open>
  Code that keeps the storage: it leaves it well-formed, and as it is while the value is being
  destroyed. Code that does not touch the storage is of this kind, and so is code that calls
  \<open>get\<close> (below), so the initialisers and destructors may be recursive.
\<close>

definition keeps_storage ::
  "('a lazy_storage \<times> 'w \<Rightarrow> ('a lazy_storage \<times> 'w) \<times> 'b) \<Rightarrow> bool" where
  "keeps_storage f \<longleftrightarrow>
     (\<forall>s w. storage_ok s \<longrightarrow>
        storage_ok (fst (fst (f (s, w)))) \<and>
        (tls_state s = TlsDestroying \<longrightarrow> fst (fst (f (s, w))) = s))"

lemma keeps_storageD:
  assumes "keeps_storage f" and "storage_ok s" and "f (s, w) = ((s', w'), r)"
  shows "storage_ok s'" and "tls_state s = TlsDestroying \<Longrightarrow> s' = s"
  using assms unfolding keeps_storage_def by (metis fst_conv)+

lemma keeps_storage_unchanged: "(\<And>s w. fst (fst (f (s, w))) = s) \<Longrightarrow> keeps_storage f"
  by (simp add: keeps_storage_def)

lemma unwind_dropping_keeps: "keeps_storage (drp v) \<Longrightarrow> keeps_storage (unwind_dropping drp v m)"
  unfolding keeps_storage_def unwind_dropping_def
  by (auto split: prod.splits run.splits) (metis fst_conv)+

lemma unwind_dropping_not_Done: "unwind_dropping drp v m sw = (sw', r) \<Longrightarrow> r \<noteq> Done p"
  by (auto simp: unwind_dropping_def split: prod.splits run.splits)

lemma take_or_init_keeps:
  assumes "keeps_storage f" and "storage_ok s" and "take_or_init i f (s, w) = ((s', w'), i', r)"
  shows "storage_ok s'" and "tls_state s = TlsDestroying \<Longrightarrow> s' = s"
  using assms
  by (auto simp: take_or_init_def split: option.splits prod.splits dest: keeps_storageD)

lemma destroy_old_keeps:
  assumes drp: "\<And>v. keeps_storage (drp v)" and ok: "storage_ok s"
    and "destroy_old drp (s, w) = ((s', w'), r)"
  shows "storage_ok s'" and "tls_state s = TlsDestroying \<Longrightarrow> s' = s"
    and "tls_state s \<noteq> TlsDestroying \<Longrightarrow> r = Done () \<Longrightarrow> tls_state s' = TlsInitial"
proof -
  have d: "storage_ok s1" if "drp old (s\<lparr> tls_state := TlsDestroying \<rparr>, w) = ((s1, w1), r1)"
    for old s1 w1 r1
    using keeps_storageD[OF drp _ that] by (simp add: storage_ok_def)
  have i: "storage_ok (s1\<lparr> tls_state := TlsInitial \<rparr>)" for s1 :: "'a lazy_storage"
    by (simp add: storage_ok_def)
  show "storage_ok s'" "tls_state s = TlsDestroying \<Longrightarrow> s' = s"
    "tls_state s \<noteq> TlsDestroying \<Longrightarrow> r = Done () \<Longrightarrow> tls_state s' = TlsInitial"
    using assms(3) ok d i
    by (auto simp: destroy_old_def storage_ok_def split: if_splits option.splits prod.splits run.splits)
      (metis tls_state.exhaust)+
qed

lemma lazy_initialize_keeps:
  assumes f: "keeps_storage f" and drp: "\<And>v. keeps_storage (drp v)" and ok: "storage_ok s"
    and run: "lazy_initialize drp i f (s, w) = ((s', w'), i', r)"
  shows "storage_ok s'" and "tls_state s = TlsDestroying \<Longrightarrow> s' = s"
    and "r = Done p \<Longrightarrow> tls_state s \<noteq> TlsDestroying \<and> tls_state s' = TlsAlive
           \<and> p = tls_value s' \<and> p \<noteq> None"
proof -
  obtain s1 w1 i1 r1 where t: "take_or_init i f (s, w) = ((s1, w1), i1, r1)"
    by (metis surj_pair)
  note s1 = take_or_init_keeps[OF f ok t]
  have "storage_ok s' \<and> (tls_state s = TlsDestroying \<longrightarrow> s' = s) \<and>
    (r = Done p \<longrightarrow> tls_state s \<noteq> TlsDestroying \<and> tls_state s' = TlsAlive
       \<and> p = tls_value s' \<and> p \<noteq> None)"
  proof (cases r1)
    case (Done v)
    obtain s2 w2 r2 where d: "destroy_old drp (s1, w1) = ((s2, w2), r2)" by (metis surj_pair)
    note s2 = destroy_old_keeps[OF drp s1(1) d]
    have u: "storage_ok s3 \<and> (tls_state s2 = TlsDestroying \<longrightarrow> s3 = s2)"
      if "unwind_dropping drp v m (s2, w2) = ((s3, w3), q)" for m s3 w3 and q :: "'a option run"
      using keeps_storageD[OF unwind_dropping_keeps[OF drp] s2(1) that] by blast
    show ?thesis
      using run t d Done s1 s2 u
      by (auto simp: lazy_initialize_def storage_ok_def dest: unwind_dropping_not_Done
          split: run.splits prod.splits if_splits)
  qed (use run t s1 in \<open>auto simp: lazy_initialize_def\<close>)
  then show "storage_ok s'" "tls_state s = TlsDestroying \<Longrightarrow> s' = s"
    "r = Done p \<Longrightarrow> tls_state s \<noteq> TlsDestroying \<and> tls_state s' = TlsAlive
       \<and> p = tls_value s' \<and> p \<noteq> None"
    by blast+
qed

text \<open>
  C34: \<open>get\<close> never hands out uninitialised memory: on well-formed storage, with initialisers and
  destructors that may call \<open>get\<close> themselves, it leaves the storage well-formed, and when it
  returns, the storage is alive and the pointer leads to its value. While the value is being
  destroyed it does not return and does not touch the storage.
\<close>

theorem lazy_get_initialised:
  assumes "keeps_storage f" and "\<And>v. keeps_storage (drp v)" and "storage_ok s"
    and "lazy_get drp i f (s, w) = ((s', w'), i', r)"
  shows "storage_ok s'
    \<and> (tls_state s = TlsDestroying \<longrightarrow> s' = s \<and> \<not> is_done r)
    \<and> (\<forall>p. r = Done p \<longrightarrow> tls_state s' = TlsAlive \<and> p = tls_value s' \<and> p \<noteq> None)"
proof (cases "tls_state s = TlsAlive")
  case True
  with assms(3,4) show ?thesis by (auto simp: lazy_get_def storage_ok_def)
next
  case False
  then have "lazy_initialize drp i f (s, w) = ((s', w'), i', r)"
    using assms(4) by (simp add: lazy_get_def)
  note run = lazy_initialize_keeps[OF assms(1-3) this]
  have "tls_state s = TlsDestroying \<longrightarrow> \<not> is_done r"
    using run(3) by (cases r) auto
  with run show ?thesis by blast
qed

text \<open>So code that calls \<open>get\<close> keeps the storage.\<close>

lemma lazy_get_keeps_storage:
  assumes "keeps_storage f" and "\<And>v. keeps_storage (drp v)"
  shows "keeps_storage (lazy_get drp i f)"
proof (unfold keeps_storage_def, intro allI impI)
  fix s w assume ok: "storage_ok (s :: 'a lazy_storage)"
  obtain s' w' i' r where run: "lazy_get drp i f (s, w) = ((s', w'), i', r)"
    by (metis surj_pair)
  have "storage_ok s' \<and> (tls_state s = TlsDestroying \<longrightarrow> s' = s)"
  proof (cases "tls_state s = TlsAlive")
    case True
    with run ok show ?thesis by (auto simp: lazy_get_def)
  next
    case False
    then have "lazy_initialize drp i f (s, w) = ((s', w'), i', r)"
      using run by (simp add: lazy_get_def)
    from lazy_initialize_keeps(1,2)[OF assms ok this] show ?thesis by blast
  qed
  with run show "storage_ok (fst (fst (lazy_get drp i f (s, w)))) \<and>
      (tls_state s = TlsDestroying \<longrightarrow> fst (fst (lazy_get drp i f (s, w))) = s)"
    by simp
qed

text \<open>The destructor that logs what it drops.\<close>

definition logging_drop :: "(nat, nat list) tls_drop" where
  "logging_drop v sw = ((fst sw, snd sw @ [v]), Done ())"

definition plain_init :: "nat \<Rightarrow> (nat, nat list) tls_init" where
  "plain_init v sw = (sw, Done v)"

definition recursive_init :: "nat \<Rightarrow> (nat, nat list) tls_init \<Rightarrow> (nat, nat list) tls_init" where
  "recursive_init v f sw =
     (case lazy_get logging_drop None f sw of
        (sw', _, Done _) \<Rightarrow> (sw', Done v)
      | (sw', _, Unwind m) \<Rightarrow> (sw', Unwind m)
      | (sw', _, Abort m) \<Rightarrow> (sw', Abort m))"

lemma plain_keeps [simp]: "keeps_storage (logging_drop v)" "keeps_storage (plain_init v)"
  by (simp_all add: keeps_storage_unchanged logging_drop_def plain_init_def)

lemma recursive_keeps: "keeps_storage f \<Longrightarrow> keeps_storage (recursive_init v f)"
proof -
  assume f: "keeps_storage f"
  have "keeps_storage (lazy_get logging_drop None f)"
    by (rule lazy_get_keeps_storage[OF f]) simp
  moreover have "fst (recursive_init v f sw) = fst (lazy_get logging_drop None f sw)" for sw
    by (simp add: recursive_init_def split: prod.splits run.splits)
  ultimately show ?thesis by (simp add: keeps_storage_def)
qed

theorem lazy_get_initialised_witness:
  "\<exists>s' w' i' r. lazy_get logging_drop None (recursive_init 7 (plain_init 5)) (lazy_storage_new, [])
       = ((s', w'), i', r)
     \<and> r = Done (Some 7) \<and> tls_state s' = TlsAlive \<and> tls_value s' = Some 7"
proof -
  obtain s' w' i' r where run: "lazy_get logging_drop None (recursive_init 7 (plain_init 5))
      (lazy_storage_new, []) = ((s', w'), i', r)" by (metis surj_pair)
  have r: "r = Done (Some 7)"
    using run by (simp add: lazy_get_def lazy_initialize_def take_or_init_def recursive_init_def
        destroy_old_def lazy_storage_new_def plain_init_def logging_drop_def split: if_splits)
  have "storage_ok lazy_storage_new" by (simp add: storage_ok_def lazy_storage_new_def)
  with lazy_get_initialised[of "recursive_init 7 (plain_init 5)" logging_drop, OF _ _ _ run]
    recursive_keeps[OF plain_keeps(2)] r run
  show ?thesis by auto
qed

lemma lazy_get_Done:
  assumes "lazy_get drp i f sw = ((s', w'), i', Done p)"
  shows "tls_state (fst sw) = TlsAlive \<and> s' = fst sw
    \<or> (\<exists>v. s' = \<lparr> tls_value = Some v, tls_state = TlsAlive \<rparr> \<and> p = Some v)"
proof (cases "tls_state (fst sw) = TlsAlive")
  case True
  with assms show ?thesis by (simp add: lazy_get_def)
next
  case False
  with assms have run: "lazy_initialize drp i f sw = ((s', w'), i', Done p)"
    by (simp add: lazy_get_def)
  obtain sw1 i1 r1 where t: "take_or_init i f sw = (sw1, i1, r1)" by (metis surj_pair)
  obtain s2 w2 r2 where d: "destroy_old drp sw1 = ((s2, w2), r2)" by (metis surj_pair)
  from run obtain v where v: "r1 = Done v" by (cases r1) (simp_all add: lazy_initialize_def t)
  have u: "unwind_dropping drp v m (s2, w2) \<noteq> (x, Done p)" for m x
    by (metis unwind_dropping_not_Done)
  show ?thesis
  proof (cases r2)
    case (Done x)
    with run u show ?thesis
      by (auto simp: lazy_initialize_def t d v split: if_splits prod.splits)
  qed (use run u in \<open>auto simp: lazy_initialize_def t d v split: prod.splits\<close>)
qed

text \<open>
  Of a recursive initialisation the outer value wins and the value the inner \<open>get\<close> stored is
  dropped exactly once; after that \<open>get\<close> returns the value without running anything.
\<close>

theorem lazy_get_recursive:
  assumes "recursive_init v f (lazy_storage_new, log) = ((s1, log1), Done v)"
  shows "\<exists>old. tls_value s1 = Some old
    \<and> lazy_get logging_drop None (recursive_init v f) (lazy_storage_new, log)
        = ((\<lparr> tls_value = Some v, tls_state = TlsAlive \<rparr>, log1 @ [old]), None, Done (Some v))
    \<and> lazy_get logging_drop i' f' (\<lparr> tls_value = Some v, tls_state = TlsAlive \<rparr>, log')
        = ((\<lparr> tls_value = Some v, tls_state = TlsAlive \<rparr>, log'), i', Done (Some v))"
proof -
  obtain i1 p where "lazy_get logging_drop None f (lazy_storage_new, log) = ((s1, log1), i1, Done p)"
    using assms by (auto simp: recursive_init_def split: prod.splits run.splits)
  from lazy_get_Done[OF this] obtain old where
    old: "s1 = \<lparr> tls_value = Some old, tls_state = TlsAlive \<rparr>"
    by (auto simp: lazy_storage_new_def)
  have "take_or_init None (recursive_init v f) (lazy_storage_new, log) = ((s1, log1), None, Done v)"
    using assms by (simp add: take_or_init_def)
  moreover have "destroy_old logging_drop (s1, log1)
      = ((s1\<lparr> tls_state := TlsInitial \<rparr>, log1 @ [old]), Done ())"
    by (simp add: old destroy_old_def logging_drop_def)
  ultimately have "lazy_get logging_drop None (recursive_init v f) (lazy_storage_new, log)
      = ((\<lparr> tls_value = Some v, tls_state = TlsAlive \<rparr>, log1 @ [old]), None, Done (Some v))"
    by (simp add: lazy_get_def lazy_initialize_def lazy_storage_new_def)
  then show ?thesis by (simp add: old lazy_get_def)
qed

theorem lazy_get_recursive_witness:
  "lazy_get logging_drop None (recursive_init 7 (plain_init 5)) (lazy_storage_new, [])
     = ((\<lparr> tls_value = Some 7, tls_state = TlsAlive \<rparr>, [5]), None, Done (Some 7))"
proof -
  have run: "recursive_init 7 (plain_init 5) (lazy_storage_new, [])
      = ((\<lparr> tls_value = Some 5, tls_state = TlsAlive \<rparr>, []), Done 7)"
    by (simp add: recursive_init_def lazy_get_def lazy_initialize_def take_or_init_def
        destroy_old_def lazy_storage_new_def plain_init_def)
  from lazy_get_recursive[OF run] show ?thesis by auto
qed

section \<open>Eager storage, local pointers, destructors\<close>

definition eager_get :: "'a \<Rightarrow> 'a" where "eager_get value = value"

record local_pointer =
  lp :: "64 word"

definition local_pointer_new :: local_pointer where "local_pointer_new = \<lparr> lp = 0 \<rparr>"
definition local_pointer_get :: "local_pointer \<Rightarrow> 64 word" where "local_pointer_get l = lp l"
definition local_pointer_set :: "64 word \<Rightarrow> local_pointer \<Rightarrow> local_pointer" where
  "local_pointer_set p l = l\<lparr> lp := p \<rparr>"

definition abort_on_dtor_unwind :: "unit run \<Rightarrow> unit run" where
  "abort_on_dtor_unwind r =
     (case r of
        Done _ \<Rightarrow> Done ()
      | Unwind _ \<Rightarrow> Abort ''thread local panicked on drop''
      | Abort m \<Rightarrow> Abort m)"

section \<open>The clean-up guard\<close>

text \<open>
  One key holds the state of the clean-up: \<open>enable\<close> and \<open>run\<close> force it and set the thread's
  value of it. The operations on keys, and \<open>rt::thread_cleanup\<close>, are arguments; setting a value
  that is not null arms the destructor \<open>run\<close> for the next round of destruction.
\<close>

definition DEFER :: "64 word" where "DEFER = 1"
definition RUN :: "64 word" where "RUN = 2"

record 's tls_keys =
  tk_force :: "'s \<Rightarrow> (usize \<times> 's) exec"
  tk_set :: "usize \<Rightarrow> 64 word \<Rightarrow> 's \<Rightarrow> 's exec"

definition guard_set :: "'s tls_keys \<Rightarrow> 64 word \<Rightarrow> 's \<Rightarrow> 's exec" where
  "guard_set ks v s = bind_exec (tk_force ks s) (\<lambda>(key, s1). tk_set ks key v s1)"

definition guard_enable :: "'s tls_keys \<Rightarrow> 's \<Rightarrow> 's exec" where
  "guard_enable ks s = guard_set ks DEFER s"

definition guard_run ::
  "bool \<Rightarrow> 's tls_keys \<Rightarrow> ('s \<Rightarrow> 's exec) \<Rightarrow> 64 word \<Rightarrow> 's \<Rightarrow> 's exec" where
  "guard_run debug_assertions ks thread_cleanup state s =
     (if state = DEFER then guard_set ks RUN s
      else if debug_assertions \<and> state \<noteq> RUN then Panic ''assertion `left == right` failed''
      else thread_cleanup s)"

text \<open>
  A platform with thread-local keys, as far as one key of one thread goes: its slot, null while
  it is unset, and how often the clean-up was called for.
\<close>

record guard_state =
  slot :: "64 word"
  cleanups :: nat

definition slot_keys :: "guard_state tls_keys" where
  "slot_keys = \<lparr> tk_force = (\<lambda>g. Ret (1, g)), tk_set = (\<lambda>key v g. Ret (g\<lparr> slot := v \<rparr>)) \<rparr>"

definition count_cleanup :: "guard_state \<Rightarrow> guard_state exec" where
  "count_cleanup g = Ret (g\<lparr> cleanups := Suc (cleanups g) \<rparr>)"

text \<open>
  What happens to the key: \<open>enable\<close> is called, or the platform destroys the thread's values once
  (a slot that holds a value is cleared and the value passed to \<open>run\<close>).
\<close>

datatype guard_event = Enable | DestroyRound

fun guard_do :: "guard_event \<Rightarrow> guard_state \<Rightarrow> guard_state exec" where
  "guard_do Enable g = guard_enable slot_keys g"
| "guard_do DestroyRound g =
     (if slot g = 0 then Ret g
      else guard_run True slot_keys count_cleanup (slot g) (g\<lparr> slot := 0 \<rparr>))"

lemmas guard_simps = guard_enable_def guard_set_def guard_run_def slot_keys_def count_cleanup_def
  DEFER_def RUN_def

text \<open>The slot is null or one of the two states, so that the assertion in \<open>run\<close> holds.\<close>

lemma guard_do_total:
  assumes "slot g \<in> {0, DEFER, RUN}"
  obtains g' where "guard_do e g = Ret g'" "slot g' \<in> {0, DEFER, RUN}"
  using assms by (cases e) (auto simp: guard_simps)

lemma guard_events_total:
  assumes "slot g \<in> {0, DEFER, RUN}"
  shows "\<exists>g'. fold_exec guard_do es g = Ret g' \<and> slot g' \<in> {0, DEFER, RUN}"
  using assms
proof (induction es arbitrary: g)
  case (Cons e es)
  obtain g1 where "guard_do e g = Ret g1" "slot g1 \<in> {0, DEFER, RUN}"
    using guard_do_total[OF Cons.prems] .
  with Cons.IH[of g1] show ?case by simp
qed simp

lemma quiet_rounds:
  "slot g = 0 \<Longrightarrow> fold_exec guard_do (replicate n DestroyRound) g = Ret g"
  by (induction n) simp_all

text \<open>
  The clean-up waits for the other destructors: it is run once, in the second round after the
  last \<open>enable\<close>, and not again.
\<close>

lemma cleanup_in_second_quiet_round:
  assumes "slot g \<in> {0, DEFER, RUN}"
  shows "\<exists>g1. fold_exec guard_do es g = Ret g1
    \<and> fold_exec guard_do (es @ [Enable] @ replicate n DestroyRound) g
     = Ret (g1\<lparr> slot := (if n = 0 then DEFER else if n = 1 then RUN else 0),
               cleanups := cleanups g1 + (if 2 \<le> n then 1 else 0) \<rparr>)"
proof -
  obtain g1 where g1: "fold_exec guard_do es g = Ret g1"
    using guard_events_total[OF assms] by blast
  have "fold_exec guard_do (replicate n DestroyRound) (g1\<lparr> slot := DEFER \<rparr>)
    = Ret (g1\<lparr> slot := (if n = 0 then DEFER else if n = 1 then RUN else 0),
              cleanups := cleanups g1 + (if 2 \<le> n then 1 else 0) \<rparr>)"
  proof (cases n)
    case (Suc m)
    then show ?thesis by (cases m) (simp_all add: guard_simps quiet_rounds)
  qed simp
  then have "fold_exec guard_do ([Enable] @ replicate n DestroyRound) g1
    = Ret (g1\<lparr> slot := (if n = 0 then DEFER else if n = 1 then RUN else 0),
              cleanups := cleanups g1 + (if 2 \<le> n then 1 else 0) \<rparr>)"
    by (simp add: guard_enable_def guard_set_def slot_keys_def)
  with g1 show ?thesis by (simp add: fold_exec_append)
qed

end
