(* ===== verification/Racy_Init.thy ===== *)
theory Racy_Init
  imports Sync_Locks
begin

text \<open>
  Racy one-time initialisation: \<open>OnceBox\<close> (\<open>std/sys-src/sync/once_box.rs\<close>) and \<open>LazyKey\<close>
  (\<open>std/sys-src/thread_local/key/racy.rs\<close>). Any number of threads run \<open>get_or_init\<close>
  (\<open>force\<close>) at the same time; a step is one access to shared memory, one allocation or one
  release. Accesses are sequentially consistent in the model.
\<close>

section \<open>OnceBox\<close>

text \<open>
  The shared pointer (0 is null), the boxes that are allocated, and where each thread is: not
  started, about to create its box after it read a null pointer, holding a box it created, about
  to free its box because another one was published, or returned.
\<close>

datatype box_pc =
    BoxStart
  | BoxCreate
  | BoxExchange "64 word"
  | BoxLost "64 word" "64 word"
  | BoxReturned "64 word"

record box_system =
  box_ptr :: "64 word"
  live_boxes :: "64 word set"
  box_pcs :: "nat \<Rightarrow> box_pc"

definition box_init :: box_system where
  "box_init = \<lparr> box_ptr = 0, live_boxes = {}, box_pcs = (\<lambda>_. BoxStart) \<rparr>"

definition set_box_pc :: "nat \<Rightarrow> box_pc \<Rightarrow> box_system \<Rightarrow> box_system" where
  "set_box_pc t pc s = s\<lparr> box_pcs := (box_pcs s)(t := pc) \<rparr>"

text \<open>
  \<open>get_or_init\<close> loads the pointer and returns it unless it is null; \<open>initialize\<close> creates a box
  at an address that is not null and not in use, and exchanges it for a null pointer; when that
  fails it frees the box and returns the pointer it found. The closure that creates the box may
  unwind, and a thread may call \<open>get_or_init\<close> any number of times.
\<close>

inductive box_step :: "box_system \<Rightarrow> box_system \<Rightarrow> bool" where
  load_some: "box_pcs s t = BoxStart \<Longrightarrow> box_ptr s \<noteq> 0 \<Longrightarrow>
     box_step s (set_box_pc t (BoxReturned (box_ptr s)) s)"
| load_null: "box_pcs s t = BoxStart \<Longrightarrow> box_ptr s = 0 \<Longrightarrow>
     box_step s (set_box_pc t BoxCreate s)"
| create: "box_pcs s t = BoxCreate \<Longrightarrow> p \<noteq> 0 \<Longrightarrow> p \<notin> live_boxes s \<Longrightarrow>
     box_step s (set_box_pc t (BoxExchange p) (s\<lparr> live_boxes := insert p (live_boxes s) \<rparr>))"
| exchange_ok: "box_pcs s t = BoxExchange p \<Longrightarrow> box_ptr s = 0 \<Longrightarrow>
     box_step s (set_box_pc t (BoxReturned p) (s\<lparr> box_ptr := p \<rparr>))"
| exchange_lost: "box_pcs s t = BoxExchange p \<Longrightarrow> box_ptr s \<noteq> 0 \<Longrightarrow>
     box_step s (set_box_pc t (BoxLost p (box_ptr s)) s)"
| free_lost: "box_pcs s t = BoxLost p q \<Longrightarrow>
     box_step s (set_box_pc t (BoxReturned q) (s\<lparr> live_boxes := live_boxes s - {p} \<rparr>))"
| closure_unwinds: "box_pcs s t = BoxCreate \<Longrightarrow> box_step s (set_box_pc t BoxStart s)"
| call_again: "box_pcs s t = BoxReturned q \<Longrightarrow> box_step s (set_box_pc t BoxStart s)"

inductive_cases box_stepE: "box_step s s'"

text \<open>\<open>take\<close>, and \<open>drop\<close>, which takes the box and frees it: they have the box to themselves.\<close>

definition box_take :: "box_system \<Rightarrow> box_system \<times> (64 word) option" where
  "box_take s = (s\<lparr> box_ptr := 0 \<rparr>, if box_ptr s \<noteq> 0 then Some (box_ptr s) else None)"

definition box_drop :: "box_system \<Rightarrow> box_system" where
  "box_drop s =
     (case box_take s of
        (s', None) \<Rightarrow> s' | (s', Some p) \<Rightarrow> s'\<lparr> live_boxes := live_boxes s' - {p} \<rparr>)"

text \<open>\<open>get_unchecked\<close> dereferences what is there.\<close>

definition box_get_unchecked :: "box_system \<Rightarrow> (64 word) exec" where
  "box_get_unchecked s = (if box_ptr s \<in> live_boxes s then Ret (box_ptr s) else Undefined)"

text \<open>
  What each thread holds, as a map. Both initialisations below have an invariant of the same
  form: what is allocated is what the threads hold, each thing held once, and what is published.
\<close>

definition held_once :: "('i \<Rightarrow> 'a option) \<Rightarrow> bool" where
  "held_once own \<longleftrightarrow> (\<forall>t t' p. own t = Some p \<and> own t' = Some p \<longrightarrow> t = t')"

lemma held_once_take:
  assumes "held_once own" and "p \<notin> ran own"
  shows "held_once (own(t \<mapsto> p))"
proof -
  have "own t' \<noteq> Some p" for t' using assms(2) by (auto simp: ran_def)
  with assms(1) show ?thesis unfolding held_once_def by (metis fun_upd_apply option.inject)
qed

lemma held_once_give: "held_once own \<Longrightarrow> held_once (own(t := None))"
  unfolding held_once_def by (metis fun_upd_apply option.distinct(1))

lemma ran_give: "held_once own \<Longrightarrow> own t = Some p \<Longrightarrow> ran (own(t := None)) = ran own - {p}"
  unfolding held_once_def ran_def by (auto split: if_splits) (metis option.inject)

lemma ran_take: "own t = None \<Longrightarrow> ran (own(t \<mapsto> p)) = insert p (ran own)"
  by (rule ran_map_upd)

fun box_owned :: "box_pc \<Rightarrow> 64 word option" where
  "box_owned (BoxExchange p) = Some p"
| "box_owned (BoxLost p q) = Some p"
| "box_owned _ = None"

fun box_seen :: "box_pc \<Rightarrow> 64 word option" where
  "box_seen (BoxLost p q) = Some q"
| "box_seen (BoxReturned q) = Some q"
| "box_seen _ = None"

definition box_own :: "box_system \<Rightarrow> nat \<Rightarrow> 64 word option" where
  "box_own s t = box_owned (box_pcs s t)"

definition box_inv :: "box_system \<Rightarrow> bool" where
  "box_inv s \<longleftrightarrow>
     live_boxes s = ran (box_own s) \<union> ({box_ptr s} - {0})
     \<and> 0 \<notin> ran (box_own s) \<and> box_ptr s \<notin> ran (box_own s) \<and> held_once (box_own s)
     \<and> (\<forall>t q. box_seen (box_pcs s t) = Some q \<longrightarrow> q = box_ptr s \<and> q \<noteq> 0)"

lemma set_box_pc_simps [simp]:
  "box_ptr (set_box_pc t pc s) = box_ptr s"
  "live_boxes (set_box_pc t pc s) = live_boxes s"
  "box_pcs (set_box_pc t pc s) = (box_pcs s)(t := pc)"
  "box_own (set_box_pc t pc s) = (box_own s)(t := box_owned pc)"
  "box_own (s\<lparr> box_ptr := p \<rparr>) = box_own s"
  "box_own (s\<lparr> live_boxes := b \<rparr>) = box_own s"
  by (auto simp: set_box_pc_def box_own_def)

lemma box_init_inv: "box_inv box_init"
  by (simp add: box_inv_def box_init_def box_own_def held_once_def ran_def)

lemma fun_upd_same: "f t = x \<Longrightarrow> f(t := x) = f"
  by auto

lemma box_step_inv:
  assumes "box_step s s'" and inv: "box_inv s"
  shows "box_inv s'"
  using assms(1)
proof cases
  case (load_some t)
  then have "box_own s t = None" by (simp add: box_own_def)
  with load_some inv show ?thesis by (auto simp: box_inv_def fun_upd_same)
next
  case (load_null t)
  then have "box_own s t = None" by (simp add: box_own_def)
  with load_null inv show ?thesis by (auto simp: box_inv_def fun_upd_same)
next
  case (create t p)
  then have "box_own s t = None" "p \<notin> ran (box_own s)" "p \<noteq> box_ptr s"
    using inv by (auto simp: box_own_def box_inv_def)
  with create inv show ?thesis by (auto simp: box_inv_def ran_take held_once_take)
next
  case (exchange_ok t p)
  then have own: "box_own s t = Some p" by (simp add: box_own_def)
  then have "p \<in> ran (box_own s)" by (rule ranI)
  moreover have "box_seen (box_pcs s t') = None" for t'
    using inv exchange_ok(3) by (cases "box_seen (box_pcs s t')") (auto simp: box_inv_def)
  ultimately show ?thesis using exchange_ok inv own
    by (auto simp: box_inv_def ran_give held_once_give)
next
  case (exchange_lost t p)
  then have "box_own s t = Some p" by (simp add: box_own_def)
  with exchange_lost inv show ?thesis by (auto simp: box_inv_def fun_upd_same)
next
  case (free_lost t p q)
  then have own: "box_own s t = Some p" by (simp add: box_own_def)
  then have "p \<in> ran (box_own s)" by (rule ranI)
  moreover have "q = box_ptr s \<and> q \<noteq> 0"
    using inv free_lost(2) unfolding box_inv_def by (metis box_seen.simps(1))
  ultimately show ?thesis using free_lost inv own
    by (auto simp: box_inv_def ran_give held_once_give)
next
  case (closure_unwinds t)
  then have "box_own s t = None" by (simp add: box_own_def)
  with closure_unwinds inv show ?thesis by (auto simp: box_inv_def fun_upd_same)
next
  case (call_again t q)
  then have "box_own s t = None" by (simp add: box_own_def)
  with call_again inv show ?thesis by (auto simp: box_inv_def fun_upd_same)
qed

lemma box_reachable_inv: "box_step\<^sup>*\<^sup>* box_init s \<Longrightarrow> box_inv s"
  by (induction rule: rtranclp_induct) (auto intro: box_step_inv box_init_inv)

lemma box_published_once: "box_step\<^sup>*\<^sup>* s s' \<Longrightarrow> box_ptr s \<noteq> 0 \<Longrightarrow> box_ptr s' = box_ptr s"
  by (induction rule: rtranclp_induct) (auto elim!: box_stepE)

text \<open>
  C5: however the threads interleave, every \<open>get_or_init\<close> returns the same box, which is
  allocated and stays published, and when all of them have returned it is the only box left:
  the boxes of the threads that lost the race are freed, and no other.
\<close>

theorem once_box_single_publication:
  assumes "box_step\<^sup>*\<^sup>* box_init s" and "box_step\<^sup>*\<^sup>* s s'"
    and "box_pcs s t = BoxReturned p" and "box_pcs s' t' = BoxReturned q"
  shows "p = q \<and> q \<in> live_boxes s' \<and> box_get_unchecked s' = Ret q
    \<and> ((\<forall>u. \<exists>r. box_pcs s' u \<in> {BoxStart, BoxReturned r}) \<longrightarrow> live_boxes s' = {q})"
proof -
  have inv: "box_inv s" "box_inv s'"
    using assms(1,2) by (auto intro: box_reachable_inv)
  have p: "p = box_ptr s" "p \<noteq> 0"
    using inv(1) assms(3) unfolding box_inv_def by (metis box_seen.simps(2))+
  have q: "q = box_ptr s'" "q \<noteq> 0"
    using inv(2) assms(4) unfolding box_inv_def by (metis box_seen.simps(2))+
  have "box_ptr s' = box_ptr s"
    using box_published_once[OF assms(2)] p by simp
  moreover have "q \<in> live_boxes s'" using inv(2) q by (simp add: box_inv_def)
  moreover have "live_boxes s' = {q}" if "\<forall>u. \<exists>r. box_pcs s' u \<in> {BoxStart, BoxReturned r}"
  proof -
    have "box_own s' u = None" for u
      using that[rule_format, of u] by (auto simp: box_own_def)
    then have "ran (box_own s') = {}" by (simp add: ran_def)
    with inv(2) q show ?thesis by (auto simp: box_inv_def)
  qed
  ultimately show ?thesis using p q by (simp add: box_get_unchecked_def)
qed

text \<open>Two threads race; the second one to exchange frees its box.\<close>

lemma box_race:
  "box_step\<^sup>*\<^sup>* box_init \<lparr> box_ptr = 8, live_boxes = {8},
     box_pcs = (\<lambda>_. BoxStart)(0 := BoxReturned 8, 1 := BoxReturned 8) \<rparr>"
proof -
  let ?s = "\<lambda>p b x y. \<lparr> box_ptr = p, live_boxes = b, box_pcs = (\<lambda>_. BoxStart)(0 := x, 1 := y) \<rparr>"
  have init: "box_init = ?s 0 {} BoxStart BoxStart"
    by (simp add: box_init_def fun_eq_iff)
  have "box_step (?s 0 {} BoxStart BoxStart) (?s 0 {} BoxCreate BoxStart)"
    using box_step.load_null[of "?s 0 {} BoxStart BoxStart" 0] by (simp add: set_box_pc_def fun_upd_twist)
  moreover have "box_step (?s 0 {} BoxCreate BoxStart) (?s 0 {} BoxCreate BoxCreate)"
    using box_step.load_null[of "?s 0 {} BoxCreate BoxStart" 1] by (simp add: set_box_pc_def)
  moreover have "box_step (?s 0 {} BoxCreate BoxCreate) (?s 0 {8} (BoxExchange 8) BoxCreate)"
    using box_step.create[of "?s 0 {} BoxCreate BoxCreate" 0 8] by (simp add: set_box_pc_def fun_upd_twist)
  moreover have "box_step (?s 0 {8} (BoxExchange 8) BoxCreate) (?s 0 {8, 16} (BoxExchange 8) (BoxExchange 16))"
    using box_step.create[of "?s 0 {8} (BoxExchange 8) BoxCreate" 1 16]
    by (simp add: set_box_pc_def insert_commute)
  moreover have "box_step (?s 0 {8, 16} (BoxExchange 8) (BoxExchange 16)) (?s 8 {8, 16} (BoxReturned 8) (BoxExchange 16))"
    using box_step.exchange_ok[of "?s 0 {8, 16} (BoxExchange 8) (BoxExchange 16)" 0 8]
    by (simp add: set_box_pc_def fun_upd_twist)
  moreover have "box_step (?s 8 {8, 16} (BoxReturned 8) (BoxExchange 16)) (?s 8 {8, 16} (BoxReturned 8) (BoxLost 16 8))"
    using box_step.exchange_lost[of "?s 8 {8, 16} (BoxReturned 8) (BoxExchange 16)" 1 16]
    by (simp add: set_box_pc_def)
  moreover have "box_step (?s 8 {8, 16} (BoxReturned 8) (BoxLost 16 8)) (?s 8 {8} (BoxReturned 8) (BoxReturned 8))"
    using box_step.free_lost[of "?s 8 {8, 16} (BoxReturned 8) (BoxLost 16 8)" 1 16 8]
    by (simp add: set_box_pc_def insert_Diff_if)
  ultimately show ?thesis unfolding init by (meson converse_rtranclp_into_rtranclp rtranclp.rtrancl_refl)
qed

theorem once_box_single_publication_witness:
  "(8 :: 64 word) \<in> {8} \<and> box_get_unchecked \<lparr> box_ptr = 8, live_boxes = {8},
     box_pcs = (\<lambda>_. BoxStart)(0 := BoxReturned 8, 1 := BoxReturned 8) \<rparr> = Ret 8"
  using once_box_single_publication[OF box_race rtranclp.rtrancl_refl, of 0 8 1 8] by simp

lemma box_drop_frees_all:
  assumes "box_inv s" and "\<forall>u. box_own s u = None"
  shows "live_boxes (box_drop s) = {} \<and> box_ptr (box_drop s) = 0"
  using assms by (auto simp: box_drop_def box_take_def box_inv_def ran_def)

section \<open>LazyKey\<close>

text \<open>
  The published key (0, the sentinel, while there is none) and the keys the platform has handed
  out. A thread in \<open>lazy_init\<close> creates a key; when that is the sentinel it creates a second one
  and destroys the first; then it asserts that its key is not the sentinel and exchanges it.
  \<open>create\<close> and \<open>destroy\<close> are the platform's: a new key is one that is not in use, and it may be
  the sentinel.
\<close>

definition KEY_SENTVAL :: "64 word" where "KEY_SENTVAL = 0"

datatype key_pc =
    KeyStart
  | KeyCreate
  | KeyCreateAgain
  | KeyDestroyFirst "64 word"
  | KeyAssert "64 word"
  | KeyExchange "64 word"
  | KeyLost "64 word" "64 word"
  | KeyReturned "64 word"
  | KeyAborted "64 word"

record key_system =
  lazy_key :: "64 word"
  live_keys :: "64 word set"
  key_pcs :: "nat \<Rightarrow> key_pc"

definition key_init :: "(64 word) set \<Rightarrow> key_system" where
  "key_init others = \<lparr> lazy_key = KEY_SENTVAL, live_keys = others, key_pcs = (\<lambda>_. KeyStart) \<rparr>"

definition set_key_pc :: "nat \<Rightarrow> key_pc \<Rightarrow> key_system \<Rightarrow> key_system" where
  "set_key_pc t pc s = s\<lparr> key_pcs := (key_pcs s)(t := pc) \<rparr>"

inductive key_step :: "key_system \<Rightarrow> key_system \<Rightarrow> bool" where
  key_load: "key_pcs s t = KeyStart \<Longrightarrow>
     key_step s (set_key_pc t
       (if lazy_key s = KEY_SENTVAL then KeyCreate else KeyReturned (lazy_key s)) s)"
| key_create: "key_pcs s t = KeyCreate \<Longrightarrow> k \<notin> live_keys s \<Longrightarrow>
     key_step s (set_key_pc t (if k \<noteq> KEY_SENTVAL then KeyExchange k else KeyCreateAgain)
       (s\<lparr> live_keys := insert k (live_keys s) \<rparr>))"
| key_create_again: "key_pcs s t = KeyCreateAgain \<Longrightarrow> k \<notin> live_keys s \<Longrightarrow>
     key_step s (set_key_pc t (KeyDestroyFirst k) (s\<lparr> live_keys := insert k (live_keys s) \<rparr>))"
| key_destroy_first: "key_pcs s t = KeyDestroyFirst k \<Longrightarrow>
     key_step s (set_key_pc t (KeyAssert k) (s\<lparr> live_keys := live_keys s - {KEY_SENTVAL} \<rparr>))"
| key_assert: "key_pcs s t = KeyAssert k \<Longrightarrow>
     key_step s (set_key_pc t (if k \<noteq> KEY_SENTVAL then KeyExchange k else KeyAborted k) s)"
| key_exchange_ok: "key_pcs s t = KeyExchange k \<Longrightarrow> lazy_key s = KEY_SENTVAL \<Longrightarrow>
     key_step s (set_key_pc t (KeyReturned k) (s\<lparr> lazy_key := k \<rparr>))"
| key_exchange_lost: "key_pcs s t = KeyExchange k \<Longrightarrow> lazy_key s \<noteq> KEY_SENTVAL \<Longrightarrow>
     key_step s (set_key_pc t (KeyLost k (lazy_key s)) s)"
| key_destroy_lost: "key_pcs s t = KeyLost k n \<Longrightarrow>
     key_step s (set_key_pc t (KeyReturned n) (s\<lparr> live_keys := live_keys s - {k} \<rparr>))"
| key_again: "key_pcs s t = KeyReturned n \<Longrightarrow> key_step s (set_key_pc t KeyStart s)"

inductive_cases key_stepE: "key_step s s'"

text \<open>A thread holds a key to publish (\<open>True\<close>) and, for a while, the sentinel (\<open>False\<close>).\<close>

fun key_owned :: "key_pc \<Rightarrow> bool \<Rightarrow> 64 word option" where
  "key_owned KeyCreateAgain b = (if b then None else Some KEY_SENTVAL)"
| "key_owned (KeyDestroyFirst k) b = (if b then Some k else Some KEY_SENTVAL)"
| "key_owned (KeyAssert k) b = (if b then Some k else None)"
| "key_owned (KeyExchange k) b = (if b then Some k else None)"
| "key_owned (KeyLost k n) b = (if b then Some k else None)"
| "key_owned (KeyAborted k) b = (if b then Some k else None)"
| "key_owned _ b = None"

fun key_seen :: "key_pc \<Rightarrow> 64 word option" where
  "key_seen (KeyLost k n) = Some n"
| "key_seen (KeyReturned n) = Some n"
| "key_seen _ = None"

definition key_own :: "key_system \<Rightarrow> nat \<times> bool \<Rightarrow> 64 word option" where
  "key_own s tb = key_owned (key_pcs s (fst tb)) (snd tb)"

definition key_inv :: "(64 word) set \<Rightarrow> key_system \<Rightarrow> bool" where
  "key_inv others s \<longleftrightarrow>
     live_keys s = others \<union> ran (key_own s) \<union> ({lazy_key s} - {KEY_SENTVAL})
     \<and> others \<inter> ran (key_own s) = {}
     \<and> (lazy_key s \<noteq> KEY_SENTVAL \<longrightarrow> lazy_key s \<notin> others \<union> ran (key_own s))
     \<and> held_once (key_own s)
     \<and> (\<forall>t. key_own s (t, True) \<noteq> Some KEY_SENTVAL)
     \<and> (\<forall>t q. key_seen (key_pcs s t) = Some q \<longrightarrow> q = lazy_key s \<and> q \<noteq> KEY_SENTVAL)"

lemma set_key_pc_simps [simp]:
  "lazy_key (set_key_pc t pc s) = lazy_key s"
  "live_keys (set_key_pc t pc s) = live_keys s"
  "key_pcs (set_key_pc t pc s) = (key_pcs s)(t := pc)"
  "key_own (set_key_pc t pc s)
     = (key_own s)((t, False) := key_owned pc False, (t, True) := key_owned pc True)"
  "key_own (s\<lparr> lazy_key := p \<rparr>) = key_own s"
  "key_own (s\<lparr> live_keys := b \<rparr>) = key_own s"
  by (auto simp: set_key_pc_def key_own_def fun_eq_iff)

lemma key_init_inv: "key_inv others (key_init others)"
  by (simp add: key_inv_def key_init_def key_own_def held_once_def ran_def)

lemma key_own_pc: "key_pcs s t = pc \<Longrightarrow> key_own s (t, b) = key_owned pc b"
  by (simp add: key_own_def)

lemma key_step_inv:
  assumes "key_step s s'" and inv: "key_inv others s"
  shows "key_inv others s'"
  using assms(1)
proof cases
  case (key_load t)
  then show ?thesis using inv key_own_pc[OF key_load(2)]
    by (auto simp: key_inv_def fun_upd_same)
next
  case (key_create t k)
  note own = key_own_pc[OF key_create(2)]
  have "k \<notin> ran (key_own s)" "k \<notin> others" "k \<noteq> KEY_SENTVAL \<Longrightarrow> k \<noteq> lazy_key s"
    using key_create(3) inv by (auto simp: key_inv_def)
  then show ?thesis using key_create inv own
    by (auto simp: key_inv_def fun_upd_same ran_take held_once_take)
next
  case (key_create_again t k)
  note own = key_own_pc[OF key_create_again(2)]
  have "KEY_SENTVAL \<in> ran (key_own s)" using own[of False] by (auto intro: ranI)
  then have "k \<notin> ran (key_own s)" "k \<notin> others" "k \<noteq> KEY_SENTVAL" "k \<noteq> lazy_key s"
    using key_create_again(3) inv by (auto simp: key_inv_def)
  then show ?thesis using key_create_again inv own
    by (auto simp: key_inv_def fun_upd_same ran_take held_once_take)
next
  case (key_destroy_first t k)
  note own = key_own_pc[OF key_destroy_first(2)]
  have "KEY_SENTVAL \<in> ran (key_own s)" using own[of False] by (auto intro: ranI)
  then show ?thesis using key_destroy_first inv own
    by (auto simp: key_inv_def fun_upd_same ran_give held_once_give)
next
  case (key_assert t k)
  note own = key_own_pc[OF key_assert(2)]
  have "k \<noteq> KEY_SENTVAL" using own[of True] inv by (auto simp: key_inv_def)
  then show ?thesis using key_assert inv own
    by (auto simp: key_inv_def fun_upd_same)
next
  case (key_exchange_ok t k)
  note own = key_own_pc[OF key_exchange_ok(2)]
  have "k \<in> ran (key_own s)" "k \<noteq> KEY_SENTVAL"
    using own[of True] inv by (auto simp: key_inv_def intro: ranI)
  moreover have "key_seen (key_pcs s t') = None" for t'
    using inv key_exchange_ok(3) by (cases "key_seen (key_pcs s t')") (auto simp: key_inv_def)
  ultimately show ?thesis using key_exchange_ok inv own
    by (auto simp: key_inv_def fun_upd_same ran_give held_once_give)
next
  case (key_exchange_lost t k)
  note own = key_own_pc[OF key_exchange_lost(2)]
  then show ?thesis using key_exchange_lost inv
    by (auto simp: key_inv_def fun_upd_same)
next
  case (key_destroy_lost t k n)
  note own = key_own_pc[OF key_destroy_lost(2)]
  have "k \<in> ran (key_own s)" "k \<noteq> KEY_SENTVAL"
    using own[of True] inv by (auto simp: key_inv_def intro: ranI)
  moreover have "n = lazy_key s \<and> n \<noteq> KEY_SENTVAL"
    using inv key_destroy_lost(2) unfolding key_inv_def by (metis key_seen.simps(1))
  ultimately show ?thesis using key_destroy_lost inv own
    by (auto simp: key_inv_def fun_upd_same ran_give held_once_give)
next
  case (key_again t n)
  then show ?thesis using inv key_own_pc[OF key_again(2)]
    by (auto simp: key_inv_def fun_upd_same)
qed

lemma key_reachable_inv: "key_step\<^sup>*\<^sup>* (key_init others) s \<Longrightarrow> key_inv others s"
  by (induction rule: rtranclp_induct) (auto intro: key_step_inv key_init_inv)

lemma key_published_once:
  "key_step\<^sup>*\<^sup>* s s' \<Longrightarrow> lazy_key s \<noteq> KEY_SENTVAL \<Longrightarrow> lazy_key s' = lazy_key s"
  by (induction rule: rtranclp_induct) (auto elim!: key_stepE)

text \<open>
  C25: however the threads interleave and whichever unused keys the platform hands out, the
  sentinel included, the assertion in \<open>lazy_init\<close> never fails, every \<open>force\<close> returns the same
  key, which is not the sentinel, and when all threads have returned exactly one key was added
  to those in use before.
\<close>

theorem lazy_key_single_key:
  assumes "key_step\<^sup>*\<^sup>* (key_init others) s" and "key_step\<^sup>*\<^sup>* s s'"
  shows "key_pcs s u \<noteq> KeyAborted k
    \<and> (key_pcs s t = KeyReturned p \<and> key_pcs s' t' = KeyReturned q \<longrightarrow>
         p = q \<and> q \<noteq> KEY_SENTVAL \<and> q \<notin> others
         \<and> ((\<forall>u. \<exists>r. key_pcs s' u \<in> {KeyStart, KeyReturned r}) \<longrightarrow> live_keys s' = insert q others))"
proof (intro conjI impI)
  have inv: "key_inv others s" "key_inv others s'"
    using assms by (auto intro: key_reachable_inv)
  show "key_pcs s u \<noteq> KeyAborted k"
  proof
    assume aborted: "key_pcs s u = KeyAborted k"
    have "key_step\<^sup>*\<^sup>* (key_init others) s \<Longrightarrow> key_pcs s u = KeyAborted k \<Longrightarrow> k = KEY_SENTVAL" for s
      by (induction arbitrary: u rule: rtranclp_induct)
        (auto simp: key_init_def elim!: key_stepE split: if_splits)
    from this[OF assms(1) aborted] have "k = KEY_SENTVAL" .
    with key_own_pc[OF aborted, of True] inv(1) show False by (simp add: key_inv_def)
  qed
  assume returned: "key_pcs s t = KeyReturned p \<and> key_pcs s' t' = KeyReturned q"
  have p: "p = lazy_key s" "p \<noteq> KEY_SENTVAL"
    using inv(1) returned unfolding key_inv_def by (metis key_seen.simps(2))+
  have q: "q = lazy_key s'" "q \<noteq> KEY_SENTVAL"
    using inv(2) returned unfolding key_inv_def by (metis key_seen.simps(2))+
  show "p = q" "q \<noteq> KEY_SENTVAL" using key_published_once[OF assms(2)] p q by simp_all
  show "q \<notin> others" using inv(2) q by (auto simp: key_inv_def)
  assume "\<forall>u. \<exists>r. key_pcs s' u \<in> {KeyStart, KeyReturned r}"
  then have "key_own s' (u, b) = None" for u b
    by (metis (no_types, lifting) insertE key_own_pc key_owned.simps(7,8) key_owned.simps(9) singletonD)
  then have "ran (key_own s') = {}" by (auto simp: ran_def)
  with inv(2) q show "live_keys s' = insert q others" by (auto simp: key_inv_def)
qed

text \<open>The platform hands out the sentinel first; one thread gets key 5.\<close>

lemma key_run:
  "key_step\<^sup>*\<^sup>* (key_init {})
     \<lparr> lazy_key = 5, live_keys = {5}, key_pcs = (\<lambda>_. KeyStart)(0 := KeyReturned 5) \<rparr>"
proof -
  let ?s = "\<lambda>p b x. \<lparr> lazy_key = p, live_keys = b, key_pcs = (\<lambda>_. KeyStart)(0 := x) \<rparr>"
  note defs = set_key_pc_def KEY_SENTVAL_def
  have init: "key_init {} = ?s 0 {} KeyStart"
    by (simp add: key_init_def KEY_SENTVAL_def fun_eq_iff)
  have "key_step (?s 0 {} KeyStart) (?s 0 {} KeyCreate)"
    using key_step.key_load[of "?s 0 {} KeyStart" 0] by (simp add: defs)
  moreover have "key_step (?s 0 {} KeyCreate) (?s 0 {0} KeyCreateAgain)"
    using key_step.key_create[of "?s 0 {} KeyCreate" 0 0] by (simp add: defs)
  moreover have "key_step (?s 0 {0} KeyCreateAgain) (?s 0 {0, 5} (KeyDestroyFirst 5))"
    using key_step.key_create_again[of "?s 0 {0} KeyCreateAgain" 0 5]
    by (simp add: defs insert_commute)
  moreover have "key_step (?s 0 {0, 5} (KeyDestroyFirst 5)) (?s 0 {5} (KeyAssert 5))"
    using key_step.key_destroy_first[of "?s 0 {0, 5} (KeyDestroyFirst 5)" 0 5] by (simp add: defs)
  moreover have "key_step (?s 0 {5} (KeyAssert 5)) (?s 0 {5} (KeyExchange 5))"
    using key_step.key_assert[of "?s 0 {5} (KeyAssert 5)" 0 5] by (simp add: defs)
  moreover have "key_step (?s 0 {5} (KeyExchange 5)) (?s 5 {5} (KeyReturned 5))"
    using key_step.key_exchange_ok[of "?s 0 {5} (KeyExchange 5)" 0 5] by (simp add: defs)
  ultimately show ?thesis unfolding init
    by (meson converse_rtranclp_into_rtranclp rtranclp.rtrancl_refl)
qed

theorem lazy_key_single_key_witness:
  "(5 :: 64 word) \<noteq> KEY_SENTVAL"
  using lazy_key_single_key[OF key_run rtranclp.rtrancl_refl, of 1 0 0 5 0 5] by simp

text \<open>
  \<open>force\<close> when no other thread runs: it returns the key, what the shared cell holds afterwards and
  the state of the platform, over which \<open>create\<close> and \<open>destroy\<close> are arguments.
\<close>

definition lazy_key_force ::
  "('s \<Rightarrow> (64 word \<times> 's) exec) \<Rightarrow> (64 word \<Rightarrow> 's \<Rightarrow> 's exec) \<Rightarrow> 64 word \<Rightarrow> 's \<Rightarrow>
   (64 word \<times> 64 word \<times> 's) exec" where
  "lazy_key_force create destroy cell s =
     (if cell \<noteq> KEY_SENTVAL then Ret (cell, cell, s)
      else
        bind_exec (create s) (\<lambda>(key1, s1).
        bind_exec
          (if key1 \<noteq> KEY_SENTVAL then Ret (key1, s1)
           else bind_exec (create s1) (\<lambda>(key2, s2).
                bind_exec (destroy key1 s2) (\<lambda>s3. Ret (key2, s3)))) (\<lambda>(key, s4).
          if key = KEY_SENTVAL then Panic ''assertion failed: key as usize != KEY_SENTVAL''
          else Ret (key, key, s4))))"

text \<open>Such a call is a run of the steps above.\<close>

lemma force_is_a_run:
  assumes start: "key_pcs s t = KeyStart"
    and create: "\<And>L k L'. create L = Ret (k, L') \<Longrightarrow> k \<notin> L \<and> L' = insert k L"
    and destroy: "\<And>k L L'. destroy k L = Ret L' \<Longrightarrow> L' = L - {k}"
    and run: "lazy_key_force create destroy (lazy_key s) (live_keys s) = Ret (k, cell, L)"
  shows "key_step\<^sup>*\<^sup>* s (set_key_pc t (KeyReturned k) (s\<lparr> live_keys := L, lazy_key := cell \<rparr>))"
proof (cases "lazy_key s = KEY_SENTVAL")
  case False
  then have "k = lazy_key s" "cell = lazy_key s" "L = live_keys s"
    using run by (auto simp: lazy_key_force_def)
  with False key_load[OF start] show ?thesis by (simp add: r_into_rtranclp)
next
  case True
  have after: "key_step\<^sup>*\<^sup>* (set_key_pc t (KeyExchange k) (s\<lparr> live_keys := L \<rparr>))
      (set_key_pc t (KeyReturned k) (s\<lparr> live_keys := L, lazy_key := k \<rparr>))"
    using key_exchange_ok[of "set_key_pc t (KeyExchange k) (s\<lparr> live_keys := L \<rparr>)" t k] True
    by (auto simp: set_key_pc_def)
  have load: "key_step s (set_key_pc t KeyCreate s)"
    using key_load[OF start] True by simp
  from run True obtain key1 L1 where c1: "create (live_keys s) = Ret (key1, L1)"
    by (auto simp: lazy_key_force_def exec_simps)
  have first: "key_step (set_key_pc t KeyCreate s)
      (set_key_pc t (if key1 \<noteq> KEY_SENTVAL then KeyExchange key1 else KeyCreateAgain)
        (s\<lparr> live_keys := L1 \<rparr>))"
    using key_create[of "set_key_pc t KeyCreate s" t key1] create[OF c1] by (simp add: set_key_pc_def)
  show ?thesis
  proof (cases "key1 = KEY_SENTVAL")
    case False
    with run True c1 have "k = key1" "cell = key1" "L = L1"
      by (auto simp: lazy_key_force_def)
    moreover have "key_step (set_key_pc t KeyCreate s) (set_key_pc t (KeyExchange k) (s\<lparr> live_keys := L \<rparr>))"
      using first False calculation by simp
    ultimately show ?thesis using load after
      by (simp add: converse_rtranclp_into_rtranclp)
  next
    case sentinel: True
    with run True c1 obtain L2 where c2: "create L1 = Ret (k, L2)"
      and d: "destroy key1 L2 = Ret L" and k: "k \<noteq> KEY_SENTVAL" "cell = k"
      by (auto simp: lazy_key_force_def exec_simps split: if_splits)
    have L: "L = L2 - {KEY_SENTVAL}" using destroy[OF d] sentinel by simp
    let ?s = "\<lambda>pc L. set_key_pc t pc (s\<lparr> live_keys := L \<rparr>)"
    have "key_step (?s KeyCreateAgain L1) (?s (KeyDestroyFirst k) L2)"
      using key_create_again[of "?s KeyCreateAgain L1" t k] create[OF c2] by (simp add: set_key_pc_def)
    moreover have "key_step (?s (KeyDestroyFirst k) L2) (?s (KeyAssert k) L)"
      using key_destroy_first[of "?s (KeyDestroyFirst k) L2" t k] L by (simp add: set_key_pc_def)
    moreover have "key_step (?s (KeyAssert k) L) (?s (KeyExchange k) L)"
      using key_assert[of "?s (KeyAssert k) L" t k] k by (simp add: set_key_pc_def)
    moreover have "key_step (set_key_pc t KeyCreate s) (?s KeyCreateAgain L1)"
      using first sentinel by simp
    ultimately have "key_step\<^sup>*\<^sup>* s (?s (KeyExchange k) L)"
      using load by (meson converse_rtranclp_into_rtranclp rtranclp.rtrancl_refl)
    from rtranclp_trans[OF this after] show ?thesis unfolding k(2) .
  qed
qed

end
