(* ===== verification/Dwarf.thy ===== *)
theory Dwarf
  imports Prelude
begin

text \<open>
  The parser of the exception tables (\<open>std/sys-src/personality/dwarf\<close>): the DWARF reader with
  its LEB128 integers, encoded offsets and pointers, and \<open>find_eh_action\<close>. Memory is a partial
  map from addresses to bytes; reading where it is undefined is undefined behaviour.
\<close>

section \<open>Reading\<close>

type_synonym dwarf_memory = "64 word \<Rightarrow> u8 option"

text \<open>
  The outcome of a reader: a value, the \<open>Err(())\<close> of the source, or undefined behaviour; inside
  an option that is \<open>None\<close> when a loop does not end.
\<close>

datatype 'a dw = DwOk 'a | DwErr | DwUndefined

fun dw_cases :: "('a \<Rightarrow> 'b dw option) \<Rightarrow> 'a dw \<Rightarrow> 'b dw option" where
  "dw_cases f (DwOk x) = f x"
| "dw_cases f DwErr = Some DwErr"
| "dw_cases f DwUndefined = Some DwUndefined"

definition dw_bind :: "'a dw option \<Rightarrow> ('a \<Rightarrow> 'b dw option) \<Rightarrow> 'b dw option" where
  "dw_bind m f = Option.bind m (dw_cases f)"

lemma dw_bind_simps [simp]:
  "dw_bind (Some (DwOk x)) f = f x"
  "dw_bind (Some DwErr) f = Some DwErr"
  "dw_bind (Some DwUndefined) f = Some DwUndefined"
  "dw_bind None f = None"
  by (simp_all add: dw_bind_def)

lemma dw_bind_mono [partial_function_mono]:
  assumes "mono_option m" and "\<And>y. mono_option (\<lambda>f. g y f)"
  shows "mono_option (\<lambda>f. dw_bind (m f) (\<lambda>y. g y f))"
proof -
  have "mono_option (\<lambda>f. dw_cases (\<lambda>y. g y f) x)" for x
    using assms(2) by (cases x) (auto simp: monotone_def flat_ord_def)
  then show ?thesis unfolding dw_bind_def using assms(1) by (intro bind_mono)
qed

definition dw_read_bytes :: "dwarf_memory \<Rightarrow> nat \<Rightarrow> 64 word \<Rightarrow> (u8 list \<times> 64 word) dw" where
  "dw_read_bytes mem n p =
     (let bs = map (\<lambda>i. mem (p + of_nat i)) [0..<n]
      in if None \<in> set bs then DwUndefined else DwOk (map the bs, p + of_nat n))"

definition dw_read :: "dwarf_memory \<Rightarrow> nat \<Rightarrow> 64 word \<Rightarrow> ('a::len word \<times> 64 word) dw option" where
  "dw_read mem n p =
     dw_bind (Some (dw_read_bytes mem n p)) (\<lambda>(bs, p'). Some (DwOk (le_word bs, p')))"

section \<open>LEB128\<close>

text \<open>
  The loops of \<open>read_uleb128\<close> and \<open>read_sleb128\<close>. A shift by 64 or more is masked to six bits in
  the release profile. The last byte and the final shift are what the signed reader looks at;
  it keeps its shift in 32 bits, which hold the low six bits that the shifts of the loop use.
\<close>

partial_function (option) leb_loop ::
  "dwarf_memory \<Rightarrow> 64 word \<Rightarrow> nat \<Rightarrow> u64 \<Rightarrow> (u64 \<times> u8 \<times> nat \<times> 64 word) dw option" where
  "leb_loop mem p shift result =
     (case mem p of
        None \<Rightarrow> Some DwUndefined
      | Some byte \<Rightarrow>
          let result' = result OR push_bit (shift mod 64) (ucast (byte AND 0x7F));
              shift' = shift + 7
          in if byte AND 0x80 = 0 then Some (DwOk (result', byte, shift', p + 1))
             else leb_loop mem (p + 1) shift' result')"

definition read_uleb128 :: "dwarf_memory \<Rightarrow> 64 word \<Rightarrow> (u64 \<times> 64 word) dw option" where
  "read_uleb128 mem p =
     dw_bind (leb_loop mem p 0 0) (\<lambda>(result, byte, shift, p'). Some (DwOk (result, p')))"

definition read_sleb128 :: "dwarf_memory \<Rightarrow> 64 word \<Rightarrow> (64 word \<times> 64 word) dw option" where
  "read_sleb128 mem p =
     dw_bind (leb_loop mem p 0 0) (\<lambda>(result, byte, shift, p').
       let shift = shift mod 2 ^ 32 in
       Some (DwOk (if shift < 64 \<and> byte AND 0x40 \<noteq> 0 then result OR push_bit shift (-1) else result, p')))"

section \<open>Encoded offsets and pointers\<close>

definition DW_EH_PE_omit :: u8 where "DW_EH_PE_omit = 0xFF"
definition DW_EH_PE_absptr :: u8 where "DW_EH_PE_absptr = 0x00"
definition DW_EH_PE_uleb128 :: u8 where "DW_EH_PE_uleb128 = 0x01"
definition DW_EH_PE_udata2 :: u8 where "DW_EH_PE_udata2 = 0x02"
definition DW_EH_PE_udata4 :: u8 where "DW_EH_PE_udata4 = 0x03"
definition DW_EH_PE_udata8 :: u8 where "DW_EH_PE_udata8 = 0x04"
definition DW_EH_PE_sleb128 :: u8 where "DW_EH_PE_sleb128 = 0x09"
definition DW_EH_PE_sdata2 :: u8 where "DW_EH_PE_sdata2 = 0x0A"
definition DW_EH_PE_sdata4 :: u8 where "DW_EH_PE_sdata4 = 0x0B"
definition DW_EH_PE_sdata8 :: u8 where "DW_EH_PE_sdata8 = 0x0C"
definition DW_EH_PE_pcrel :: u8 where "DW_EH_PE_pcrel = 0x10"
definition DW_EH_PE_textrel :: u8 where "DW_EH_PE_textrel = 0x20"
definition DW_EH_PE_datarel :: u8 where "DW_EH_PE_datarel = 0x30"
definition DW_EH_PE_funcrel :: u8 where "DW_EH_PE_funcrel = 0x40"
definition DW_EH_PE_aligned :: u8 where "DW_EH_PE_aligned = 0x50"
definition DW_EH_PE_indirect :: u8 where "DW_EH_PE_indirect = 0x80"

lemmas DW_EH_PE_defs = DW_EH_PE_omit_def DW_EH_PE_absptr_def DW_EH_PE_uleb128_def
  DW_EH_PE_udata2_def DW_EH_PE_udata4_def DW_EH_PE_udata8_def DW_EH_PE_sleb128_def
  DW_EH_PE_sdata2_def DW_EH_PE_sdata4_def DW_EH_PE_sdata8_def DW_EH_PE_pcrel_def
  DW_EH_PE_textrel_def DW_EH_PE_datarel_def DW_EH_PE_funcrel_def DW_EH_PE_aligned_def
  DW_EH_PE_indirect_def

record eh_context =
  eh_ip :: "64 word"
  eh_func_start :: "64 word"
  eh_text_start :: "64 word"
  eh_data_start :: "64 word"

datatype eh_action =
    EHNone
  | EHCleanup "64 word"
  | EHCatch "64 word"
  | EHFilter "64 word"
  | EHTerminate

definition is_power_of_two :: "64 word \<Rightarrow> bool" where
  "is_power_of_two a \<longleftrightarrow> a \<noteq> 0 \<and> a AND (a - 1) = 0"

definition round_up :: "64 word \<Rightarrow> 64 word \<Rightarrow> 64 word dw" where
  "round_up unrounded align =
     (if is_power_of_two align then DwOk ((unrounded + align - 1) AND NOT (align - 1)) else DwErr)"

definition read_encoded_offset ::
  "dwarf_memory \<Rightarrow> u8 \<Rightarrow> 64 word \<Rightarrow> (64 word \<times> 64 word) dw option" where
  "read_encoded_offset mem encoding p =
     (if encoding = DW_EH_PE_omit \<or> encoding AND 0xF0 \<noteq> 0 then Some DwErr
      else let e = encoding AND 0x0F
      in if e = DW_EH_PE_absptr then dw_read mem 8 p
         else if e = DW_EH_PE_uleb128 then read_uleb128 mem p
         else if e = DW_EH_PE_udata2
           then dw_bind (dw_read mem 2 p) (\<lambda>(w :: 16 word, p'). Some (DwOk (ucast w, p')))
         else if e = DW_EH_PE_udata4
           then dw_bind (dw_read mem 4 p) (\<lambda>(w :: 32 word, p'). Some (DwOk (ucast w, p')))
         else if e = DW_EH_PE_udata8 then dw_read mem 8 p
         else if e = DW_EH_PE_sleb128 then read_sleb128 mem p
         else if e = DW_EH_PE_sdata2
           then dw_bind (dw_read mem 2 p) (\<lambda>(w :: 16 word, p'). Some (DwOk (scast w, p')))
         else if e = DW_EH_PE_sdata4
           then dw_bind (dw_read mem 4 p) (\<lambda>(w :: 32 word, p'). Some (DwOk (scast w, p')))
         else if e = DW_EH_PE_sdata8 then dw_read mem 8 p
         else Some DwErr)"

text \<open>
  The base a pointer is relative to, and the position of the reader after it (the aligned
  encoding moves the reader). \<open>get_text_start\<close> and \<open>get_data_start\<close> are called only for their
  encodings.
\<close>

definition encoded_base ::
  "eh_context \<Rightarrow> u8 \<Rightarrow> 64 word \<Rightarrow> (64 word \<times> 64 word) dw option" where
  "encoded_base context encoding p =
     (let e = encoding AND 0x70
      in if e = DW_EH_PE_absptr then Some (DwOk (0, p))
         else if e = DW_EH_PE_pcrel then Some (DwOk (p, p))
         else if e = DW_EH_PE_funcrel
           then (if eh_func_start context = 0 then Some DwErr else Some (DwOk (eh_func_start context, p)))
         else if e = DW_EH_PE_textrel then Some (DwOk (eh_text_start context, p))
         else if e = DW_EH_PE_datarel then Some (DwOk (eh_data_start context, p))
         else if e = DW_EH_PE_aligned
           then dw_bind (Some (round_up p 8)) (\<lambda>p'. Some (DwOk (0, p')))
         else Some DwErr)"

text \<open>An indirect pointer is dereferenced, which is undefined when it is not aligned.\<close>

definition deref_pointer :: "dwarf_memory \<Rightarrow> 64 word \<Rightarrow> (64 word) dw option" where
  "deref_pointer mem p =
     (if p mod 8 \<noteq> 0 then Some DwUndefined
      else dw_bind (dw_read mem 8 p) (\<lambda>(w, _). Some (DwOk w)))"

definition read_encoded_pointer ::
  "dwarf_memory \<Rightarrow> eh_context \<Rightarrow> u8 \<Rightarrow> 64 word \<Rightarrow> (64 word \<times> 64 word) dw option" where
  "read_encoded_pointer mem context encoding p =
     (if encoding = DW_EH_PE_omit then Some DwErr
      else dw_bind (encoded_base context encoding p) (\<lambda>(base_ptr, p1).
        dw_bind
          (if base_ptr = 0
           then (if encoding AND 0x0F \<noteq> DW_EH_PE_absptr then Some DwErr else dw_read mem 8 p1)
           else dw_bind (read_encoded_offset mem (encoding AND 0x0F) p1) (\<lambda>(offset, p2).
                  Some (DwOk (base_ptr + offset, p2))))
          (\<lambda>(ptr, p2).
             if encoding AND DW_EH_PE_indirect \<noteq> 0
             then dw_bind (deref_pointer mem ptr) (\<lambda>q. Some (DwOk (q, p2)))
             else Some (DwOk (ptr, p2)))))"

section \<open>Finding the action\<close>

definition interpret_cs_action ::
  "dwarf_memory \<Rightarrow> 64 word \<Rightarrow> u64 \<Rightarrow> 64 word \<Rightarrow> eh_action dw option" where
  "interpret_cs_action mem action_table cs_action_entry lpad =
     (if cs_action_entry = 0 then Some (DwOk (EHCleanup lpad))
      else dw_bind (read_sleb128 mem (action_table + (cs_action_entry - 1))) (\<lambda>(ttype_index, _).
        Some (DwOk (if ttype_index = 0 then EHCleanup lpad
                    else if 0 <s ttype_index then EHCatch lpad else EHFilter lpad))))"

record call_site =
  cs_start :: "64 word"
  cs_len :: "64 word"
  cs_lpad :: "64 word"
  cs_action_entry :: u64

definition read_call_site ::
  "dwarf_memory \<Rightarrow> u8 \<Rightarrow> 64 word \<Rightarrow> (call_site \<times> 64 word) dw option" where
  "read_call_site mem enc p =
     dw_bind (read_encoded_offset mem enc p) (\<lambda>(start, p1).
     dw_bind (read_encoded_offset mem enc p1) (\<lambda>(len, p2).
     dw_bind (read_encoded_offset mem enc p2) (\<lambda>(lpad, p3).
     dw_bind (read_uleb128 mem p3) (\<lambda>(entry, p4).
       Some (DwOk (\<lparr> cs_start = start, cs_len = len, cs_lpad = lpad, cs_action_entry = entry \<rparr>, p4))))))"

partial_function (option) call_site_loop ::
  "dwarf_memory \<Rightarrow> eh_context \<Rightarrow> u8 \<Rightarrow> 64 word \<Rightarrow> 64 word \<Rightarrow> 64 word \<Rightarrow> eh_action dw option" where
  "call_site_loop mem context enc lpad_base action_table p =
     (if p < action_table
      then dw_bind (read_call_site mem enc p) (\<lambda>(cs, p').
        if eh_ip context < eh_func_start context + cs_start cs then Some (DwOk EHTerminate)
        else if eh_ip context < eh_func_start context + (cs_start cs + cs_len cs)
        then (if cs_lpad cs = 0 then Some (DwOk EHNone)
              else interpret_cs_action mem action_table (cs_action_entry cs) (lpad_base + cs_lpad cs))
        else call_site_loop mem context enc lpad_base action_table p')
      else Some (DwOk EHTerminate))"

text \<open>
  The header of the table: the base of the landing pads, the encoding of the call sites, the
  position of the first call site and the end of the call sites, where the actions begin.
\<close>

definition read_lsda_header ::
  "dwarf_memory \<Rightarrow> eh_context \<Rightarrow> 64 word \<Rightarrow> (64 word \<times> u8 \<times> 64 word \<times> 64 word) dw option" where
  "read_lsda_header mem context lsda =
     dw_bind (dw_read mem 1 lsda) (\<lambda>(start_encoding :: u8, p1).
     dw_bind (if start_encoding \<noteq> DW_EH_PE_omit
              then read_encoded_pointer mem context start_encoding p1
              else Some (DwOk (eh_func_start context, p1))) (\<lambda>(lpad_base, p2).
     dw_bind (dw_read mem 1 p2) (\<lambda>(ttype_encoding :: u8, p3).
     dw_bind (if ttype_encoding \<noteq> DW_EH_PE_omit
              then dw_bind (read_uleb128 mem p3) (\<lambda>(_, p). Some (DwOk p))
              else Some (DwOk p3)) (\<lambda>p4.
     dw_bind (dw_read mem 1 p4) (\<lambda>(call_site_encoding :: u8, p5).
     dw_bind (read_uleb128 mem p5) (\<lambda>(call_site_table_length, p6).
       Some (DwOk (lpad_base, call_site_encoding, p6, p6 + call_site_table_length))))))))"

text \<open>The variant for setjmp/longjmp exceptions, which the target does not use.\<close>

definition USING_SJLJ_EXCEPTIONS :: bool where "USING_SJLJ_EXCEPTIONS = False"

partial_function (option) sjlj_loop ::
  "dwarf_memory \<Rightarrow> 64 word \<Rightarrow> 64 word \<Rightarrow> 64 word \<Rightarrow> eh_action dw option" where
  "sjlj_loop mem action_table idx p =
     dw_bind (read_uleb128 mem p) (\<lambda>(lpad, p1).
     dw_bind (read_uleb128 mem p1) (\<lambda>(entry, p2).
       if idx - 1 = 0 then interpret_cs_action mem action_table entry (lpad + 1)
       else sjlj_loop mem action_table (idx - 1) p2))"

definition find_eh_action ::
  "dwarf_memory \<Rightarrow> 64 word \<Rightarrow> eh_context \<Rightarrow> eh_action dw option" where
  "find_eh_action mem lsda context =
     (if lsda = 0 then Some (DwOk EHNone)
      else dw_bind (read_lsda_header mem context lsda) (\<lambda>(lpad_base, enc, p, action_table).
        if \<not> USING_SJLJ_EXCEPTIONS
        then call_site_loop mem context enc lpad_base action_table p
        else if eh_ip context = -1 then Some (DwOk EHNone)
        else if eh_ip context = 0 then Some (DwOk EHTerminate)
        else sjlj_loop mem action_table (eh_ip context) p))"

end
