(* ===== verification/Dwarf_Leb.thy ===== *)
theory Dwarf_Leb
  imports Dwarf
begin

text \<open>
  The LEB128 readers invert the encoders of the DWARF standard (section 7.6), which are given
  here as the reference.
\<close>

section \<open>Encoders\<close>

function encode_uleb128 :: "u64 \<Rightarrow> u8 list" where
  "encode_uleb128 w =
     (if w < 128 then [ucast w]
      else (ucast w AND 0x7F OR 0x80) # encode_uleb128 (drop_bit 7 w))"
  by pat_completeness auto
termination
proof (relation "measure unat")
  fix w :: u64 assume "\<not> w < 128"
  then have "128 \<le> unat w" by (simp add: word_less_nat_alt)
  then have "unat w div 128 < unat w" by simp
  then have "unat (drop_bit 7 w) < unat w"
    by (simp add: drop_bit_eq_div unat_div_distrib)
  then show "(drop_bit 7 w, w) \<in> measure unat" by simp
qed simp

text \<open>The signed encoder drops seven bits arithmetically until only copies of the sign are left.\<close>

definition sign_only :: "u64 \<Rightarrow> bool" where
  "sign_only w \<longleftrightarrow> - 64 \<le> sint w \<and> sint w < 64"

definition magnitude :: "u64 \<Rightarrow> nat" where
  "magnitude w = nat (if sint w < 0 then - sint w - 1 else sint w)"

lemma sint_signed_drop_7: "sint (signed_drop_bit 7 (w :: u64)) = sint w div 128"
  by (simp add: sint_signed_drop_bit_eq drop_bit_eq_div)

lemma magnitude_int:
  fixes x :: int
  shows "nat (if x div 128 < 0 then - (x div 128) - 1 else x div 128)
    = nat (if x < 0 then - x - 1 else x) div 128"
proof (cases "x < 0")
  case True
  have eq: "- (x div 128) - 1 = (- x - 1) div 128"
  proof (rule int_div_pos_eq[symmetric])
    have "- (128 * q + r) - 1 = 128 * (- q - 1) + (127 - r)" for q r :: int by simp
    from this[of "x div 128" "x mod 128"]
    show "- x - 1 = 128 * (- (x div 128) - 1) + (127 - x mod 128)"
      by (simp only: mult_div_mod_eq)
  qed (use pos_mod_bound[of 128 x] pos_mod_sign[of 128 x] in simp_all)
  have neg: "x div 128 < 0" using True by presburger
  have "0 \<le> - x - 1" using True by simp
  then have "nat ((- x - 1) div 128) = nat (- x - 1) div 128"
    by (simp only: nat_div_distrib) simp
  then show ?thesis by (simp only: if_P[OF True] if_P[OF neg] eq)
next
  case False
  then have pos: "\<not> x div 128 < 0" by presburger
  have "0 \<le> x" using False by simp
  then have "nat (x div 128) = nat x div 128"
    by (simp only: nat_div_distrib) simp
  then show ?thesis by (simp only: if_not_P[OF False] if_not_P[OF pos])
qed

lemma magnitude_drop: "magnitude (signed_drop_bit 7 w) = magnitude w div 128"
  unfolding magnitude_def sint_signed_drop_7 by (rule magnitude_int)

lemma sign_only_magnitude: "sign_only w \<longleftrightarrow> magnitude w < 64"
proof -
  have "nat (if x < 0 then - x - 1 else x) < 64 \<longleftrightarrow> - 64 \<le> x \<and> x < 64" for x :: int by simp linarith
  then show ?thesis by (simp only: sign_only_def magnitude_def)
qed

function encode_sleb128 :: "u64 \<Rightarrow> u8 list" where
  "encode_sleb128 w =
     (if sign_only w then [ucast w AND 0x7F]
      else (ucast w AND 0x7F OR 0x80) # encode_sleb128 (signed_drop_bit 7 w))"
  by pat_completeness auto
termination
  by (relation "measure magnitude") (auto simp: magnitude_drop sign_only_magnitude)

declare encode_uleb128.simps [simp del] encode_sleb128.simps [simp del]

section \<open>The bytes of a number\<close>

fun leb_bits :: "nat \<Rightarrow> u8 list \<Rightarrow> u64" where
  "leb_bits s [] = 0"
| "leb_bits s (b # bs) = push_bit s (ucast (b AND 0x7F)) OR leb_bits (s + 7) bs"

text \<open>Every byte but the last has its high bit set.\<close>

fun leb_ok :: "u8 list \<Rightarrow> bool" where
  "leb_ok [] = False"
| "leb_ok [b] = (b AND 0x80 = 0)"
| "leb_ok (b # bs) = (b AND 0x80 \<noteq> 0 \<and> leb_ok bs)"

fun holds :: "dwarf_memory \<Rightarrow> 64 word \<Rightarrow> u8 list \<Rightarrow> bool" where
  "holds mem p [] = True"
| "holds mem p (b # bs) = (mem p = Some b \<and> holds mem (p + 1) bs)"

lemma leb_loop_eq:
  assumes "leb_ok bs" and "holds mem p bs" and "s + 7 * length bs \<le> 70"
  shows "leb_loop mem p s r
    = Some (DwOk (r OR leb_bits s bs, last bs, s + 7 * length bs, p + of_nat (length bs)))"
  using assms
proof (induction bs arbitrary: p s r rule: leb_ok.induct)
  case (2 b)
  then show ?case by (simp add: leb_loop.simps[of mem p])
next
  case (3 b b' bs)
  have "(s + 7) + 7 * length (b' # bs) \<le> 70" using 3(4) by simp
  from 3(1)[OF _ _ this, of "p + 1" "r OR push_bit s (ucast (b AND 0x7F))"] 3(2-4)
  have IH: "leb_loop mem (p + 1) (s + 7) (r OR push_bit s (ucast (b AND 0x7F)))
    = Some (DwOk ((r OR push_bit s (ucast (b AND 0x7F))) OR leb_bits (s + 7) (b' # bs),
        last (b' # bs), (s + 7) + 7 * length (b' # bs), (p + 1) + of_nat (length (b' # bs))))"
    by simp
  have "s mod 64 = s" using 3(4) by simp
  with 3(2,3) have "leb_loop mem p s r
      = leb_loop mem (p + 1) (s + 7) (r OR push_bit s (ucast (b AND 0x7F)))"
    by (subst leb_loop.simps) simp
  also note IH
  finally show ?case by (simp add: or.assoc algebra_simps)
qed simp

section \<open>Bits\<close>

lemma bit_7F:
  "bit (0x7F :: int) n \<longleftrightarrow> n < 7"
  "bit (0x80 :: int) n \<longleftrightarrow> n = 7"
  "bit (0x40 :: int) n \<longleftrightarrow> n = 6"
proof -
  have "(0x7F :: int) = mask 7" "(0x80 :: int) = push_bit 7 1" "(0x40 :: int) = push_bit 6 1"
    by (simp_all add: mask_eq_exp_minus_1)
  then show "bit (0x7F :: int) n \<longleftrightarrow> n < 7" "bit (0x80 :: int) n \<longleftrightarrow> n = 7"
    "bit (0x40 :: int) n \<longleftrightarrow> n = 6"
    by (simp_all only: bit_mask_iff bit_push_bit_iff bit_1_iff) auto
qed

lemma ucast_low_7: "(ucast (ucast (w :: u64) AND 0x7F :: u8) :: u64) = take_bit 7 w"
  by (rule bit_word_eqI) (auto simp: bit_simps bit_7F)

lemma ucast_7F_80 [simp]:
  "(ucast ((ucast (w :: u64) AND 0x7F OR 0x80) AND 0x7F :: u8) :: u64) = take_bit 7 w"
  by (rule bit_word_eqI) (auto simp: bit_simps bit_7F)

lemma ucast_7F_7F [simp]:
  "(ucast ((ucast (w :: u64) AND 0x7F) AND 0x7F :: u8) :: u64) = take_bit 7 w"
  by (rule bit_word_eqI) (auto simp: bit_simps bit_7F)

lemma high_bit_80 [simp]: "(x AND 0x7F OR 0x80) AND 0x80 \<noteq> (0 :: u8)"
proof -
  have "bit ((x AND 0x7F OR 0x80) AND 0x80) 7" by (simp add: bit_simps bit_7F)
  then show ?thesis by force
qed

lemma high_bit_7F [simp]: "(x AND 0x7F) AND 0x80 = (0 :: u8)"
  by (rule bit_word_eqI) (auto simp: bit_simps bit_7F)

lemma split_7:
  fixes w v :: u64
  assumes "\<And>n. 7 \<le> n \<Longrightarrow> n < 64 \<Longrightarrow> bit v (n - 7) = bit w n"
  shows "push_bit s (take_bit 7 w) OR push_bit (s + 7) v = push_bit s w"
proof (rule bit_word_eqI)
  fix n assume n: "n < LENGTH(64)"
  show "bit (push_bit s (take_bit 7 w) OR push_bit (s + 7) v) n = bit (push_bit s w) n"
  proof (cases "s + 7 \<le> n")
    case True
    with n assms[of "n - s"] show ?thesis by (auto simp: bit_simps)
  next
    case False
    with n show ?thesis by (auto simp: bit_simps)
  qed
qed

section \<open>Round trips\<close>

lemma small_take_7: "w < 128 \<Longrightarrow> take_bit 7 (w :: u64) = w"
proof -
  assume "w < 128"
  then have "unat w < 2 ^ 7" by (simp add: word_less_nat_alt)
  then have "unat (take_bit 7 w) = unat w"
    by (simp only: unsigned_take_bit_eq take_bit_nat_eq_self)
  then show ?thesis by (rule word_unat_eq_iff[THEN iffD2])
qed

lemma encode_uleb128_ok: "leb_ok (encode_uleb128 w) \<and> leb_bits s (encode_uleb128 w) = push_bit s w"
proof (induction w arbitrary: s rule: encode_uleb128.induct)
  case (1 w)
  show ?case
  proof (cases "w < 128")
    case True
    have w: "\<not> bit w n" if "7 \<le> n" for n
      using small_take_7[OF True] that by (metis bit_take_bit_iff not_le)
    have "ucast w AND 0x80 = (0 :: u8)"
      by (rule bit_word_eqI) (auto simp: bit_simps bit_7F w)
    moreover have "ucast (ucast w AND 0x7F :: u8) = w"
      using ucast_low_7 small_take_7[OF True] by simp
    ultimately show ?thesis using True by (simp add: encode_uleb128.simps[of w])
  next
    case False
    have "leb_bits s (encode_uleb128 w)
        = push_bit s (take_bit 7 w) OR leb_bits (s + 7) (encode_uleb128 (drop_bit 7 w))"
      by (simp add: encode_uleb128.simps[of w] False)
    also have "\<dots> = push_bit s w"
      using 1[OF False] split_7[of "drop_bit 7 w" w s] by (simp add: bit_drop_bit_eq)
    finally have bits: "leb_bits s (encode_uleb128 w) = push_bit s w" .
    obtain b bs where "encode_uleb128 (drop_bit 7 w) = b # bs"
      using 1[OF False] by (metis leb_ok.simps(1) list.exhaust)
    with 1[OF False] False bits show ?thesis by (simp add: encode_uleb128.simps[of w])
  qed
qed

lemma encode_uleb128_length: "unat w < 2 ^ (7 * Suc k) \<Longrightarrow> length (encode_uleb128 w) \<le> Suc k"
proof (induction k arbitrary: w)
  case 0
  then show ?case by (simp add: encode_uleb128.simps[of w] word_less_nat_alt)
next
  case (Suc k)
  have "unat (drop_bit 7 w) < 2 ^ (7 * Suc k)"
    using Suc.prems by (simp add: drop_bit_eq_div unat_div_distrib less_mult_imp_div_less power_add)
  from Suc.IH[OF this] show ?case by (simp add: encode_uleb128.simps[of w])
qed

lemma encode_uleb128_length_10: "length (encode_uleb128 w) \<le> 10"
proof -
  have "unat w < 2 ^ 64" using unsigned_less[of w] by simp
  then show ?thesis using encode_uleb128_length[of w 9] by simp
qed

text \<open>
  C35: \<open>read_uleb128\<close> inverts the encoder of the standard: from memory that holds the encoding
  of any 64-bit value it returns that value, with the reader right behind the encoding.
\<close>

theorem read_uleb128_inverts_encoder:
  assumes "holds mem p (encode_uleb128 w)"
  shows "read_uleb128 mem p = Some (DwOk (w, p + of_nat (length (encode_uleb128 w))))"
proof -
  have "0 + 7 * length (encode_uleb128 w) \<le> 70" using encode_uleb128_length_10[of w] by simp
  from leb_loop_eq[OF _ assms this, of 0] encode_uleb128_ok[of w 0] show ?thesis
    by (simp add: read_uleb128_def)
qed

definition memory_at :: "64 word \<Rightarrow> u8 list \<Rightarrow> dwarf_memory" where
  "memory_at base bs p = (if unat (p - base) < length bs then Some (bs ! unat (p - base)) else None)"

theorem read_uleb128_inverts_encoder_witness:
  "read_uleb128 (memory_at 0x1000 [0xE5, 0x8E, 0x26]) 0x1000 = Some (DwOk (624485, 0x1003))"
proof -
  have "encode_uleb128 624485 = [0xE5, 0x8E, 0x26]"
    by (simp add: encode_uleb128.simps)
  then show ?thesis
    using read_uleb128_inverts_encoder[of "memory_at 0x1000 [0xE5, 0x8E, 0x26]" "0x1000" 624485]
    by (simp add: memory_at_def)
qed

section \<open>Signed numbers\<close>

text \<open>
  The sign bit of the last byte stands for all the bits above the encoding. Shifting by 64 or
  more leaves nothing, so this is what the reader computes whether it extends the sign or not.
\<close>

definition sign_fill :: "nat \<Rightarrow> u8 list \<Rightarrow> u64" where
  "sign_fill s bs = (if bit (last bs) 6 then push_bit (s + 7 * length bs) (-1) else 0)"

lemma sign_only_bits:
  assumes "sign_only w" and "6 \<le> n" and "n < 64"
  shows "bit w n \<longleftrightarrow> bit w 6"
proof -
  have "sint w div 64 = 0 \<or> sint w div 64 = -1"
    using zdiv_mono1[of "- 64" "sint w" 64] zdiv_mono1[of "sint w" 63 64] assms(1)
    unfolding sign_only_def by auto
  then have "drop_bit 6 (sint w) = 0 \<or> drop_bit 6 (sint w) = -1"
    by (simp add: drop_bit_eq_div)
  then have "bit (drop_bit 6 (sint w)) m = bit (drop_bit 6 (sint w)) 0" for m
    by (elim disjE) (simp_all only: bit_0_eq bot_apply bit_minus_1_iff possible_bit_int)
  then have same: "bit (sint w) (6 + m) = bit (sint w) 6" for m
    by (simp add: bit_drop_bit_eq)
  have "bit w n = bit (sint w) n" using assms(3) by (cases "n = 63") (auto simp: bit_sint_iff)
  moreover have "bit w 6 = bit (sint w) 6" by (simp add: bit_sint_iff)
  ultimately show ?thesis using same[of "n - 6"] assms(2) by simp
qed

lemma sign_only_fill:
  assumes "sign_only w"
  shows "push_bit s (take_bit 7 w) OR (if bit w 6 then push_bit (s + 7) (-1) else 0) = push_bit s w"
proof -
  have "bit (if bit w 6 then -1 else 0 :: u64) (n - 7) = bit w n" if "7 \<le> n" "n < 64" for n
    using sign_only_bits[OF assms, of n] that by (auto simp: bit_simps)
  from split_7[OF this, of s] show ?thesis by (simp split: if_splits)
qed

lemma encode_sleb128_nonempty [simp]: "encode_sleb128 w \<noteq> []"
  by (simp add: encode_sleb128.simps[of w])

lemma encode_sleb128_ok:
  "leb_ok (encode_sleb128 w)
   \<and> leb_bits s (encode_sleb128 w) OR sign_fill s (encode_sleb128 w) = push_bit s w"
proof (induction w arbitrary: s rule: encode_sleb128.induct)
  case (1 w)
  show ?case
  proof (cases "sign_only w")
    case True
    have "bit (ucast w AND 0x7F :: u8) 6 = bit w 6" by (simp add: bit_simps bit_7F)
    with sign_only_fill[OF True, of s] True show ?thesis
      by (simp add: encode_sleb128.simps[of w] sign_fill_def ucast_low_7
          del: push_bit_minus_one_eq_not_mask split: if_splits)
  next
    case False
    let ?v = "signed_drop_bit 7 w"
    have enc: "encode_sleb128 w = (ucast w AND 0x7F OR 0x80) # encode_sleb128 ?v"
      using False by (simp add: encode_sleb128.simps[of w])
    have fill: "sign_fill s (encode_sleb128 w) = sign_fill (s + 7) (encode_sleb128 ?v)"
      by (simp add: enc sign_fill_def add.assoc)
    have "leb_bits s (encode_sleb128 w)
        = push_bit s (take_bit 7 w) OR leb_bits (s + 7) (encode_sleb128 ?v)"
      by (simp add: enc)
    then have "leb_bits s (encode_sleb128 w) OR sign_fill s (encode_sleb128 w)
        = push_bit s (take_bit 7 w) OR push_bit (s + 7) ?v"
      using 1[OF False, of "s + 7"] fill by (simp add: or.assoc)
    also have "\<dots> = push_bit s w"
      by (rule split_7) (auto simp: bit_simps)
    finally have bits: "leb_bits s (encode_sleb128 w) OR sign_fill s (encode_sleb128 w) = push_bit s w" .
    obtain b bs where "encode_sleb128 ?v = b # bs"
      by (metis encode_sleb128_nonempty list.exhaust)
    with 1[OF False] bits show ?thesis by (simp add: enc)
  qed
qed

lemma encode_sleb128_length: "magnitude w < 2 ^ (7 * k + 6) \<Longrightarrow> length (encode_sleb128 w) \<le> Suc k"
proof (induction k arbitrary: w)
  case 0
  then show ?case by (simp add: encode_sleb128.simps[of w] sign_only_magnitude)
next
  case (Suc k)
  have "magnitude (signed_drop_bit 7 w) < 2 ^ (7 * k + 6)"
    using Suc.prems by (simp add: magnitude_drop less_mult_imp_div_less power_add)
  from Suc.IH[OF this] show ?case by (simp add: encode_sleb128.simps[of w])
qed

lemma encode_sleb128_length_10: "length (encode_sleb128 w) \<le> 10"
proof -
  have "- (2 ^ 63) \<le> sint w" "sint w < 2 ^ 63" using sint_ge[of w] sint_lt[of w] by simp_all
  then have "magnitude w < 2 ^ (7 * 9 + 6)"
    unfolding magnitude_def by (auto simp: nat_less_iff)
  from encode_sleb128_length[OF this] show ?thesis by simp
qed

lemma sign_bit_40: "b AND 0x40 \<noteq> 0 \<longleftrightarrow> bit (b :: u8) 6"
proof -
  have "b AND 0x40 = (if bit b 6 then 0x40 else 0)"
    by (intro bit_word_eqI) (auto simp: bit_simps bit_7F)
  then show ?thesis by simp
qed

text \<open>
  C37: \<open>read_sleb128\<close> inverts the signed encoder of the standard on every 64-bit value, with the
  reader right behind the encoding.
\<close>

theorem read_sleb128_inverts_encoder:
  assumes "holds mem p (encode_sleb128 w)"
  shows "read_sleb128 mem p = Some (DwOk (w, p + of_nat (length (encode_sleb128 w))))"
proof -
  let ?bs = "encode_sleb128 w"
  have le: "0 + 7 * length ?bs \<le> 70" using encode_sleb128_length_10[of w] by simp
  have loop: "leb_loop mem p 0 0 = Some (DwOk (leb_bits 0 ?bs, last ?bs, 7 * length ?bs, p + of_nat (length ?bs)))"
    using leb_loop_eq[OF _ assms le, of 0] encode_sleb128_ok[of w 0] by simp
  from le have wide: "7 * length ?bs mod 2 ^ 32 = 7 * length ?bs" by simp
  have "(if 7 * length ?bs < 64 \<and> last ?bs AND 0x40 \<noteq> 0
      then leb_bits 0 ?bs OR push_bit (7 * length ?bs) (-1) else leb_bits 0 ?bs)
    = leb_bits 0 ?bs OR sign_fill 0 ?bs"
  proof (cases "7 * length ?bs < 64")
    case True
    with le show ?thesis by (simp only: sign_bit_40 sign_fill_def) simp
  next
    case False
    then have "push_bit (7 * length ?bs) (-1 :: u64) = 0"
      by (intro bit_word_eqI) (auto simp: bit_simps)
    with False le show ?thesis by (simp add: sign_fill_def)
  qed
  then show ?thesis
    using encode_sleb128_ok[of w 0] by (simp only: read_sleb128_def loop dw_bind_simps wide Let_def prod.case) simp
qed

theorem read_sleb128_inverts_encoder_witness:
  "read_sleb128 (memory_at 0x1000 [0x9B, 0xF1, 0x59]) 0x1000 = Some (DwOk (- 624485, 0x1003))"
proof -
  have "encode_sleb128 (- 624485) = [0x9B, 0xF1, 0x59]"
    by (simp add: encode_sleb128.simps sign_only_def)
  then show ?thesis
    using read_sleb128_inverts_encoder[of "memory_at 0x1000 [0x9B, 0xF1, 0x59]" "0x1000" "- 624485"]
    by (simp add: memory_at_def)
qed

end
