(* ===== verification/Dwarf_Eh.thy ===== *)
theory Dwarf_Eh
  imports Dwarf_Leb
begin

text \<open>
  \<open>find_eh_action\<close> against its specification: the call-site table as the list of its entries,
  and the entry whose range of instructions holds the instruction pointer.
\<close>

section \<open>The table as a list\<close>

fun table_holds ::
  "dwarf_memory \<Rightarrow> u8 \<Rightarrow> 64 word \<Rightarrow> call_site list \<Rightarrow> 64 word \<Rightarrow> bool" where
  "table_holds mem enc p [] q = (p = q)"
| "table_holds mem enc p (e # es) q =
     (p < q \<and> (case read_call_site mem enc p of
                  Some (DwOk (e', p')) \<Rightarrow> e' = e \<and> table_holds mem enc p' es q
                | _ \<Rightarrow> False))"

text \<open>The range of a call site, and a table whose ranges do not wrap and follow each other.\<close>

definition cs_low :: "eh_context \<Rightarrow> call_site \<Rightarrow> 64 word" where
  "cs_low context e = eh_func_start context + cs_start e"

definition cs_high :: "eh_context \<Rightarrow> call_site \<Rightarrow> 64 word" where
  "cs_high context e = eh_func_start context + (cs_start e + cs_len e)"

definition covers :: "eh_context \<Rightarrow> call_site \<Rightarrow> bool" where
  "covers context e \<longleftrightarrow> cs_low context e \<le> eh_ip context \<and> eh_ip context < cs_high context e"

definition table_sorted :: "eh_context \<Rightarrow> call_site list \<Rightarrow> bool" where
  "table_sorted context es \<longleftrightarrow>
     (\<forall>e \<in> set es. cs_low context e \<le> cs_high context e)
     \<and> sorted_wrt (\<lambda>e e'. cs_high context e \<le> cs_low context e') es"

definition call_site_action ::
  "dwarf_memory \<Rightarrow> 64 word \<Rightarrow> 64 word \<Rightarrow> call_site \<Rightarrow> eh_action dw option" where
  "call_site_action mem lpad_base action_table e =
     (if cs_lpad e = 0 then Some (DwOk EHNone)
      else interpret_cs_action mem action_table (cs_action_entry e) (lpad_base + cs_lpad e))"

lemma call_site_loop_Cons:
  assumes "table_holds mem enc p (e # es) table"
  obtains p' where "table_holds mem enc p' es table"
    and "call_site_loop mem context enc base table p =
      (if eh_ip context < cs_low context e then Some (DwOk EHTerminate)
       else if eh_ip context < cs_high context e then call_site_action mem base table e
       else call_site_loop mem context enc base table p')"
proof -
  from assms obtain p' where "p < table" "read_call_site mem enc p = Some (DwOk (e, p'))"
      and holds: "table_holds mem enc p' es table"
    by (auto split: option.splits dw.splits)
  then have "call_site_loop mem context enc base table p =
      (if eh_ip context < cs_low context e then Some (DwOk EHTerminate)
       else if eh_ip context < cs_high context e then call_site_action mem base table e
       else call_site_loop mem context enc base table p')"
    by (subst call_site_loop.simps) (simp add: call_site_action_def cs_low_def cs_high_def)
  with holds show thesis by (rule that)
qed

lemma table_sorted_Cons:
  "table_sorted context (e # es) \<longleftrightarrow>
     cs_low context e \<le> cs_high context e \<and> table_sorted context es
     \<and> (\<forall>e' \<in> set es. cs_high context e \<le> cs_low context e')"
  by (auto simp: table_sorted_def)

lemma call_site_loop_lookup:
  assumes "table_holds mem enc p es table" and "table_sorted context es"
  shows "(e \<in> set es \<and> covers context e \<longrightarrow>
      call_site_loop mem context enc base table p = call_site_action mem base table e)
    \<and> ((\<forall>e \<in> set es. \<not> covers context e) \<longrightarrow>
      call_site_loop mem context enc base table p = Some (DwOk EHTerminate))"
  using assms
proof (induction es arbitrary: p)
  case Nil
  then show ?case by (subst call_site_loop.simps) simp
next
  case (Cons c cs)
  obtain p' where p': "table_holds mem enc p' cs table"
    and loop: "call_site_loop mem context enc base table p =
      (if eh_ip context < cs_low context c then Some (DwOk EHTerminate)
       else if eh_ip context < cs_high context c then call_site_action mem base table c
       else call_site_loop mem context enc base table p')"
    by (rule call_site_loop_Cons[OF Cons.prems(1)])
  have c: "cs_low context c \<le> cs_high context c" "table_sorted context cs"
      "\<And>e. e \<in> set cs \<Longrightarrow> cs_high context c \<le> cs_low context e"
    using Cons.prems(2) by (auto simp: table_sorted_Cons)
  note IH = Cons.IH[OF p' c(2)]
  consider (before) "eh_ip context < cs_low context c" | (here) "covers context c"
    | (after_it) "cs_high context c \<le> eh_ip context"
    by (force simp: covers_def)
  then show ?case
  proof cases
    case before
    then have "\<not> covers context e" if "e \<in> set (c # cs)" for e
      using that c(1,3) by (force simp: covers_def)
    with before show ?thesis by (auto simp: loop)
  next
    case here
    then have "\<not> covers context e" if "e \<in> set cs" for e
      using that c(3)[OF that] by (force simp: covers_def)
    with here show ?thesis by (auto simp: loop covers_def)
  next
    case after_it
    then have "\<not> eh_ip context < cs_low context c" "\<not> covers context c"
      using c(1) by (auto simp: covers_def)
    with after_it IH show ?thesis by (auto simp: loop)
  qed
qed

text \<open>
  C19: on a well-formed exception table, \<open>find_eh_action\<close> ends and is the lookup of the
  instruction pointer: the action of the one call site whose range holds it, and \<open>Terminate\<close>
  when there is none; it stops early only where no later entry could match.
\<close>

theorem find_eh_action_is_lookup:
  assumes "lsda \<noteq> 0"
    and "read_lsda_header mem context lsda = Some (DwOk (base, enc, p, table))"
    and "table_holds mem enc p es table" and "table_sorted context es"
  shows "(\<forall>e \<in> set es. covers context e \<longrightarrow>
      find_eh_action mem lsda context = call_site_action mem base table e)
    \<and> ((\<forall>e \<in> set es. \<not> covers context e) \<longrightarrow>
      find_eh_action mem lsda context = Some (DwOk EHTerminate))"
  using call_site_loop_lookup[OF assms(3,4)] assms(1,2)
  by (simp add: find_eh_action_def USING_SJLJ_EXCEPTIONS_def)

text \<open>
  A table of two call sites: instructions 0 to 15 of the function have a clean-up, instructions
  16 to 31 have none.
\<close>

definition example_lsda :: dwarf_memory where
  "example_lsda = memory_at 0x2000
     [0xFF, 0xFF, 0x01, 0x08, 0x00, 0x10, 0x20, 0x00, 0x10, 0x10, 0x00, 0x00]"

definition example_context :: "64 word \<Rightarrow> eh_context" where
  "example_context ip =
     \<lparr> eh_ip = ip, eh_func_start = 0x400000, eh_text_start = 0, eh_data_start = 0 \<rparr>"

lemma example_byte [simp]:
  "example_lsda 0x2000 = Some 0xFF" "example_lsda 0x2001 = Some 0xFF"
  "example_lsda 0x2002 = Some 0x01" "example_lsda 0x2003 = Some 0x08"
  "example_lsda 0x2004 = Some 0x00" "example_lsda 0x2005 = Some 0x10"
  "example_lsda 0x2006 = Some 0x20" "example_lsda 0x2007 = Some 0x00"
  "example_lsda 0x2008 = Some 0x10" "example_lsda 0x2009 = Some 0x10"
  "example_lsda 0x200A = Some 0x00" "example_lsda 0x200B = Some 0x00"
  by (simp_all add: example_lsda_def memory_at_def)

lemma read_byte: "mem p = Some b \<Longrightarrow> dw_read mem (Suc 0) p = Some (DwOk (b :: u8, p + 1))"
  by (simp add: dw_read_def dw_read_bytes_def)

lemma read_small:
  "mem p = Some b \<Longrightarrow> b AND 0x80 = 0 \<Longrightarrow>
     read_uleb128 mem p = Some (DwOk (ucast (b AND 0x7F), p + 1))"
  by (simp add: read_uleb128_def leb_loop.simps)

theorem find_eh_action_is_lookup_witness:
  "find_eh_action example_lsda 0x2000 (example_context 0x400005) = Some (DwOk (EHCleanup 0x400020))
   \<and> find_eh_action example_lsda 0x2000 (example_context 0x400015) = Some (DwOk EHNone)
   \<and> find_eh_action example_lsda 0x2000 (example_context 0x400025) = Some (DwOk EHTerminate)"
proof -
  let ?es = "[\<lparr> cs_start = 0, cs_len = 16, cs_lpad = 32, cs_action_entry = 0 \<rparr>,
              \<lparr> cs_start = 16, cs_len = 16, cs_lpad = 0, cs_action_entry = 0 \<rparr>]"
  have header: "read_lsda_header example_lsda (example_context ip) 0x2000
      = Some (DwOk (0x400000, 1, 0x2004, 0x200C))" for ip
    by (simp add: read_lsda_header_def read_byte read_small DW_EH_PE_omit_def example_context_def)
  have offset: "read_encoded_offset example_lsda 1 p = read_uleb128 example_lsda p" for p
    by (simp add: read_encoded_offset_def DW_EH_PE_defs)
  have sites: "read_call_site example_lsda 1 0x2004 = Some (DwOk (?es ! 0, 0x2008))"
    "read_call_site example_lsda 1 0x2008 = Some (DwOk (?es ! 1, 0x200C))"
    by (simp_all add: read_call_site_def offset read_small)
  then have table: "table_holds example_lsda 1 0x2004 ?es 0x200C" by simp
  have sorted: "table_sorted (example_context ip) ?es" for ip
    by (simp add: table_sorted_def cs_low_def cs_high_def example_context_def)
  note lookup = find_eh_action_is_lookup[OF _ header table sorted]
  show ?thesis
    using lookup[of "0x400005"] lookup[of "0x400015"] lookup[of "0x400025"]
    by (simp add: covers_def cs_low_def cs_high_def example_context_def call_site_action_def
        interpret_cs_action_def)
qed

end
