(* ===== verification/Process_Env.thy ===== *)
theory Process_Env
  imports Prelude "HOL-Library.RBT" "HOL-Library.List_Lexorder"
begin

text \<open>
  Describing a process to start (\<open>std/sys-src/process\<close>): the changes to the environment, and
  the command with its arguments and streams. The library's \<open>BTreeMap\<close> is the red-black map of
  the library, whose entries are sorted by key as well; operating-system strings are their
  bytes.
\<close>

section \<open>Changes to the environment\<close>

type_synonym os_string = "u8 list"

definition PATH_key :: os_string where "PATH_key = [80, 65, 84, 72]"

record command_env =
  env_clear :: bool
  saw_path :: bool
  vars :: "(os_string, os_string option) rbt"

definition command_env_default :: command_env where
  "command_env_default = \<lparr> env_clear = False, saw_path = False, vars = RBT.empty \<rparr>"

definition maybe_saw_path :: "os_string \<Rightarrow> command_env \<Rightarrow> command_env" where
  "maybe_saw_path key e = (if \<not> saw_path e \<and> key = PATH_key then e\<lparr> saw_path := True \<rparr> else e)"

definition env_set :: "os_string \<Rightarrow> os_string \<Rightarrow> command_env \<Rightarrow> command_env" where
  "env_set key value e =
     (let e1 = maybe_saw_path key e in e1\<lparr> vars := RBT.insert key (Some value) (vars e1) \<rparr>)"

definition env_remove :: "os_string \<Rightarrow> command_env \<Rightarrow> command_env" where
  "env_remove key e =
     (let e1 = maybe_saw_path key e
      in if env_clear e1 then e1\<lparr> vars := RBT.delete key (vars e1) \<rparr>
         else e1\<lparr> vars := RBT.insert key None (vars e1) \<rparr>)"

definition env_do_clear :: "command_env \<Rightarrow> command_env" where
  "env_do_clear e = e\<lparr> env_clear := True, vars := RBT.empty \<rparr>"

definition does_clear :: "command_env \<Rightarrow> bool" where "does_clear e = env_clear e"

definition have_changed_path :: "command_env \<Rightarrow> bool" where
  "have_changed_path e \<longleftrightarrow> saw_path e \<or> env_clear e"

definition is_unchanged :: "command_env \<Rightarrow> bool" where
  "is_unchanged e \<longleftrightarrow> \<not> env_clear e \<and> RBT.is_empty (vars e)"

text \<open>
  \<open>capture\<close>: the inherited variables (\<open>env::vars_os\<close>, which panics on this platform, is a
  parameter), then the changes in key order.
\<close>

fun apply_change ::
  "os_string \<times> os_string option \<Rightarrow> (os_string, os_string) rbt \<Rightarrow> (os_string, os_string) rbt" where
  "apply_change (k, Some v) result = RBT.insert k v result"
| "apply_change (k, None) result = RBT.delete k result"

definition env_capture ::
  "(os_string \<times> os_string) list exec \<Rightarrow> command_env \<Rightarrow> (os_string, os_string) rbt exec" where
  "env_capture vars_os e =
     bind_exec
       (if \<not> env_clear e
        then bind_exec vars_os (\<lambda>l. Ret (fold (\<lambda>(k, v). RBT.insert k v) l RBT.empty))
        else Ret RBT.empty)
       (\<lambda>result. Ret (fold apply_change (RBT.entries (vars e)) result))"

definition env_capture_if_changed ::
  "(os_string \<times> os_string) list exec \<Rightarrow> command_env \<Rightarrow> (os_string, os_string) rbt option exec" where
  "env_capture_if_changed vars_os e =
     (if is_unchanged e then Ret None
      else bind_exec (env_capture vars_os e) (\<lambda>m. Ret (Some m)))"

text \<open>The platform's own environment: there is none.\<close>

definition platform_env :: "(os_string \<times> os_string) list exec" where
  "platform_env = Panic ''not supported on this platform''"

definition platform_getenv :: "os_string \<Rightarrow> os_string option" where
  "platform_getenv k = None"

datatype env_error = Unsupported

definition platform_setenv :: "os_string \<Rightarrow> os_string \<Rightarrow> env_error + unit" where
  "platform_setenv k v = Inl Unsupported"

definition platform_unsetenv :: "os_string \<Rightarrow> env_error + unit" where
  "platform_unsetenv k = Inl Unsupported"

text \<open>The iterators over the changes and over a captured environment: what is left of the entries.\<close>

definition command_envs :: "command_env \<Rightarrow> (os_string \<times> os_string option) list" where
  "command_envs e = RBT.entries (vars e)"

fun envs_next :: "('k \<times> 'v) list \<Rightarrow> ('k \<times> 'v) option \<times> ('k \<times> 'v) list" where
  "envs_next [] = (None, [])"
| "envs_next (kv # rest) = (Some kv, rest)"

definition envs_size_hint :: "('k \<times> 'v) list \<Rightarrow> nat \<times> nat option" where
  "envs_size_hint it = (length it, Some (length it))"

definition envs_len :: "('k \<times> 'v) list \<Rightarrow> nat" where "envs_len it = length it"
definition envs_is_empty :: "('k \<times> 'v) list \<Rightarrow> bool" where "envs_is_empty it \<longleftrightarrow> it = []"

definition resolved_envs :: "(os_string, os_string) rbt \<Rightarrow> (os_string \<times> os_string) list" where
  "resolved_envs m = RBT.entries m"

section \<open>Commands\<close>

datatype 'file stdio = Inherit | Null | MakePipe | ParentStdout | ParentStderr | InheritFile 'file

record 'file command =
  program :: os_string
  args :: "os_string list"
  command_environment :: command_env
  cwd :: "os_string option"
  c_stdin :: "'file stdio option"
  c_stdout :: "'file stdio option"
  c_stderr :: "'file stdio option"

definition command_new :: "os_string \<Rightarrow> 'file command" where
  "command_new p =
     \<lparr> program = p, args = [p], command_environment = command_env_default,
       cwd = None, c_stdin = None, c_stdout = None, c_stderr = None \<rparr>"

definition command_arg :: "os_string \<Rightarrow> 'file command \<Rightarrow> 'file command" where
  "command_arg a c = c\<lparr> args := args c @ [a] \<rparr>"

definition command_env_mut ::
  "(command_env \<Rightarrow> command_env) \<Rightarrow> 'file command \<Rightarrow> 'file command" where
  "command_env_mut f c = c\<lparr> command_environment := f (command_environment c) \<rparr>"

definition command_cwd :: "os_string \<Rightarrow> 'file command \<Rightarrow> 'file command" where
  "command_cwd dir c = c\<lparr> cwd := Some dir \<rparr>"

definition command_stdin :: "'file stdio \<Rightarrow> 'file command \<Rightarrow> 'file command" where
  "command_stdin s c = c\<lparr> c_stdin := Some s \<rparr>"

definition command_stdout :: "'file stdio \<Rightarrow> 'file command \<Rightarrow> 'file command" where
  "command_stdout s c = c\<lparr> c_stdout := Some s \<rparr>"

definition command_stderr :: "'file stdio \<Rightarrow> 'file command \<Rightarrow> 'file command" where
  "command_stderr s c = c\<lparr> c_stderr := Some s \<rparr>"

definition get_program :: "'file command \<Rightarrow> os_string" where "get_program c = program c"

text \<open>The arguments without the program name, which \<open>iter.next()\<close> skips.\<close>

definition get_args :: "'file command \<Rightarrow> os_string list" where "get_args c = drop 1 (args c)"

fun args_next :: "os_string list \<Rightarrow> os_string option \<times> os_string list" where
  "args_next [] = (None, [])"
| "args_next (a # rest) = (Some a, rest)"

definition get_envs :: "'file command \<Rightarrow> (os_string \<times> os_string option) list" where
  "get_envs c = command_envs (command_environment c)"

definition get_env_clear :: "'file command \<Rightarrow> bool" where
  "get_env_clear c = does_clear (command_environment c)"

definition get_resolved_envs ::
  "(os_string \<times> os_string) list exec \<Rightarrow> 'file command \<Rightarrow> (os_string \<times> os_string) list exec" where
  "get_resolved_envs vars_os c =
     bind_exec (env_capture vars_os (command_environment c)) (\<lambda>m. Ret (resolved_envs m))"

definition get_current_dir :: "'file command \<Rightarrow> os_string option" where
  "get_current_dir c = cwd c"

definition command_spawn :: "'file command \<Rightarrow> unit exec" where
  "command_spawn c = Panic ''not implemented''"

definition command_output :: "'file command \<Rightarrow> unit exec" where
  "command_output c = Panic ''not implemented''"

definition stdio_from_stdout :: "'file stdio" where "stdio_from_stdout = ParentStdout"
definition stdio_from_stderr :: "'file stdio" where "stdio_from_stderr = ParentStderr"
definition stdio_from_file :: "'file \<Rightarrow> 'file stdio" where "stdio_from_file f = InheritFile f"

text \<open>
  The plain \<open>Debug\<close> form of a command. How a string is quoted (\<open>{:?}\<close>) and how one that is not
  UTF-8 is shown (\<open>to_string_lossy\<close>) are parameters.
\<close>

definition command_debug ::
  "(os_string \<Rightarrow> string) \<Rightarrow> (os_string \<Rightarrow> string) \<Rightarrow> 'file command \<Rightarrow> string" where
  "command_debug quoted lossy c =
     (let removed = map fst (filter (\<lambda>(k, v). v = None) (get_envs c));
          altered = concat (map (\<lambda>(k, v). case v of None \<Rightarrow> [] | Some v \<Rightarrow> [(k, v)]) (get_envs c))
      in (case cwd c of None \<Rightarrow> '''' | Some d \<Rightarrow> ''cd '' @ quoted d @ '' && '')
         @ (if get_env_clear c then ''env -i ''
            else (if removed = [] then '''' else ''env '')
                 @ concat (map (\<lambda>k. ''-u '' @ lossy k @ '' '') removed))
         @ concat (map (\<lambda>(k, v). lossy k @ ''='' @ quoted v @ '' '') altered)
         @ (if program c \<noteq> args c ! 0 then ''['' @ quoted (program c) @ ''] '' else '''')
         @ quoted (args c ! 0)
         @ concat (map (\<lambda>a. '' '' @ quoted a) (drop 1 (args c))))"

text \<open>
  The alternate form (\<open>{:#?}\<close>) is a structure: its name and the fields that it is given, each with
  its value. The fields of the environment are its flag and its changes.
\<close>

definition env_debug :: "command_env \<Rightarrow> bool \<times> (os_string \<times> os_string option) list" where
  "env_debug e = (env_clear e, RBT.entries (vars e))"

datatype 'file debug_value =
    Debug_Str os_string
  | Debug_Strs "os_string list"
  | Debug_Env "bool \<times> (os_string \<times> os_string option) list"
  | Debug_Dir "os_string option"
  | Debug_Stdio "'file stdio option"

definition command_debug_alternate :: "'file command \<Rightarrow> string \<times> (string \<times> 'file debug_value) list" where
  "command_debug_alternate c =
     (''Command'',
      [(''program'', Debug_Str (program c)), (''args'', Debug_Strs (args c))]
      @ (if \<not> is_unchanged (command_environment c)
         then [(''env'', Debug_Env (env_debug (command_environment c)))] else [])
      @ (if cwd c \<noteq> None then [(''cwd'', Debug_Dir (cwd c))] else [])
      @ (if c_stdin c \<noteq> None then [(''stdin'', Debug_Stdio (c_stdin c))] else [])
      @ (if c_stdout c \<noteq> None then [(''stdout'', Debug_Stdio (c_stdout c))] else [])
      @ (if c_stderr c \<noteq> None then [(''stderr'', Debug_Stdio (c_stderr c))] else []))"

text \<open>The iterator over the arguments: what is left of them.\<close>

definition args_size_hint :: "os_string list \<Rightarrow> nat \<times> nat option" where
  "args_size_hint it = (length it, Some (length it))"

definition args_len :: "os_string list \<Rightarrow> nat" where "args_len it = length it"
definition args_is_empty :: "os_string list \<Rightarrow> bool" where "args_is_empty it \<longleftrightarrow> it = []"
definition args_debug :: "os_string list \<Rightarrow> os_string list" where "args_debug it = it"

section \<open>Exit codes\<close>

record exit_code = exit_code_byte :: u8

definition EXIT_SUCCESS :: exit_code where "EXIT_SUCCESS = \<lparr> exit_code_byte = 0 \<rparr>"
definition EXIT_FAILURE :: exit_code where "EXIT_FAILURE = \<lparr> exit_code_byte = 1 \<rparr>"
definition exit_code_as_i32 :: "exit_code \<Rightarrow> 32 word" where
  "exit_code_as_i32 c = ucast (exit_code_byte c)"
definition exit_code_from :: "u8 \<Rightarrow> exit_code" where
  "exit_code_from code = \<lparr> exit_code_byte = code \<rparr>"
definition exit_status_ok :: "string + unit" where "exit_status_ok = Inr ()"
definition exit_status_code :: "(32 word) option" where "exit_status_code = Some 0"
definition exit_status_display :: string where "exit_status_display = ''<dummy exit status>''"
definition getpid :: "u32 exec" where "getpid = Panic ''no pids on this platform''"

section \<open>What a sequence of changes means\<close>

datatype env_op = SetVar os_string os_string | RemoveVar os_string | ClearAll

fun env_do :: "env_op \<Rightarrow> command_env \<Rightarrow> command_env" where
  "env_do (SetVar k v) e = env_set k v e"
| "env_do (RemoveVar k) e = env_remove k e"
| "env_do ClearAll e = env_do_clear e"

text \<open>The specification: the changes made at once on the environment.\<close>

fun spec_op :: "env_op \<Rightarrow> (os_string \<rightharpoonup> os_string) \<Rightarrow> (os_string \<rightharpoonup> os_string)" where
  "spec_op (SetVar k v) m = m(k \<mapsto> v)"
| "spec_op (RemoveVar k) m = m(k := None)"
| "spec_op ClearAll m = Map.empty"

text \<open>What a set of changes does to an inherited environment.\<close>

definition env_apply :: "command_env \<Rightarrow> (os_string \<rightharpoonup> os_string) \<Rightarrow> (os_string \<rightharpoonup> os_string)" where
  "env_apply e m k =
     (case RBT.lookup (vars e) k of
        Some mv \<Rightarrow> mv
      | None \<Rightarrow> (if env_clear e then None else m k))"

lemma maybe_saw_path_simps [simp]:
  "vars (maybe_saw_path k e) = vars e"
  "env_clear (maybe_saw_path k e) = env_clear e"
  "saw_path (maybe_saw_path k e) \<longleftrightarrow> saw_path e \<or> k = PATH_key"
  by (auto simp: maybe_saw_path_def)

lemma env_apply_do: "env_apply (env_do op e) m = spec_op op (env_apply e m)"
  by (cases op)
    (auto simp: env_apply_def env_set_def env_remove_def env_do_clear_def Let_def fun_eq_iff)

lemma env_apply_ops: "env_apply (fold env_do ops e) m = fold spec_op ops (env_apply e m)"
  by (induction ops arbitrary: e) (simp_all add: env_apply_do)

lemma env_apply_default [simp]: "env_apply command_env_default m = m"
  by (simp add: env_apply_def command_env_default_def fun_eq_iff)

lemma lookup_fold_insert:
  "RBT.lookup (fold (\<lambda>(k, v). RBT.insert k v) l r) = RBT.lookup r ++ map_of (rev l)"
proof (induction l arbitrary: r)
  case (Cons kv l)
  then show ?case
    by (cases kv) (auto simp: map_add_def fun_eq_iff split: option.splits)
qed simp

lemma lookup_fold_changes:
  "distinct (map fst es) \<Longrightarrow> RBT.lookup (fold apply_change es r) k
     = (case map_of es k of Some mv \<Rightarrow> mv | None \<Rightarrow> RBT.lookup r k)"
proof (induction es arbitrary: r)
  case (Cons kv es)
  obtain k' mv where kv: "kv = (k', mv)" by force
  have "RBT.lookup (apply_change kv r) k = (if k = k' then mv else RBT.lookup r k)"
    by (cases mv) (auto simp: kv)
  moreover have "map_of es k' = None" using Cons.prems by (auto simp: kv map_of_eq_None_iff)
  ultimately show ?case using Cons by (auto simp: kv split: option.splits)
qed simp

text \<open>
  C11: capturing the environment after any sequence of \<open>set\<close>, \<open>remove\<close> and \<open>clear\<close> gives what the
  same changes make of the inherited variables when they are carried out at once, in key order
  and without duplicates.
\<close>

theorem capture_implements_changes:
  "\<exists>m. env_capture (Ret inherited) (fold env_do ops command_env_default) = Ret m
    \<and> RBT.lookup m = fold spec_op ops (map_of (rev inherited))
    \<and> sorted (map fst (resolved_envs m)) \<and> distinct (map fst (resolved_envs m))"
proof -
  let ?e = "fold env_do ops command_env_default"
  let ?base = "if env_clear ?e then RBT.empty
    else fold (\<lambda>(k, v). RBT.insert k v) inherited RBT.empty"
  let ?m = "fold apply_change (RBT.entries (vars ?e)) ?base"
  have run: "env_capture (Ret inherited) ?e = Ret ?m"
    by (simp add: env_capture_def)
  have "RBT.lookup ?base = (if env_clear ?e then Map.empty else map_of (rev inherited))"
    by (simp add: lookup_fold_insert)
  then have "RBT.lookup ?m = env_apply ?e (map_of (rev inherited))"
    by (auto simp: fun_eq_iff lookup_fold_changes RBT.distinct_entries RBT.map_of_entries
        env_apply_def split: option.splits)
  also have "\<dots> = fold spec_op ops (map_of (rev inherited))"
    by (simp add: env_apply_ops)
  finally have "RBT.lookup ?m = fold spec_op ops (map_of (rev inherited))" .
  with run show ?thesis
    by (intro exI[where x = ?m])
      (simp add: resolved_envs_def RBT.distinct_entries RBT.sorted_entries)
qed

lemma path_in_vars: "PATH_key \<in> dom (RBT.lookup (vars (fold env_do ops e))) \<Longrightarrow>
    PATH_key \<notin> dom (RBT.lookup (vars e)) \<or> saw_path e \<Longrightarrow> saw_path (fold env_do ops e)"
proof (induction ops arbitrary: e)
  case (Cons op ops)
  have "PATH_key \<notin> dom (RBT.lookup (vars (env_do op e))) \<or> saw_path (env_do op e)"
    using Cons.prems(2)
    by (cases op) (auto simp: env_set_def env_remove_def env_do_clear_def Let_def split: if_splits)
  with Cons show ?case by simp
qed auto

text \<open>
  The two short cuts are safe: when \<open>capture_if_changed\<close> gives nothing, the changes leave
  every environment as it is, and when \<open>have_changed_path\<close> is false they leave its \<open>PATH\<close>.
\<close>

theorem env_short_cuts_safe:
  defines "result ops \<equiv> fold env_do ops command_env_default"
  shows "(env_capture_if_changed (Ret inherited) (result ops) = Ret None \<longrightarrow> fold spec_op ops m = m)
    \<and> (\<not> have_changed_path (result ops) \<longrightarrow> fold spec_op ops m PATH_key = m PATH_key)"
proof (intro conjI impI)
  have eq: "fold spec_op ops m = env_apply (result ops) m"
    by (simp add: result_def env_apply_ops)
  show "fold spec_op ops m = m"
    if "env_capture_if_changed (Ret inherited) (result ops) = Ret None"
  proof -
    have "is_unchanged (result ops)"
      using that by (auto simp: env_capture_if_changed_def exec_simps split: if_splits)
    then show ?thesis
      by (simp add: eq env_apply_def is_unchanged_def fun_eq_iff)
  qed
  show "fold spec_op ops m PATH_key = m PATH_key" if "\<not> have_changed_path (result ops)"
  proof -
    from that have unseen: "\<not> saw_path (result ops)" "\<not> env_clear (result ops)"
      by (simp_all add: have_changed_path_def)
    then have "PATH_key \<notin> dom (RBT.lookup (vars (result ops)))"
      using path_in_vars[of ops command_env_default]
      by (auto simp: result_def command_env_default_def)
    then have "RBT.lookup (vars (result ops)) PATH_key = None" by (simp add: domIff)
    with unseen(2) show ?thesis by (simp add: eq env_apply_def)
  qed
qed

theorem env_short_cuts_safe_witness:
  "fold spec_op [SetVar [72] [47], RemoveVar [88]] [PATH_key \<mapsto> [1]] PATH_key = Some [1]
   \<and> fold spec_op [] [PATH_key \<mapsto> [1]] = [PATH_key \<mapsto> [1]]"
  using env_short_cuts_safe[of "[]" "[SetVar [72] [47], RemoveVar [88]]" "[PATH_key \<mapsto> [1]]"]
    env_short_cuts_safe[of "[]" "[]" "[PATH_key \<mapsto> [1]]"]
  by (simp add: have_changed_path_def env_set_def env_remove_def maybe_saw_path_def
      command_env_default_def PATH_key_def env_capture_if_changed_def is_unchanged_def Let_def)

text \<open>The arguments are what was added, in order, without the program name.\<close>

lemma args_fold: "args (fold command_arg as c) = args c @ as"
  by (induction as arbitrary: c) (simp_all add: command_arg_def)

lemma get_args_added:
  "get_args (fold command_arg as (command_new p)) = as"
  "args (fold command_arg as (command_new p)) = p # as"
  by (simp_all add: get_args_def args_fold) (simp_all add: command_new_def)

text \<open>
  The alternate form shows every attribute: leaving the fields that are not set out loses nothing,
  and two commands with the same form differ at most in the flag \<open>saw_path\<close>.
\<close>

definition shown :: "string \<Rightarrow> (string \<times> 'file debug_value) list \<Rightarrow> 'file debug_value option" where
  "shown field fs = map_of fs field"

lemma debug_shows_fields:
  fixes c :: "'file command"
  defines "fs \<equiv> snd (command_debug_alternate c)"
  shows "shown ''program'' fs = Some (Debug_Str (program c))"
    and "shown ''args'' fs = Some (Debug_Strs (args c))"
    and "shown ''env'' fs = (if is_unchanged (command_environment c) then None
           else Some (Debug_Env (env_debug (command_environment c))))"
    and "shown ''cwd'' fs = map_option (\<lambda>d. Debug_Dir (Some d)) (cwd c)"
    and "shown ''stdin'' fs = map_option (\<lambda>d. Debug_Stdio (Some d)) (c_stdin c)"
    and "shown ''stdout'' fs = map_option (\<lambda>d. Debug_Stdio (Some d)) (c_stdout c)"
    and "shown ''stderr'' fs = map_option (\<lambda>d. Debug_Stdio (Some d)) (c_stderr c)"
  unfolding fs_def shown_def command_debug_alternate_def by (auto simp: map_option_case)

lemma unchanged_env_debug:
  "is_unchanged e \<longleftrightarrow> env_debug e = (False, [])"
proof -
  have "vars e = RBT.empty \<longleftrightarrow> map_of (RBT.entries (vars e)) = Map.empty"
    by (simp only: RBT.map_of_entries RBT.lookup_empty_empty)
  also have "\<dots> \<longleftrightarrow> RBT.entries (vars e) = []" by (rule map_of_eq_empty_iff)
  finally show ?thesis by (simp add: is_unchanged_def env_debug_def)
qed

lemma debug_shows_all_attributes:
  assumes "command_debug_alternate c = command_debug_alternate d"
  shows "program c = program d" "args c = args d" "cwd c = cwd d"
    "c_stdin c = c_stdin d" "c_stdout c = c_stdout d" "c_stderr c = c_stderr d"
    "env_debug (command_environment c) = env_debug (command_environment d)"
proof -
  have inj: "inj (\<lambda>d. Debug_Dir (Some d))" "inj (\<lambda>d. Debug_Stdio (Some d))"
    by (simp_all add: inj_def)
  note same = debug_shows_fields[of c, unfolded assms debug_shows_fields, symmetric]
  show "program c = program d" "args c = args d" using same(1,2) by simp_all
  show "cwd c = cwd d" "c_stdin c = c_stdin d" "c_stdout c = c_stdout d" "c_stderr c = c_stderr d"
    using same(4-7) by (simp_all add: inj_eq[OF option.inj_map] inj)
  show "env_debug (command_environment c) = env_debug (command_environment d)"
    using same(3) by (auto simp: unchanged_env_debug split: if_splits)
qed

end
