(* ===== verification/Helpers.thy ===== *)
theory Helpers
  imports Prelude
begin

text \<open>
  The small helpers of the standard library port (\<open>std/sys-src/helpers\<close>): scaling without
  overflow, C strings, wide strings; and the two platform-independent helpers of
  \<open>std/sys-src/net/connection\<close>. Closures carry a state of their own, because the source calls
  them through \<open>FnMut\<close>.
\<close>

section \<open>Scaling\<close>

text \<open>Division by zero panics; the other operations wrap in the release profile.\<close>

definition mul_div_u64 :: "u64 \<Rightarrow> u64 \<Rightarrow> u64 \<Rightarrow> u64 exec" where
  "mul_div_u64 value numerator denom =
     (if denom = 0 then Panic ''attempt to divide by zero''
      else let q = value div denom; r = value mod denom
           in Ret (q * numerator + r * numerator div denom))"

section \<open>Input and output errors\<close>

datatype io_error_kind = NotFound | InvalidInput | OtherError string

record io_error =
  io_kind :: io_error_kind
  io_message :: string

definition ignore_notfound :: "io_error + 'a \<Rightarrow> io_error + unit" where
  "ignore_notfound result =
     (case result of
        Inl err \<Rightarrow> if io_kind err = NotFound then Inr () else Inl err
      | Inr _ \<Rightarrow> Inr ())"

section \<open>C strings\<close>

definition MAX_STACK_ALLOCATION :: nat where "MAX_STACK_ALLOCATION = 384"

definition NUL_ERR :: io_error where
  "NUL_ERR = \<lparr> io_kind = InvalidInput, io_message = ''file name contained an unexpected NUL byte'' \<rparr>"

text \<open>
  \<open>CStr::from_bytes_with_nul\<close>: the slice must end in its only NUL. \<open>CString::new\<close> appends the
  NUL to bytes that hold none. A C string is its bytes, the NUL included.
\<close>

definition cstr_from_bytes_with_nul :: "u8 list \<Rightarrow> u8 list option" where
  "cstr_from_bytes_with_nul bs =
     (if bs \<noteq> [] \<and> last bs = 0 \<and> 0 \<notin> set (butlast bs) then Some bs else None)"

definition cstring_new :: "u8 list \<Rightarrow> u8 list option" where
  "cstring_new bs = (if 0 \<in> set bs then None else Some (bs @ [0]))"

text \<open>
  A stack buffer of which each byte is initialised or not; copying or writing outside it is
  undefined, and so is making a slice of bytes that are not initialised.
\<close>

definition buffer_copy :: "nat \<Rightarrow> u8 list \<Rightarrow> u8 option list \<Rightarrow> u8 option list exec" where
  "buffer_copy off bs buf =
     (if off + length bs \<le> length buf
      then Ret (take off buf @ map Some bs @ drop (off + length bs) buf) else Undefined)"

definition buffer_slice :: "nat \<Rightarrow> u8 option list \<Rightarrow> u8 list exec" where
  "buffer_slice n buf =
     (if n \<le> length buf \<and> None \<notin> set (take n buf) then Ret (map the (take n buf)) else Undefined)"

definition run_with_cstr_stack ::
  "u8 list \<Rightarrow> (u8 list \<Rightarrow> (io_error + 'a) exec) \<Rightarrow> (io_error + 'a) exec" where
  "run_with_cstr_stack bytes f =
     bind_exec (buffer_copy 0 bytes (replicate MAX_STACK_ALLOCATION None)) (\<lambda>buf1.
     bind_exec (buffer_copy (length bytes) [0] buf1) (\<lambda>buf2.
     bind_exec (buffer_slice (length bytes + 1) buf2) (\<lambda>slice.
       case cstr_from_bytes_with_nul slice of Some s \<Rightarrow> f s | None \<Rightarrow> Ret (Inl NUL_ERR))))"

definition run_with_cstr_allocating ::
  "u8 list \<Rightarrow> (u8 list \<Rightarrow> (io_error + 'a) exec) \<Rightarrow> (io_error + 'a) exec" where
  "run_with_cstr_allocating bytes f =
     (case cstring_new bytes of Some s \<Rightarrow> f s | None \<Rightarrow> Ret (Inl NUL_ERR))"

definition run_with_cstr ::
  "u8 list \<Rightarrow> (u8 list \<Rightarrow> (io_error + 'a) exec) \<Rightarrow> (io_error + 'a) exec" where
  "run_with_cstr bytes f =
     (if MAX_STACK_ALLOCATION \<le> length bytes then run_with_cstr_allocating bytes f
      else run_with_cstr_stack bytes f)"

definition run_path_with_cstr ::
  "u8 list \<Rightarrow> (u8 list \<Rightarrow> (io_error + 'a) exec) \<Rightarrow> (io_error + 'a) exec" where
  "run_path_with_cstr path f = run_with_cstr path f"

section \<open>Wide strings\<close>

text \<open>
  The iterator is its pointer: what memory holds from there on. Reading past the end of the
  memory is undefined.
\<close>

definition wstr_new :: "u16 list option \<Rightarrow> u16 list option" where
  "wstr_new lpwstr = lpwstr"

fun wstr_peek :: "u16 list \<Rightarrow> u16 option exec" where
  "wstr_peek [] = Undefined"
| "wstr_peek (w # ws) = Ret (if w = 0 then None else Some w)"

definition wstr_next :: "u16 list \<Rightarrow> (u16 option \<times> u16 list) exec" where
  "wstr_next ws =
     bind_exec (wstr_peek ws) (\<lambda>p.
       case p of None \<Rightarrow> Ret (None, ws) | Some w \<Rightarrow> Ret (Some w, tl ws))"

text \<open>\<open>advance_while\<close>; the counter is a \<open>usize\<close>.\<close>

function wstr_advance_while ::
  "(u16 \<Rightarrow> 's \<Rightarrow> bool \<times> 's) \<Rightarrow> 's \<Rightarrow> usize \<Rightarrow> u16 list \<Rightarrow> (usize \<times> u16 list \<times> 's) exec" where
  "wstr_advance_while predicate s counter ws =
     bind_exec (wstr_peek ws) (\<lambda>p.
       case p of
         None \<Rightarrow> Ret (counter, ws, s)
       | Some w \<Rightarrow>
           (case predicate w s of
              (False, s') \<Rightarrow> Ret (counter, ws, s')
            | (True, s') \<Rightarrow>
                bind_exec (wstr_next ws) (\<lambda>(_, ws').
                  wstr_advance_while predicate s' (counter + 1) ws')))"
  by pat_completeness auto
termination
proof (relation "measure (\<lambda>(predicate, s, counter, ws). length ws)", goal_cases)
  case (2 predicate s counter ws p w b s' r n ws')
  then show ?case by (cases ws) (auto simp: wstr_next_def split: if_splits)
qed simp

declare wstr_advance_while.simps [simp del]

section \<open>Addresses\<close>

text \<open>
  \<open>each_addr\<close>: the addresses are tried in order; the first success ends the loop, otherwise the
  last error is reported.
\<close>

definition NO_ADDRESSES :: io_error where
  "NO_ADDRESSES = \<lparr> io_kind = InvalidInput, io_message = ''could not resolve to any addresses'' \<rparr>"

fun try_addrs ::
  "('a \<Rightarrow> 's \<Rightarrow> (io_error + 'b) \<times> 's) \<Rightarrow> 'a list \<Rightarrow> io_error option \<Rightarrow> 's \<Rightarrow>
   (io_error + 'b) \<times> 's" where
  "try_addrs f [] last_err s =
     (case last_err of Some err \<Rightarrow> (Inl err, s) | None \<Rightarrow> (Inl NO_ADDRESSES, s))"
| "try_addrs f (addr # addrs) last_err s =
     (case f addr s of
        (Inr l, s') \<Rightarrow> (Inr l, s')
      | (Inl e, s') \<Rightarrow> try_addrs f addrs (Some e) s')"

definition each_addr ::
  "io_error + 'a list \<Rightarrow> ('a \<Rightarrow> 's \<Rightarrow> (io_error + 'b) \<times> 's) \<Rightarrow> 's \<Rightarrow> (io_error + 'b) \<times> 's" where
  "each_addr to_socket_addrs f s =
     (case to_socket_addrs of Inl e \<Rightarrow> (Inl e, s) | Inr addrs \<Rightarrow> try_addrs f addrs None s)"

text \<open>\<open>str::rsplit_once(':')\<close>.\<close>

fun rsplit_once :: "u8 \<Rightarrow> u8 list \<Rightarrow> (u8 list \<times> u8 list) option" where
  "rsplit_once c [] = None"
| "rsplit_once c (b # bs) =
     (case rsplit_once c bs of
        Some (l, r) \<Rightarrow> Some (b # l, r)
      | None \<Rightarrow> if b = c then Some ([], bs) else None)"

text \<open>
  \<open>str::parse::<u16>()\<close>: an optional plus sign, at least one decimal digit, nothing else, and a
  value below \<open>2 ^ 16\<close> (no number of leading zeros is too many).
\<close>

definition decimal_digit :: "u8 \<Rightarrow> nat option" where
  "decimal_digit b = (if 48 \<le> b \<and> b \<le> 57 then Some (unat b - 48) else None)"

fun parse_digits :: "nat \<Rightarrow> u8 list \<Rightarrow> nat option" where
  "parse_digits n [] = Some n"
| "parse_digits n (b # bs) =
     (case decimal_digit b of
        None \<Rightarrow> None
      | Some d \<Rightarrow> if 10 * n + d < 65536 then parse_digits (10 * n + d) bs else None)"

definition parse_u16 :: "u8 list \<Rightarrow> u16 option" where
  "parse_u16 bs =
     (let digits = (if bs \<noteq> [] \<and> hd bs = 43 then tl bs else bs)
      in if digits = [] then None else map_option of_nat (parse_digits 0 digits))"

definition lookup_host_string ::
  "(u8 list \<Rightarrow> u16 \<Rightarrow> (io_error + 'r) exec) \<Rightarrow> u8 list \<Rightarrow> (io_error + 'r) exec" where
  "lookup_host_string lookup_host addr =
     (case rsplit_once 58 addr of
        None \<Rightarrow> Ret (Inl \<lparr> io_kind = InvalidInput, io_message = ''invalid socket address'' \<rparr>)
      | Some (host, port_str) \<Rightarrow>
          (case parse_u16 port_str of
             None \<Rightarrow> Ret (Inl \<lparr> io_kind = InvalidInput, io_message = ''invalid port value'' \<rparr>)
           | Some port \<Rightarrow> lookup_host host port))"

text \<open>On this platform there is no resolver.\<close>

definition platform_lookup_host :: "u8 list \<Rightarrow> u16 \<Rightarrow> (io_error + 'r) exec" where
  "platform_lookup_host host port = Panic ''not implemented''"

section \<open>What the helpers compute\<close>

text \<open>
  \<open>mul_div_u64\<close> is exact whenever the numerator times the denominator and the result fit
  into 64 bits, although the value times the numerator may not.
\<close>

theorem mul_div_u64_exact:
  assumes "denom \<noteq> 0" and "unat numerator * unat denom < 2 ^ 64"
    and "unat value * unat numerator div unat denom < 2 ^ 64"
  shows "mul_div_u64 value numerator denom
    = Ret (of_nat (unat value * unat numerator div unat denom))"
proof -
  let ?v = "unat value" and ?n = "unat numerator" and ?d = "unat denom"
  have d: "0 < ?d" using assms(1) by (simp add: unat_gt_0)
  have "?v mod ?d * ?n \<le> ?d * ?n" using d by (simp add: less_imp_le)
  also have "\<dots> < 2 ^ 64" using assms(2) by (simp only: mult.commute)
  finally have r: "?v mod ?d * ?n < 2 ^ 64" .
  have split: "?v * ?n div ?d = ?v div ?d * ?n + ?v mod ?d * ?n div ?d"
  proof -
    have "?v * ?n = (?v div ?d * ?d + ?v mod ?d) * ?n" by simp
    also have "\<dots> = ?d * (?v div ?d * ?n) + ?v mod ?d * ?n" by (simp only: algebra_simps)
    finally have "?v * ?n div ?d = (?d * (?v div ?d * ?n) + ?v mod ?d * ?n) div ?d" by simp
    also have "\<dots> = ?v div ?d * ?n + ?v mod ?d * ?n div ?d"
      using d by (subst div_mult_self4) auto
    finally show ?thesis .
  qed
  have "unat (value mod denom) = ?v mod ?d" by (rule unat_mod_distrib)
  then have "unat (value mod denom * numerator) = ?v mod ?d * ?n"
    using r by (simp only: unat_word_ariths) simp
  then have "unat (value mod denom * numerator div denom) = ?v mod ?d * ?n div ?d"
    by (simp add: unat_div_distrib)
  then have "value mod denom * numerator div denom = of_nat (?v mod ?d * ?n div ?d)"
    by (metis of_nat_unat ucast_id)
  moreover have "value div denom * numerator = of_nat (?v div ?d * ?n)"
    by (metis of_nat_mult of_nat_unat ucast_id unat_div_distrib)
  ultimately show ?thesis
    using assms(1) by (simp add: mul_div_u64_def Let_def split)
qed

theorem mul_div_u64_exact_witness:
  "mul_div_u64 0x8000000000000000 1000 3000 = Ret 3074457345618258602"
  using mul_div_u64_exact[of 3000 1000 "0x8000000000000000"] by simp

lemma buffer_copied:
  assumes "length bytes < n"
  shows "bind_exec (buffer_copy 0 bytes (replicate n None)) (\<lambda>buf1.
     bind_exec (buffer_copy (length bytes) [0] buf1) (buffer_slice (length bytes + 1)))
    = Ret (bytes @ [0])"
proof -
  obtain k where n: "n = Suc (length bytes + k)" using assms by (metis less_imp_Suc_add)
  have "buffer_copy 0 bytes (replicate n None) = Ret (map Some bytes @ replicate (Suc k) None)"
    by (simp add: buffer_copy_def n del: replicate_Suc)
  moreover have "buffer_copy (length bytes) [0] (map Some bytes @ replicate (Suc k) None)
      = Ret (map Some bytes @ Some 0 # replicate k None)"
    by (simp add: buffer_copy_def)
  moreover have "buffer_slice (length bytes + 1) (map Some bytes @ Some 0 # replicate k None)
      = Ret (bytes @ [0])"
    by (auto simp: buffer_slice_def comp_def)
  ultimately show ?thesis by simp
qed

text \<open>
  Running with a C string is the same for short and long bytes: the closure gets the bytes
  followed by a NUL, and bytes that hold a NUL are rejected before it runs. The stack buffer is
  never overrun and never read where it was not written.
\<close>

theorem run_with_cstr_spec:
  "run_with_cstr bytes f = (if 0 \<in> set bytes then Ret (Inl NUL_ERR) else f (bytes @ [0]))"
proof (cases "MAX_STACK_ALLOCATION \<le> length bytes")
  case True
  then show ?thesis
    by (simp add: run_with_cstr_def run_with_cstr_allocating_def cstring_new_def)
next
  case False
  then have "run_with_cstr bytes f = bind_exec
      (bind_exec (buffer_copy 0 bytes (replicate MAX_STACK_ALLOCATION None)) (\<lambda>buf1.
         bind_exec (buffer_copy (length bytes) [0] buf1) (buffer_slice (length bytes + 1))))
      (\<lambda>slice. case cstr_from_bytes_with_nul slice of Some s \<Rightarrow> f s | None \<Rightarrow> Ret (Inl NUL_ERR))"
    by (simp add: run_with_cstr_def run_with_cstr_stack_def bind_exec_assoc)
  also have "\<dots> = (case cstr_from_bytes_with_nul (bytes @ [0]) of
      Some s \<Rightarrow> f s | None \<Rightarrow> Ret (Inl NUL_ERR))"
    using False by (subst buffer_copied) simp_all
  finally show ?thesis by (simp add: cstr_from_bytes_with_nul_def)
qed

text \<open>
  On a string that ends in a NUL, \<open>advance_while\<close> ends, stops at the first unit the
  predicate refuses or at the NUL, and returns how many units it passed; it never reads beyond
  the NUL.
\<close>

theorem wstr_advance_while_spec:
  assumes "0 \<notin> set units"
  shows "wstr_advance_while (\<lambda>w s. (P w, s)) s counter (units @ 0 # rest)
    = Ret (counter + of_nat (length (takeWhile P units)), dropWhile P units @ 0 # rest, s)"
  using assms
proof (induction units arbitrary: counter)
  case Nil
  then show ?case by (subst wstr_advance_while.simps) simp
next
  case (Cons w units)
  then show ?case
    by (subst wstr_advance_while.simps) (simp add: wstr_next_def algebra_simps)
qed

theorem wstr_advance_while_spec_witness:
  "wstr_advance_while (\<lambda>w s. (w = 32, s)) () 0 [32, 32, 65, 0, 7] = Ret (2, [65, 0, 7], ())"
  using wstr_advance_while_spec[of "[32, 32, 65]" "\<lambda>w. w = 32" "()" 0 "[7]"] by simp

text \<open>\<open>each_addr\<close> ends with the first success, or with the last error.\<close>

lemma try_addrs_first_success:
  assumes "\<And>a s. a \<in> set as \<Longrightarrow> f a s = (Inl (err a), s)" and "f b s = (Inr l, s')"
  shows "try_addrs f (as @ b # bs) e s = (Inr l, s')"
  using assms(1)
proof (induction as arbitrary: e)
  case Nil
  then show ?case using assms(2) by simp
qed simp

lemma try_addrs_all_fail:
  assumes "\<And>a s. a \<in> set as \<Longrightarrow> f a s = (Inl (err a), s)"
  shows "try_addrs f as e s = (Inl (if as \<noteq> [] then err (last as)
    else case e of Some x \<Rightarrow> x | None \<Rightarrow> NO_ADDRESSES), s)"
  using assms by (induction as arbitrary: e) (auto split: option.splits)

subsection \<open>Host and port\<close>

fun decimal :: "nat \<Rightarrow> u8 list" where
  "decimal n = (if n < 10 then [of_nat (48 + n)] else decimal (n div 10) @ [of_nat (48 + n mod 10)])"

declare decimal.simps [simp del]

lemma decimal_digit_of_nat: "d < 10 \<Longrightarrow> decimal_digit (of_nat (48 + d)) = Some d"
proof -
  assume "d < 10"
  then have "unat (of_nat (48 + d) :: u8) = 48 + d"
    by (simp only: unat_of_nat) simp
  with \<open>d < 10\<close> show ?thesis by (simp add: decimal_digit_def word_le_nat_alt)
qed

lemma parse_digits_append:
  "parse_digits n (as @ bs) = Option.bind (parse_digits n as) (\<lambda>m. parse_digits m bs)"
  by (induction as arbitrary: n) (auto split: option.splits)

lemma parse_decimal: "n < 65536 \<Longrightarrow> parse_digits 0 (decimal n) = Some n"
proof (induction n rule: decimal.induct)
  case (1 n)
  show ?case
  proof (cases "n < 10")
    case True
    with decimal_digit_of_nat[OF True] show ?thesis by (simp add: decimal.simps[of n])
  next
    case False
    have "n mod 10 < 10" "10 * (n div 10) + n mod 10 = n" by simp_all
    with 1 False decimal_digit_of_nat[of "n mod 10"] show ?thesis
      by (simp add: decimal.simps[of n] parse_digits_append)
  qed
qed

lemma decimal_bytes: "b \<in> set (decimal n) \<Longrightarrow> decimal_digit b \<noteq> None"
proof (induction n rule: decimal.induct)
  case (1 n)
  then show ?case
    using decimal_digit_of_nat[of n] decimal_digit_of_nat[of "n mod 10"]
    by (auto simp: decimal.simps[of n] split: if_splits)
qed

lemma decimal_nonempty [simp]: "decimal n \<noteq> []"
  by (simp add: decimal.simps[of n])

lemma rsplit_once_last:
  assumes "c \<notin> set r"
  shows "rsplit_once c (l @ c # r) = Some (l, r)"
proof -
  have "rsplit_once c r = None" using assms by (induction r) auto
  then show ?thesis by (induction l) auto
qed

text \<open>
  A host followed by a colon and a port in decimal is taken apart again, also when the host
  holds colons itself, and the resolver is called with exactly that host and port.
\<close>

theorem lookup_host_string_roundtrip:
  "lookup_host_string resolver (host @ 58 # decimal (unat port)) = resolver host port"
proof -
  have "unat port < 65536" using unsigned_less[of port] by simp
  note parse = parse_decimal[OF this]
  have bytes: "b \<noteq> 58 \<and> b \<noteq> 43" if "b \<in> set (decimal (unat port))" for b
    using decimal_bytes[OF that] by (auto simp: decimal_digit_def)
  then have "58 \<notin> set (decimal (unat port))" by blast
  moreover have "hd (decimal (unat port)) \<noteq> 43"
    using bytes[of "hd (decimal (unat port))"] by simp
  ultimately show ?thesis
    using parse by (simp add: lookup_host_string_def rsplit_once_last parse_u16_def)
qed

end
