(* ===== verification/Fs_Common.thy ===== *)
theory Fs_Common
  imports Helpers "HOL-Library.Sublist" "HOL-Library.List_Lexorder" "HOL-Library.Char_ord"
begin

text \<open>
  The platform-independent file operations (\<open>std/sys-src/fs/common.rs\<close>): copying, removing a
  tree, existence. The operating system underneath is a record of operations on a state, an
  argument of the model; the port itself has none yet (they are \<open>unimplemented!()\<close>).
\<close>

section \<open>The operations of the platform\<close>

datatype file_type = RegularFile | Directory | Symlink

type_synonym ('a, 's) io = "'s \<Rightarrow> (io_error + 'a) \<times> 's"

text \<open>
  A directory stream is the list of its entries when it was opened; an entry is a path or an
  error. Files are handles, permissions are left open.
\<close>

record ('p, 'h, 'perm, 's) fs_ops =
  op_symlink_metadata :: "'p \<Rightarrow> (file_type, 's) io"
  op_metadata :: "'p \<Rightarrow> (file_type, 's) io"
  op_read_dir :: "'p \<Rightarrow> ((io_error + 'p) list, 's) io"
  op_entry_type :: "'p \<Rightarrow> (file_type, 's) io"
  op_remove_file :: "'p \<Rightarrow> (unit, 's) io"
  op_remove_dir :: "'p \<Rightarrow> (unit, 's) io"
  op_open :: "'p \<Rightarrow> ('h, 's) io"
  op_create :: "'p \<Rightarrow> ('h, 's) io"
  op_file_metadata :: "'h \<Rightarrow> (file_type \<times> 'perm, 's) io"
  op_copy :: "'h \<Rightarrow> 'h \<Rightarrow> (u64, 's) io"
  op_set_permissions :: "'h \<Rightarrow> 'perm \<Rightarrow> (unit, 's) io"
  op_canonicalize :: "'p \<Rightarrow> ('p, 's) io"

definition io_bind :: "('a, 's) io \<Rightarrow> ('a \<Rightarrow> ('b, 's) io) \<Rightarrow> ('b, 's) io" where
  "io_bind m f s = (case m s of (Inl e, s') \<Rightarrow> (Inl e, s') | (Inr x, s') \<Rightarrow> f x s')"

section \<open>Copying and existence\<close>

definition NOT_FILE_ERROR :: io_error where
  "NOT_FILE_ERROR =
     \<lparr> io_kind = InvalidInput,
       io_message = ''the source path is neither a regular file nor a symlink to a regular file'' \<rparr>"

definition fs_copy :: "('p, 'h, 'perm, 's) fs_ops \<Rightarrow> 'p \<Rightarrow> 'p \<Rightarrow> (u64, 's) io" where
  "fs_copy ops src dst =
     io_bind (op_open ops src) (\<lambda>reader.
     io_bind (op_file_metadata ops reader) (\<lambda>(file_type, perm).
       if file_type \<noteq> RegularFile then (\<lambda>s. (Inl NOT_FILE_ERROR, s))
       else
         io_bind (op_create ops dst) (\<lambda>writer.
         io_bind (op_copy ops reader writer) (\<lambda>ret.
         io_bind (op_set_permissions ops writer perm) (\<lambda>_ s. (Inr ret, s))))))"

definition fs_exists :: "('p, 'h, 'perm, 's) fs_ops \<Rightarrow> 'p \<Rightarrow> (bool, 's) io" where
  "fs_exists ops path s =
     (case op_metadata ops path s of
        (Inr _, s') \<Rightarrow> (Inr True, s')
      | (Inl err, s') \<Rightarrow> if io_kind err = NotFound then (Inr False, s') else (Inl err, s'))"

section \<open>Removing a tree\<close>

text \<open>
  The body of the loop over the entries; \<open>recurse\<close> removes a subdirectory. An error other than
  \<open>NotFound\<close> ends the loop.
\<close>

definition remove_child ::
  "('p, 'h, 'perm, 's) fs_ops \<Rightarrow> ('p \<Rightarrow> 's \<Rightarrow> ((io_error + unit) \<times> 's) option) \<Rightarrow>
   io_error + 'p \<Rightarrow> 's \<Rightarrow> ((io_error + unit) \<times> 's) option" where
  "remove_child ops recurse child s =
     (case child of
        Inl e \<Rightarrow> Some (Inl e, s)
      | Inr path \<Rightarrow>
          (case op_entry_type ops path s of
             (Inl e, s1) \<Rightarrow> Some (Inl e, s1)
           | (Inr ft, s1) \<Rightarrow>
               if ft = Directory then recurse path s1 else Some (op_remove_file ops path s1)))"

fun remove_children ::
  "('p, 'h, 'perm, 's) fs_ops \<Rightarrow> ('p \<Rightarrow> 's \<Rightarrow> ((io_error + unit) \<times> 's) option) \<Rightarrow>
   (io_error + 'p) list \<Rightarrow> 's \<Rightarrow> ((io_error + unit) \<times> 's) option" where
  "remove_children ops recurse [] s = Some (Inr (), s)"
| "remove_children ops recurse (c # cs) s =
     (case remove_child ops recurse c s of
        None \<Rightarrow> None
      | Some (Inl err, s1) \<Rightarrow>
          if io_kind err \<noteq> NotFound then Some (Inl err, s1)
          else remove_children ops recurse cs s1
      | Some (Inr _, s1) \<Rightarrow> remove_children ops recurse cs s1)"

text \<open>The recursion, with the depth of the call stack as fuel; \<open>None\<close> when it runs out.\<close>

fun remove_dir_all_recursive ::
  "('p, 'h, 'perm, 's) fs_ops \<Rightarrow> nat \<Rightarrow> 'p \<Rightarrow> 's \<Rightarrow> ((io_error + unit) \<times> 's) option" where
  "remove_dir_all_recursive ops 0 path s = None"
| "remove_dir_all_recursive ops (Suc n) path s =
     (case op_read_dir ops path s of
        (Inl e, s1) \<Rightarrow> Some (Inl e, s1)
      | (Inr entries, s1) \<Rightarrow>
          (case remove_children ops (remove_dir_all_recursive ops n) entries s1 of
             None \<Rightarrow> None
           | Some (Inl err, s2) \<Rightarrow> Some (Inl err, s2)
           | Some (Inr _, s2) \<Rightarrow>
               (case op_remove_dir ops path s2 of (r, s3) \<Rightarrow> Some (ignore_notfound r, s3))))"

definition remove_dir_all ::
  "('p, 'h, 'perm, 's) fs_ops \<Rightarrow> nat \<Rightarrow> 'p \<Rightarrow> 's \<Rightarrow> ((io_error + unit) \<times> 's) option" where
  "remove_dir_all ops n path s =
     (case op_symlink_metadata ops path s of
        (Inl e, s1) \<Rightarrow> Some (Inl e, s1)
      | (Inr filetype, s1) \<Rightarrow>
          if filetype = Symlink then Some (op_remove_file ops path s1)
          else remove_dir_all_recursive ops n path s1)"

section \<open>Directory handles\<close>

record 'p dir = dir_path :: 'p

definition dir_open :: "('p, 'h, 'perm, 's) fs_ops \<Rightarrow> 'p \<Rightarrow> ('p dir, 's) io" where
  "dir_open ops path = io_bind (op_canonicalize ops path) (\<lambda>p s. (Inr \<lparr> dir_path = p \<rparr>, s))"

definition dir_open_file ::
  "('p, 'h, 'perm, 's) fs_ops \<Rightarrow> ('p \<Rightarrow> 'p \<Rightarrow> 'p) \<Rightarrow> 'p dir \<Rightarrow> 'p \<Rightarrow> ('h, 's) io" where
  "dir_open_file ops join d path = op_open ops (join (dir_path d) path)"

definition dir_metadata :: "('p, 'h, 'perm, 's) fs_ops \<Rightarrow> 'p dir \<Rightarrow> (file_type, 's) io" where
  "dir_metadata ops d = op_metadata ops (dir_path d)"

section \<open>A file tree\<close>

text \<open>
  What a file system promises: a tree of names. Paths are lists of names, the state maps the
  paths that exist to what is there.
\<close>

type_synonym tree_path = "string list"
type_synonym tree_state = "tree_path \<Rightarrow> file_type option"

definition not_found :: io_error where "not_found = \<lparr> io_kind = NotFound, io_message = '''' \<rparr>"
definition other_error :: "string \<Rightarrow> io_error" where
  "other_error m = \<lparr> io_kind = OtherError m, io_message = m \<rparr>"

definition child_names :: "tree_state \<Rightarrow> tree_path \<Rightarrow> string set" where
  "child_names s p = {n. s (p @ [n]) \<noteq> None}"

definition tree_stat :: "tree_path \<Rightarrow> (file_type, tree_state) io" where
  "tree_stat p s = (case s p of None \<Rightarrow> (Inl not_found, s) | Some ft \<Rightarrow> (Inr ft, s))"

definition tree_read_dir :: "tree_path \<Rightarrow> ((io_error + tree_path) list, tree_state) io" where
  "tree_read_dir p s =
     (case s p of
        None \<Rightarrow> (Inl not_found, s)
      | Some Directory \<Rightarrow>
          (Inr (map (\<lambda>n. Inr (p @ [n])) (sorted_list_of_set (child_names s p))), s)
      | Some _ \<Rightarrow> (Inl (other_error ''not a directory''), s))"

definition tree_remove_file :: "tree_path \<Rightarrow> (unit, tree_state) io" where
  "tree_remove_file p s =
     (case s p of
        None \<Rightarrow> (Inl not_found, s)
      | Some Directory \<Rightarrow> (Inl (other_error ''is a directory''), s)
      | Some _ \<Rightarrow> (Inr (), s(p := None)))"

definition tree_remove_dir :: "tree_path \<Rightarrow> (unit, tree_state) io" where
  "tree_remove_dir p s =
     (case s p of
        None \<Rightarrow> (Inl not_found, s)
      | Some Directory \<Rightarrow>
          if child_names s p = {} then (Inr (), s(p := None))
          else (Inl (other_error ''directory not empty''), s)
      | Some _ \<Rightarrow> (Inl (other_error ''not a directory''), s))"

definition tree_ops :: "(tree_path, unit, unit, tree_state) fs_ops" where
  "tree_ops =
     \<lparr> op_symlink_metadata = tree_stat, op_metadata = tree_stat, op_read_dir = tree_read_dir,
       op_entry_type = tree_stat, op_remove_file = tree_remove_file,
       op_remove_dir = tree_remove_dir,
       op_open = (\<lambda>_ s. (Inl not_found, s)), op_create = (\<lambda>_ s. (Inl not_found, s)),
       op_file_metadata = (\<lambda>_ s. (Inl not_found, s)), op_copy = (\<lambda>_ _ s. (Inl not_found, s)),
       op_set_permissions = (\<lambda>_ _ s. (Inl not_found, s)), op_canonicalize = (\<lambda>p s. (Inr p, s)) \<rparr>"

lemma tree_ops_simps [simp]:
  "op_symlink_metadata tree_ops = tree_stat" "op_entry_type tree_ops = tree_stat"
  "op_metadata tree_ops = tree_stat" "op_read_dir tree_ops = tree_read_dir"
  "op_remove_file tree_ops = tree_remove_file" "op_remove_dir tree_ops = tree_remove_dir"
  by (simp_all add: tree_ops_def)

text \<open>Everything that exists lies in a directory, and only finitely much exists.\<close>

definition tree_ok :: "tree_state \<Rightarrow> bool" where
  "tree_ok s \<longleftrightarrow> finite (dom s) \<and> (\<forall>p n. s (p @ [n]) \<noteq> None \<longrightarrow> s p = Some Directory)"

text \<open>The specification: everything below a path is gone, everything else is as it was.\<close>

definition prune :: "tree_path \<Rightarrow> tree_state \<Rightarrow> tree_state" where
  "prune p s = (\<lambda>q. if prefix p q then None else s q)"

lemma tree_ok_finite_children: "tree_ok s \<Longrightarrow> finite (child_names s p)"
proof -
  assume "tree_ok s"
  then have "finite (dom s)" by (simp add: tree_ok_def)
  moreover have "(\<lambda>n. p @ [n]) ` child_names s p \<subseteq> dom s" by (auto simp: child_names_def)
  ultimately show ?thesis
    by (metis (no_types, lifting) append1_eq_conv finite_imageD finite_subset inj_onI)
qed

lemma tree_ok_prefix: "tree_ok s \<Longrightarrow> s (p @ q) \<noteq> None \<Longrightarrow> q \<noteq> [] \<Longrightarrow> s p = Some Directory"
proof (induction q rule: rev_induct)
  case (snoc n q)
  have "s ((p @ q) @ [n]) \<noteq> None" using snoc.prems(2) by simp
  then have "s (p @ q) = Some Directory" using snoc.prems(1) unfolding tree_ok_def by blast
  with snoc show ?case by (cases q) auto
qed simp

lemma tree_ok_prune: "tree_ok s \<Longrightarrow> tree_ok (prune p s)"
proof -
  assume ok: "tree_ok s"
  have "dom (prune p s) \<subseteq> dom s" by (auto simp: prune_def split: if_splits)
  with ok have "finite (dom (prune p s))" by (auto simp: tree_ok_def intro: finite_subset)
  moreover have "prune p s q = Some Directory" if "prune p s (q @ [n]) \<noteq> None" for q n
    using ok that by (auto simp: prune_def tree_ok_def split: if_splits)
  ultimately show ?thesis by (simp add: tree_ok_def)
qed

lemma prune_leaf:
  assumes "tree_ok s" and "s p \<noteq> Some Directory"
  shows "prune p s = s(p := None)"
proof -
  have "s q = None" if "prefix p q" "q \<noteq> p" for q
    using that tree_ok_prefix[OF assms(1)] assms(2) unfolding prefix_def by (metis append_Nil2)
  then show ?thesis by (auto simp: prune_def fun_eq_iff)
qed

section \<open>The tree is removed\<close>

text \<open>The state after some of the children of a directory are gone.\<close>

definition prune_children :: "tree_path \<Rightarrow> string list \<Rightarrow> tree_state \<Rightarrow> tree_state" where
  "prune_children p ns s = (\<lambda>q. if \<exists>n \<in> set ns. prefix (p @ [n]) q then None else s q)"

lemma prune_children_simps:
  "prune_children p [] s = s"
  "prune_children p (n # ns) s = prune_children p ns (prune (p @ [n]) s)"
  by (auto simp: prune_children_def prune_def fun_eq_iff)

lemma remove_children_prunes:
  assumes rec: "\<And>n s. n \<in> set ns \<Longrightarrow> tree_ok s \<Longrightarrow> s (p @ [n]) = Some Directory \<Longrightarrow>
      (\<forall>q. s (p @ n # q) \<noteq> None \<longrightarrow> length q < k) \<Longrightarrow>
      recurse (p @ [n]) s = Some (Inr (), prune (p @ [n]) s)"
    and "tree_ok s" and "distinct ns" and "\<forall>n \<in> set ns. s (p @ [n]) \<noteq> None"
    and "\<forall>n q. s (p @ n # q) \<noteq> None \<longrightarrow> length q < k"
  shows "remove_children tree_ops recurse (map (\<lambda>n. Inr (p @ [n])) ns) s
    = Some (Inr (), prune_children p ns s)"
  using assms
proof (induction ns arbitrary: s)
  case Nil
  then show ?case by (simp add: prune_children_simps)
next
  case (Cons n ns)
  let ?s1 = "prune (p @ [n]) s"
  have child: "remove_child tree_ops recurse (Inr (p @ [n])) s = Some (Inr (), ?s1)"
  proof (cases "s (p @ [n])")
    case None
    with Cons.prems(4) show ?thesis by simp
  next
    case (Some ft)
    show ?thesis
    proof (cases "ft = Directory")
      case True
      with Some Cons.prems(1)[of n s] Cons.prems(2,5) show ?thesis
        by (simp add: remove_child_def tree_stat_def)
    next
      case False
      then have "?s1 = s(p @ [n] := None)"
        using Some by (intro prune_leaf[OF Cons.prems(2)]) auto
      with Some False show ?thesis
        by (cases ft) (simp_all add: remove_child_def tree_stat_def tree_remove_file_def)
    qed
  qed
  have n: "n \<notin> set ns" "distinct ns" using Cons.prems(3) by auto
  have "remove_children tree_ops recurse (map (\<lambda>n. Inr (p @ [n])) ns) ?s1
      = Some (Inr (), prune_children p ns ?s1)"
  proof (rule Cons.IH)
    show "\<forall>m \<in> set ns. ?s1 (p @ [m]) \<noteq> None"
      using Cons.prems(4) n(1) by (auto simp: prune_def)
    show "\<forall>m q. ?s1 (p @ m # q) \<noteq> None \<longrightarrow> length q < k"
      using Cons.prems(5) by (auto simp: prune_def)
  qed (use Cons.prems(1,2) n tree_ok_prune in auto)
  with child show ?case by (simp add: prune_children_simps)
qed

lemma prune_all_children:
  assumes ok: "tree_ok s" and dir: "s p = Some Directory" and ns: "set ns = child_names s p"
  shows "(prune_children p ns s)(p := None) = prune p s"
    and "prune_children p ns s p = Some Directory"
    and "child_names (prune_children p ns s) p = {}"
proof -
  have below: "\<exists>n \<in> set ns. prefix (p @ [n]) (p @ n' # q)" if "s (p @ n' # q) \<noteq> None" for n' q
  proof -
    have "s (p @ [n']) \<noteq> None"
    proof (cases q)
      case (Cons a q')
      with tree_ok_prefix[OF ok, of "p @ [n']" q] that show ?thesis by simp
    qed (use that in simp)
    then have "n' \<in> set ns" using ns by (simp add: child_names_def)
    then show ?thesis by auto
  qed
  show "(prune_children p ns s)(p := None) = prune p s"
  proof
    fix q
    show "((prune_children p ns s)(p := None)) q = prune p s q"
    proof (cases "prefix p q \<and> q \<noteq> p")
      case True
      then obtain n' r where q: "q = p @ n' # r" by (metis append_Nil2 list.exhaust prefix_def)
      with below[of n' r] show ?thesis
        by (cases "s q") (auto simp: prune_children_def prune_def)
    next
      case False
      then have "\<not> prefix (p @ [n]) q" for n
        by (metis append_prefixD not_Cons_self2 prefix_length_le prefix_order.antisym same_append_eq
            append.right_neutral prefix_snoc)
      with False show ?thesis by (auto simp: prune_children_def prune_def)
    qed
  qed
  show "prune_children p ns s p = Some Directory"
    using dir by (auto simp: prune_children_def)
  show "child_names (prune_children p ns s) p = {}"
  proof -
    have "prune_children p ns s (p @ [n]) = None" for n
      using below[of n "[]"] by (cases "s (p @ [n])") (auto simp: prune_children_def)
    then show ?thesis by (simp add: child_names_def)
  qed
qed

lemma remove_dir_all_recursive_prunes:
  "tree_ok s \<Longrightarrow> s p = Some Directory \<Longrightarrow> (\<forall>q. s (p @ q) \<noteq> None \<longrightarrow> length q < n) \<Longrightarrow>
   remove_dir_all_recursive tree_ops n p s = Some (Inr (), prune p s)"
proof (induction n arbitrary: p s)
  case 0
  then show ?case by (metis append.right_neutral less_nat_zero_code option.distinct(1))
next
  case (Suc n)
  define ns where "ns = sorted_list_of_set (child_names s p)"
  have ns: "set ns = child_names s p" "distinct ns"
    using tree_ok_finite_children[OF Suc.prems(1), of p] by (simp_all add: ns_def)
  have depth: "length q < n" if "s (p @ m # q) \<noteq> None" for m q
    using Suc.prems(3) that by (metis Suc_less_eq length_Cons)
  have "remove_children tree_ops (remove_dir_all_recursive tree_ops n) (map (\<lambda>m. Inr (p @ [m])) ns) s
      = Some (Inr (), prune_children p ns s)"
  proof (rule remove_children_prunes[where k = n])
    fix m t assume "tree_ok t" "t (p @ [m]) = Some Directory"
      and "\<forall>q. t (p @ m # q) \<noteq> None \<longrightarrow> length q < n"
    then show "remove_dir_all_recursive tree_ops n (p @ [m]) t = Some (Inr (), prune (p @ [m]) t)"
      by (intro Suc.IH) auto
  qed (use Suc.prems(1) ns depth in \<open>auto simp: child_names_def\<close>)
  moreover note prune_all_children[OF Suc.prems(1,2) ns(1)]
  ultimately show ?case
    using Suc.prems(2)
    by (simp add: tree_read_dir_def tree_remove_dir_def ignore_notfound_def
        flip: ns_def)
qed

text \<open>
  C15: on a file tree, \<open>remove_dir_all\<close> of a directory ends and removes exactly the directory and
  everything below it; of a symbolic link it removes the link alone and does not follow it; of a
  path that does not exist it reports that and changes nothing. A call depth above the depth of
  the tree is enough.
\<close>

theorem remove_dir_all_removes_tree:
  assumes "tree_ok s" and "\<forall>q. s (p @ q) \<noteq> None \<longrightarrow> length q < n"
  shows "(s p = Some Directory \<longrightarrow> remove_dir_all tree_ops n p s = Some (Inr (), prune p s))
    \<and> (s p = Some Symlink \<longrightarrow> remove_dir_all tree_ops n p s = Some (Inr (), s(p := None)))
    \<and> (s p = None \<longrightarrow> remove_dir_all tree_ops n p s = Some (Inl not_found, s))"
  using remove_dir_all_recursive_prunes[OF assms(1) _ assms(2)]
  by (auto simp: remove_dir_all_def tree_stat_def tree_remove_file_def)

definition example_tree :: tree_state where
  "example_tree = [[] \<mapsto> Directory, [''a''] \<mapsto> Directory, [''a'', ''f''] \<mapsto> RegularFile,
     [''a'', ''l''] \<mapsto> Symlink, [''b''] \<mapsto> RegularFile]"

theorem remove_dir_all_removes_tree_witness:
  "remove_dir_all tree_ops 2 [''a''] example_tree = Some (Inr (), prune [''a''] example_tree)
   \<and> prune [''a''] example_tree [''b''] = Some RegularFile
   \<and> prune [''a''] example_tree [''a'', ''l''] = None"
proof -
  have "tree_ok example_tree"
    unfolding tree_ok_def
  proof (intro conjI allI impI)
    show "finite (dom example_tree)" by (simp add: example_tree_def)
    fix p n assume "example_tree (p @ [n]) \<noteq> None"
    then have "p = [] \<or> p = [''a'']"
      by (cases p) (auto simp: example_tree_def Cons_eq_append_conv split: if_splits)
    then show "example_tree p = Some Directory" by (auto simp: example_tree_def)
  qed
  moreover have "\<forall>q. example_tree ([''a''] @ q) \<noteq> None \<longrightarrow> length q < 2"
    by (auto simp: example_tree_def)
  ultimately have "remove_dir_all tree_ops 2 [''a''] example_tree
      = Some (Inr (), prune [''a''] example_tree)"
    using remove_dir_all_removes_tree[of example_tree "[''a'']" 2] by (simp add: example_tree_def)
  then show ?thesis by (simp add: prune_def example_tree_def)
qed

end
