(* ===== verification/Std_Path.thy ===== *)
theory Std_Path
  imports Helpers "HOL-Library.Sublist"
begin

text \<open>
  Paths of the standard library port (\<open>std/sys-src/path\<close>, \<open>std/sys-src/paths\<close>): a path is a
  byte string, read as a list of components. The first part is the path type of the standard
  library as far as the sources use it, for a platform without path prefixes; then come
  \<open>absolute\<close> and \<open>is_absolute\<close>.
\<close>

section \<open>Separators\<close>

definition is_sep_byte :: "u8 \<Rightarrow> bool" where "is_sep_byte b \<longleftrightarrow> b = 47"
definition is_verbatim_sep :: "u8 \<Rightarrow> bool" where "is_verbatim_sep b \<longleftrightarrow> is_sep_byte b"
definition HAS_PREFIXES :: bool where "HAS_PREFIXES \<longleftrightarrow> False"
definition parse_prefix :: "u8 list \<Rightarrow> u8 list option" where "parse_prefix p = None"

section \<open>Components\<close>

type_synonym path = "u8 list"

datatype component = RootDir | CurDir | ParentDir | Normal path

fun component_bytes :: "component \<Rightarrow> path" where
  "component_bytes RootDir = [47]"
| "component_bytes CurDir = [46]"
| "component_bytes ParentDir = [46, 46]"
| "component_bytes (Normal n) = n"

definition first_piece :: "path \<Rightarrow> path" where
  "first_piece p = takeWhile (\<lambda>b. \<not> is_sep_byte b) p"

definition after_piece :: "path \<Rightarrow> path" where
  "after_piece p = drop 1 (dropWhile (\<lambda>b. \<not> is_sep_byte b) p)"

text \<open>A piece between separators; empty pieces and single dots are not components.\<close>

definition parse_single :: "path \<Rightarrow> component option" where
  "parse_single s =
     (if s = [] \<or> s = [46] then None else if s = [46, 46] then Some ParentDir else Some (Normal s))"

lemma length_after_piece: "p \<noteq> [] \<Longrightarrow> length (after_piece p) < length p"
  using length_dropWhile_le[of "\<lambda>b. \<not> is_sep_byte b" "tl p"]
  by (cases p) (auto simp: after_piece_def)

function body_components :: "path \<Rightarrow> component list" where
  "body_components p =
     (if p = [] then []
      else (case parse_single (first_piece p) of None \<Rightarrow> [] | Some c \<Rightarrow> [c])
           @ body_components (after_piece p))"
  by auto
termination by (relation "measure length") (auto simp: length_after_piece)

declare body_components.simps [simp del]

definition has_root :: "path \<Rightarrow> bool" where
  "has_root p \<longleftrightarrow> p \<noteq> [] \<and> is_sep_byte (hd p)"

definition include_cur_dir :: "path \<Rightarrow> bool" where
  "include_cur_dir p \<longleftrightarrow> \<not> has_root p \<and> p \<noteq> [] \<and> first_piece p = [46]"

definition components :: "path \<Rightarrow> component list" where
  "components p =
     (if has_root p then [RootDir] else if include_cur_dir p then [CurDir] else []) @ body_components p"

section \<open>Stripping a prefix\<close>

function trim_left :: "path \<Rightarrow> path" where
  "trim_left p =
     (if p = [] then []
      else if parse_single (first_piece p) = None then trim_left (after_piece p) else p)"
  by auto
termination by (relation "measure length") (auto simp: length_after_piece)

declare trim_left.simps [simp del]

text \<open>The same from the end; the first \<open>keep\<close> bytes are not looked at.\<close>

definition last_piece :: "path \<Rightarrow> path" where
  "last_piece p = rev (first_piece (rev p))"

definition before_piece :: "path \<Rightarrow> path" where
  "before_piece p = rev (after_piece (rev p))"

function trim_right :: "path \<Rightarrow> path" where
  "trim_right p =
     (if p = [] then []
      else if parse_single (last_piece p) = None then trim_right (before_piece p) else p)"
  by auto
termination
proof (relation "measure length")
  fix p :: path
  assume "p \<noteq> []"
  then show "(before_piece p, p) \<in> measure length"
    using length_after_piece[of "rev p"] by (simp add: before_piece_def)
qed simp

declare trim_right.simps [simp del]

text \<open>What is left after \<open>n\<close> components of the body.\<close>

function skip_body :: "nat \<Rightarrow> path \<Rightarrow> path" where
  "skip_body n p =
     (if n = 0 \<or> p = [] then p
      else skip_body (if parse_single (first_piece p) = None then n else n - 1) (after_piece p))"
  by auto
termination by (relation "measure (\<lambda>(n, p). length p)") (auto simp: length_after_piece)

declare skip_body.simps [simp del]

text \<open>\<open>Components::as_path\<close> after \<open>n\<close> components were taken from the front.\<close>

definition path_after :: "nat \<Rightarrow> path \<Rightarrow> path" where
  "path_after n p =
     (let k = (if has_root p \<or> include_cur_dir p then 1 else 0) in
      if n = 0 then take k p @ trim_right (drop k p)
      else trim_right (trim_left (skip_body (n - k) (drop k p))))"

definition strip_prefix :: "path \<Rightarrow> path \<Rightarrow> path option" where
  "strip_prefix p base =
     (if prefix (components base) (components p)
      then Some (path_after (length (components base)) p) else None)"

section \<open>Absolute paths\<close>

text \<open>The first argument is the configuration: whether the target is one of the Unix-like ones.\<close>

definition is_absolute :: "bool \<Rightarrow> path \<Rightarrow> bool" where
  "is_absolute unix_like p = (if unix_like then has_root p else has_root p \<and> parse_prefix p \<noteq> None)"

definition path_push :: "bool \<Rightarrow> path \<Rightarrow> path \<Rightarrow> path" where
  "path_push unix_like b p =
     (let need_sep = b \<noteq> [] \<and> \<not> is_sep_byte (last b) in
      (if is_absolute unix_like p \<or> parse_prefix p \<noteq> None then []
       else if has_root p then []
       else if need_sep then b @ [47] else b) @ p)"

definition path_extend :: "bool \<Rightarrow> component list \<Rightarrow> path \<Rightarrow> path" where
  "path_extend unix_like cs b = foldl (\<lambda>b c. path_push unix_like b (component_bytes c)) b cs"

definition getcwd :: "(io_error + path) exec" where
  "getcwd = Panic ''not implemented''"

definition path_absolute ::
  "bool \<Rightarrow> (io_error + path) exec \<Rightarrow> path \<Rightarrow> (io_error + path) exec"
where
  "path_absolute unix_like current_dir p =
     (let cs = components (case strip_prefix p [46] of Some q \<Rightarrow> q | None \<Rightarrow> p);
          finish = (\<lambda>cs b. let b' = path_extend unix_like cs b in
             Inr (if p \<noteq> [] \<and> is_sep_byte (last p) then path_push unix_like b' [] else b'))
      in if is_absolute unix_like p
         then (if prefix [47, 47] p \<and> \<not> prefix [47, 47, 47] p
               then Ret (finish (drop 1 cs) [47, 47])
               else Ret (finish cs []))
         else bind_exec current_dir (\<lambda>r.
           Ret (case r of Inl e \<Rightarrow> Inl e | Inr cwd \<Rightarrow> finish cs cwd)))"

section \<open>Pieces\<close>

definition sep_free :: "path \<Rightarrow> bool" where
  "sep_free s \<longleftrightarrow> (\<forall>b\<in>set s. \<not> is_sep_byte b)"

lemma sep_47 [simp]: "is_sep_byte 47"
  by (simp add: is_sep_byte_def)

lemma first_piece_free [simp]: "sep_free (first_piece p)"
  by (auto simp: sep_free_def first_piece_def dest: set_takeWhileD)

lemma pieces_free [simp]:
  assumes "sep_free s" shows "first_piece s = s" "after_piece s = []"
  using assms by (auto simp: sep_free_def first_piece_def after_piece_def takeWhile_eq_all_conv dropWhile_eq_Nil_conv[THEN iffD2])

lemma pieces_join [simp]:
  assumes "sep_free s" shows "first_piece (s @ 47 # q) = s" "after_piece (s @ 47 # q) = q"
  using assms by (auto simp: sep_free_def first_piece_def after_piece_def takeWhile_append2 dropWhile_append2)

lemma piece_cases:
  obtains "sep_free p" | s q where "p = s @ 47 # q" "sep_free s"
proof (cases "sep_free p")
  case False
  then obtain b where "b \<in> set p" "b = 47" by (auto simp: sep_free_def is_sep_byte_def)
  then obtain s q where "p = s @ 47 # q" "47 \<notin> set s" using split_list_first by metis
  then show ?thesis using that(2)[of s q] by (auto simp: sep_free_def is_sep_byte_def)
qed

lemma parse_Nil [simp]: "parse_single [] = None" and parse_dot [simp]: "parse_single [46] = None"
  by (simp_all add: parse_single_def)

lemma body_Nil [simp]: "body_components [] = []"
  by (simp add: body_components.simps)

lemma body_free: "sep_free s \<Longrightarrow> body_components s = (case parse_single s of None \<Rightarrow> [] | Some c \<Rightarrow> [c])"
  by (cases "s = []") (simp_all add: body_components.simps[of s])

lemma body_piece:
  "sep_free s \<Longrightarrow> body_components (s @ 47 # q) = body_components s @ body_components q"
  by (simp add: body_components.simps[of "s @ 47 # q"] body_free)

lemma body_join: "body_components (p @ 47 # q) = body_components p @ body_components q"
proof (induction "length p" arbitrary: p rule: less_induct)
  case less
  show ?case
  proof (cases p rule: piece_cases)
    case (2 s r)
    then show ?thesis using less[of r] body_piece[of s "r @ 47 # q"] body_piece[of s r] by simp
  qed (simp add: body_piece)
qed

section \<open>Trimming\<close>

lemma body_trim_left: "body_components (trim_left p) = body_components p"
proof (induction p rule: trim_left.induct)
  case (1 p)
  then show ?case by (cases "p = []") (auto simp: trim_left.simps[of p] trim_left.simps[of "[]"] body_components.simps[of p])
qed

lemma trim_left_first: "trim_left p \<noteq> [] \<Longrightarrow> parse_single (first_piece (trim_left p)) \<noteq> None"
proof (induction p rule: trim_left.induct)
  case (1 p)
  then show ?case by (subst trim_left.simps, subst (asm) (2) trim_left.simps) (auto split: if_splits)
qed

lemma last_piece_split: "p = last_piece p \<and> before_piece p = [] \<or> p = before_piece p @ 47 # last_piece p"
proof (cases "rev p" rule: piece_cases)
  case 1
  then show ?thesis by (simp add: last_piece_def before_piece_def)
next
  case (2 s q)
  then show ?thesis by (simp add: last_piece_def before_piece_def rev_swap)
qed

lemma last_piece_free: "sep_free (last_piece p)"
  using first_piece_free[of "rev p"] by (simp add: last_piece_def sep_free_def)

lemma trim_right_spec: "body_components (trim_right p) = body_components p \<and> prefix (trim_right p) p"
proof (induction p rule: trim_right.induct)
  case (1 p)
  show ?case
  proof (cases "p \<noteq> [] \<and> parse_single (last_piece p) = None")
    case True
    then have none: "body_components (last_piece p) = []"
      using body_free[OF last_piece_free[of p]] by simp
    have eq: "trim_right p = trim_right (before_piece p)"
      using True by (simp add: trim_right.simps[of p])
    have IH: "body_components (trim_right (before_piece p)) = body_components (before_piece p)"
      "prefix (trim_right (before_piece p)) (before_piece p)"
      using 1 True by auto
    from last_piece_split[of p] show ?thesis
    proof
      assume "p = last_piece p \<and> before_piece p = []"
      then show ?thesis using none eq by (simp add: trim_right.simps[of "[]"])
    next
      assume p: "p = before_piece p @ 47 # last_piece p"
      then have "body_components p = body_components (before_piece p)"
        using none body_join[of "before_piece p" "last_piece p"] by simp
      moreover have "prefix (before_piece p) p"
        using p by (metis prefixI)
      ultimately show ?thesis using IH eq prefix_order.trans by auto
    qed
  next
    case False
    then have "trim_right p = p" by (auto simp: trim_right.simps[of p])
    then show ?thesis by simp
  qed
qed

lemma trim_right_last: "trim_right p \<noteq> [] \<Longrightarrow> parse_single (last_piece (trim_right p)) \<noteq> None"
proof (induction p rule: trim_right.induct)
  case (1 p)
  then show ?case by (subst trim_right.simps, subst (asm) (2) trim_right.simps) (auto split: if_splits)
qed

lemma not_root_first: "p \<noteq> [] \<Longrightarrow> parse_single (first_piece p) \<noteq> None \<Longrightarrow> \<not> has_root p \<and> \<not> include_cur_dir p"
  by (cases p) (auto simp: has_root_def include_cur_dir_def first_piece_def)

lemma trimmed_not_rooted:
  assumes "r \<noteq> []" "\<not> has_root (r @ t)" "\<not> include_cur_dir (r @ t)"
    "parse_single (last_piece r) \<noteq> None"
  shows "\<not> has_root r \<and> \<not> include_cur_dir r"
proof -
  have root: "\<not> has_root r"
    using assms(1,2) by (simp add: has_root_def)
  show ?thesis
  proof (cases r rule: piece_cases)
    case 1
    then have "last_piece r = r" "first_piece r = r"
      using pieces_free(1)[of "rev r"] by (simp_all add: last_piece_def sep_free_def)
    with assms(4) have "first_piece r \<noteq> [46]" by auto
    with root show ?thesis by (simp add: include_cur_dir_def)
  next
    case (2 s v)
    with assms root show ?thesis by (simp add: include_cur_dir_def)
  qed
qed

text \<open>What is left after a prefix was stripped is read as the rest of the body.\<close>

lemma components_trimmed: "components (trim_right (trim_left p)) = body_components p"
proof -
  have body: "body_components (trim_right (trim_left p)) = body_components p"
    using trim_right_spec[of "trim_left p"] body_trim_left[of p] by simp
  have "\<not> has_root r \<and> \<not> include_cur_dir r" if r: "r = trim_right (trim_left p)" "r \<noteq> []" for r
  proof -
    obtain t where q: "trim_left p = r @ t" using trim_right_spec[of "trim_left p"] r by (auto simp: prefix_def)
    with r(2) have "\<not> has_root (r @ t) \<and> \<not> include_cur_dir (r @ t)"
      using not_root_first[of "r @ t"] trim_left_first[of p] by auto
    with r trim_right_last[of "trim_left p"] show ?thesis
      by (intro trimmed_not_rooted) auto
  qed
  with body show ?thesis by (auto simp: components_def has_root_def include_cur_dir_def)
qed

section \<open>Pushing components\<close>

text \<open>The components a body has, and the bytes they are written with.\<close>

definition body_ok :: "component \<Rightarrow> bool" where
  "body_ok c \<longleftrightarrow> sep_free (component_bytes c) \<and> parse_single (component_bytes c) = Some c"

lemma parse_single_ok: "sep_free s \<Longrightarrow> parse_single s = Some c \<Longrightarrow> body_ok c \<and> component_bytes c = s"
  by (auto simp: parse_single_def body_ok_def split: if_splits)

lemma body_components_ok: "c \<in> set (body_components p) \<Longrightarrow> body_ok c"
proof (induction p rule: body_components.induct)
  case (1 p)
  then show ?case
    using parse_single_ok[OF first_piece_free[of p]]
    by (subst (asm) (2) body_components.simps) (auto split: if_splits option.splits)
qed

definition root_part :: "path \<Rightarrow> component list" where
  "root_part p = (if has_root p then [RootDir] else if include_cur_dir p then [CurDir] else [])"

lemma components_parts: "components p = root_part p @ body_components p"
  by (simp add: components_def root_part_def)

definition need_sep :: "path \<Rightarrow> bool" where
  "need_sep b \<longleftrightarrow> b \<noteq> [] \<and> \<not> is_sep_byte (last b)"

lemma path_push_relative:
  "\<not> has_root t \<Longrightarrow> path_push u b t = (if need_sep b then b @ 47 # t else b @ t)"
  by (simp add: path_push_def is_absolute_def parse_prefix_def need_sep_def Let_def)

lemma first_piece_sep: "first_piece (p @ 47 # t) = first_piece p"
  by (cases p rule: piece_cases) auto

lemma root_part_join: "p \<noteq> [] \<Longrightarrow> root_part (p @ 47 # t) = root_part p"
  by (simp add: root_part_def has_root_def include_cur_dir_def first_piece_sep)

lemma ends_with_sep:
  assumes "b \<noteq> []" "\<not> need_sep b" obtains b' where "b = b' @ [47]"
  using assms by (metis append_butlast_last_id is_sep_byte_def need_sep_def)

lemma push_body:
  assumes "sep_free t" "t \<noteq> [46] \<or> b \<noteq> []"
  shows "body_components (path_push u b t) = body_components b @ body_components t
    \<and> root_part (path_push u b t) = root_part b"
proof -
  have nr: "\<not> has_root t" using assms(1) by (cases t) (auto simp: has_root_def sep_free_def)
  consider "b = []" | "need_sep b" | b' where "b = b' @ [47]" "\<not> need_sep b"
    by (metis ends_with_sep)
  then show ?thesis
  proof cases
    case 1
    then show ?thesis
      using assms nr by (simp add: path_push_relative need_sep_def root_part_def include_cur_dir_def has_root_def)
  next
    case 2
    then show ?thesis
      using nr body_join[of b t] root_part_join[of b t]
      by (simp add: path_push_relative) (simp add: need_sep_def)
  next
    case (3 b')
    show ?thesis
    proof (cases "b' = []")
      case True
      with 3 nr show ?thesis
        using body_join[of "[]" t] body_join[of "[]" "[]"]
        by (simp add: path_push_relative root_part_def has_root_def)
    next
      case False
      with 3 nr show ?thesis
        using body_join[of b' t] body_join[of b' "[]"] root_part_join[of b' t] root_part_join[of b' "[]"]
        by (simp add: path_push_relative)
    qed
  qed
qed

lemma extend_body:
  "\<forall>c\<in>set cs. body_ok c \<Longrightarrow>
   components (path_extend u cs b) = components b @ cs"
proof (induction cs arbitrary: b)
  case (Cons c cs)
  then have c: "sep_free (component_bytes c)" "parse_single (component_bytes c) = Some c"
    by (auto simp: body_ok_def)
  moreover have "component_bytes c \<noteq> [46]" using c(2) by auto
  ultimately have "components (path_push u b (component_bytes c)) = components b @ [c]"
    using push_body[OF c(1), of b u] by (simp add: components_parts body_free)
  with Cons show ?case by (simp add: path_extend_def)
qed (simp add: path_extend_def)

lemma push_empty:
  "components (path_push u b []) = components b
   \<and> (path_push u b [] \<noteq> [] \<longrightarrow> is_sep_byte (last (path_push u b [])))"
  using push_body[of "[]" b u]
  by (auto simp: components_parts sep_free_def path_push_relative has_root_def need_sep_def)

section \<open>\<open>absolute\<close>\<close>

lemma body_components_Cons:
  "body_components (b # bs) =
     (case parse_single (first_piece (b # bs)) of None \<Rightarrow> [] | Some c \<Rightarrow> [c])
     @ body_components (after_piece (b # bs))"
  by (simp add: body_components.simps[of "b # bs"])

lemma components_dot: "components [46] = [CurDir]"
  by (simp add: components_def has_root_def include_cur_dir_def sep_free_def is_sep_byte_def body_free)

lemma starts_with_dot: "prefix [CurDir] (components p) \<longleftrightarrow> include_cur_dir p"
  using body_components_ok[of CurDir p]
  by (cases "body_components p") (auto simp: components_def include_cur_dir_def body_ok_def)

lemma body_after_dot: "include_cur_dir p \<Longrightarrow> body_components (drop 1 p) = body_components p"
proof (cases p rule: piece_cases)
  case 1
  moreover assume "include_cur_dir p"
  ultimately show ?thesis by (simp add: include_cur_dir_def body_free)
next
  case (2 s q)
  moreover assume "include_cur_dir p"
  ultimately show ?thesis
    using body_piece[of s q] body_join[of "[]" q] by (simp add: include_cur_dir_def body_free sep_free_def)
qed

text \<open>Stripping the leading dot leaves the body.\<close>

lemma components_without_dot:
  "components (case strip_prefix p [46] of Some q \<Rightarrow> q | None \<Rightarrow> p)
     = (if has_root p then [RootDir] else []) @ body_components p"
proof (cases "include_cur_dir p")
  case True
  then have "strip_prefix p [46] = Some (trim_right (trim_left (drop 1 p)))"
    by (simp add: strip_prefix_def components_dot starts_with_dot path_after_def skip_body.simps)
  moreover have "\<not> has_root p" using True by (simp add: include_cur_dir_def)
  ultimately show ?thesis using True by (simp add: components_trimmed body_after_dot[unfolded One_nat_def])
next
  case False
  then show ?thesis by (simp add: strip_prefix_def components_dot starts_with_dot) (simp add: components_def)
qed

lemma path_extend_root:
  "path_extend u (RootDir # cs) b = path_extend u cs [47]"
  by (simp add: path_extend_def path_push_def has_root_def is_absolute_def Let_def)

lemma components_slash: "components [47] = [RootDir]" "components [47, 47] = [RootDir]"
  using body_join[of "[]" "[]"] body_join[of "[]" "[47]"]
  by (simp_all add: components_def has_root_def)

definition absolute_finish :: "bool \<Rightarrow> path \<Rightarrow> component list \<Rightarrow> path \<Rightarrow> path" where
  "absolute_finish u p cs b =
     (let b' = path_extend u cs b in if p \<noteq> [] \<and> is_sep_byte (last p) then path_push u b' [] else b')"

lemma absolute_finish_last:
  "p \<noteq> [] \<Longrightarrow> is_sep_byte (last p) \<Longrightarrow> absolute_finish u p cs b \<noteq> [] \<Longrightarrow>
   is_sep_byte (last (absolute_finish u p cs b))"
  using push_empty by (simp add: absolute_finish_def Let_def)

lemma absolute_finish_components:
  assumes "\<forall>c\<in>set cs. body_ok c"
  shows "components (absolute_finish u p cs b) = components b @ cs"
    and "components (absolute_finish u p (RootDir # cs) b) = RootDir # cs"
  using extend_body[OF assms, of u b] extend_body[OF assms, of u "[47]"] push_empty
  by (auto simp: absolute_finish_def Let_def path_extend_root components_slash)

text \<open>
  C31: \<open>absolute\<close> over a current directory: the result has the components of the path itself
  when the path starts with a separator, and otherwise those of the current directory followed
  by the path's, without a leading dot; a trailing separator is kept. Only a relative path makes
  it ask for the current directory on a Unix-like target.
\<close>

theorem path_absolute_components:
  assumes "\<not> is_absolute unix_like p \<longrightarrow> current_dir = Ret (Inr cwd)"
  shows "\<exists>r. path_absolute unix_like current_dir p = Ret (Inr r)
    \<and> components r = (if has_root p then components p else components cwd @ body_components p)
    \<and> (p \<noteq> [] \<and> is_sep_byte (last p) \<and> r \<noteq> [] \<longrightarrow> is_sep_byte (last r))"
proof -
  let ?cs = "(if has_root p then [RootDir] else []) @ body_components p"
  have ok: "\<forall>c\<in>set (body_components p). body_ok c" using body_components_ok by auto
  have root: "has_root p" if "is_absolute unix_like p"
    using that by (simp add: is_absolute_def split: if_splits)
  have comp: "components p = RootDir # body_components p" if "has_root p"
    using that by (simp add: components_def)
  have abs: "path_absolute unix_like current_dir p =
     Ret (Inr (if is_absolute unix_like p
        then (if prefix [47, 47] p \<and> \<not> prefix [47, 47, 47] p
              then absolute_finish unix_like p (body_components p) [47, 47]
              else absolute_finish unix_like p ?cs [])
        else absolute_finish unix_like p ?cs cwd))"
    using assms root
    by (auto simp: path_absolute_def components_without_dot absolute_finish_def Let_def)
  show ?thesis
    unfolding abs
    using absolute_finish_last[of p] absolute_finish_components[OF ok, of unix_like p] root comp
    by (auto simp: components_slash)
qed

theorem path_absolute_components_witness:
  "\<exists>r. path_absolute True (Ret (Inr [47, 104])) [46, 47, 97, 47, 47, 98, 47] = Ret (Inr r)
     \<and> components r = [RootDir, Normal [104], Normal [97], Normal [98]]
     \<and> (r \<noteq> [] \<longrightarrow> is_sep_byte (last r))"
  using path_absolute_components[of True "[46, 47, 97, 47, 47, 98, 47]" "Ret (Inr [47, 104])" "[47, 104]"]
  by (simp add: components_def has_root_def include_cur_dir_def body_components_Cons parse_single_def
      first_piece_def after_piece_def is_sep_byte_def)

text \<open>On this target no path is absolute, so the current directory is always asked for.\<close>

lemma path_absolute_on_this_target: "path_absolute False getcwd p = Panic ''not implemented''"
  by (simp add: path_absolute_def is_absolute_def parse_prefix_def getcwd_def)

end
