(* ===== verification/Os_Str.thy ===== *)
theory Os_Str
  imports Helpers
begin

text \<open>
  Operating-system strings (\<open>std/sys-src/os_str\<close>): on this platform they are UTF-8 strings. A
  slice is its bytes, a buffer its bytes and its capacity; what the operations must keep is that
  the bytes are well-formed UTF-8, because the unchecked conversions back to \<open>str\<close> rely on it.
  How much room the library gives a buffer that grows is an argument of the operations; memory
  is never exhausted.
\<close>

section \<open>UTF-8\<close>

definition utf8_cont :: "u8 \<Rightarrow> bool" where
  "utf8_cont b \<longleftrightarrow> 0x80 \<le> b \<and> b \<le> 0xBF"

text \<open>How many continuation bytes follow a first byte, and which second bytes it allows.\<close>

definition utf8_follow :: "u8 \<Rightarrow> nat option" where
  "utf8_follow b =
     (if b < 0x80 then Some 0
      else if 0xC2 \<le> b \<and> b \<le> 0xDF then Some 1
      else if 0xE0 \<le> b \<and> b \<le> 0xEF then Some 2
      else if 0xF0 \<le> b \<and> b \<le> 0xF4 then Some 3
      else None)"

definition utf8_second :: "u8 \<Rightarrow> u8 \<Rightarrow> bool" where
  "utf8_second b c \<longleftrightarrow>
     (b = 0xE0 \<longrightarrow> 0xA0 \<le> c) \<and> (b = 0xED \<longrightarrow> c \<le> 0x9F)
     \<and> (b = 0xF0 \<longrightarrow> 0x90 \<le> c) \<and> (b = 0xF4 \<longrightarrow> c \<le> 0x8F)"

function utf8_valid :: "u8 list \<Rightarrow> bool" where
  "utf8_valid [] = True"
| "utf8_valid (b # bs) =
     (case utf8_follow b of
        None \<Rightarrow> False
      | Some n \<Rightarrow>
          n \<le> length bs \<and> (\<forall>c \<in> set (take n bs). utf8_cont c)
          \<and> (0 < n \<longrightarrow> utf8_second b (hd bs)) \<and> utf8_valid (drop n bs))"
  by pat_completeness auto
termination by (relation "measure length") auto

declare utf8_valid.simps(2) [simp del]

text \<open>\<open>str::is_char_boundary\<close>.\<close>

definition is_char_boundary :: "u8 list \<Rightarrow> nat \<Rightarrow> bool" where
  "is_char_boundary s i \<longleftrightarrow>
     (if i = 0 then True else if length s \<le> i then i = length s else \<not> utf8_cont (s ! i))"

section \<open>Buffers\<close>

text \<open>The library's owned bytes: \<open>String\<close> and \<open>Vec<u8>\<close> differ in what is known of the bytes.\<close>

record owned_bytes =
  owned :: "u8 list"
  room :: nat

type_synonym os_buf = owned_bytes

definition isize_max :: nat where "isize_max = 2 ^ 63 - 1"

text \<open>
  The capacity that the library chooses: when a buffer of a capacity must hold a number of bytes,
  when that number was asked for exactly, and when a buffer is shrunk to it.
\<close>

record growth =
  gr_amortized :: "nat \<Rightarrow> nat \<Rightarrow> nat"
  gr_exact :: "nat \<Rightarrow> nat"
  gr_shrunk :: "nat \<Rightarrow> nat"

definition growth_ok :: "growth \<Rightarrow> bool" where
  "growth_ok g \<longleftrightarrow>
     (\<forall>cap need. need \<le> gr_amortized g cap need)
     \<and> (\<forall>need. need \<le> gr_exact g need \<and> (need \<le> isize_max \<longrightarrow> gr_exact g need \<le> isize_max))
     \<and> (\<forall>need. need \<le> gr_shrunk g need)"

text \<open>\<open>String::try_reserve\<close> and \<open>String::reserve\<close>, and the exact variants.\<close>

datatype try_reserve_error = CapacityOverflow

definition str_make_room :: "nat \<Rightarrow> nat \<Rightarrow> os_buf \<Rightarrow> try_reserve_error + os_buf" where
  "str_make_room additional cap b =
     (if length (owned b) + additional \<le> room b then Inr b
      else if cap \<le> isize_max then Inr (b\<lparr> room := cap \<rparr>)
      else Inl CapacityOverflow)"

definition or_panic :: "try_reserve_error + os_buf \<Rightarrow> os_buf exec" where
  "or_panic r = (case r of Inl e \<Rightarrow> Panic ''capacity overflow'' | Inr b \<Rightarrow> Ret b)"

definition buf_try_reserve :: "growth \<Rightarrow> nat \<Rightarrow> os_buf \<Rightarrow> try_reserve_error + os_buf" where
  "buf_try_reserve g additional b =
     str_make_room additional (gr_amortized g (room b) (length (owned b) + additional)) b"

definition buf_try_reserve_exact :: "growth \<Rightarrow> nat \<Rightarrow> os_buf \<Rightarrow> try_reserve_error + os_buf" where
  "buf_try_reserve_exact g additional b =
     str_make_room additional (gr_exact g (length (owned b) + additional)) b"

definition buf_reserve :: "growth \<Rightarrow> nat \<Rightarrow> os_buf \<Rightarrow> os_buf exec" where
  "buf_reserve g additional b = or_panic (buf_try_reserve g additional b)"

definition buf_reserve_exact :: "growth \<Rightarrow> nat \<Rightarrow> os_buf \<Rightarrow> os_buf exec" where
  "buf_reserve_exact g additional b = or_panic (buf_try_reserve_exact g additional b)"

text \<open>\<open>String::push_str\<close>; \<open>to_owned\<close> of a string, which asks for its length exactly.\<close>

definition string_push_str :: "growth \<Rightarrow> u8 list \<Rightarrow> os_buf \<Rightarrow> os_buf exec" where
  "string_push_str g s b =
     bind_exec (buf_reserve g (length s) b) (\<lambda>b. Ret (b\<lparr> owned := owned b @ s \<rparr>))"

definition str_to_owned :: "growth \<Rightarrow> u8 list \<Rightarrow> os_buf" where
  "str_to_owned g s = \<lparr> owned = s, room = gr_exact g (length s) \<rparr>"

definition buf_into_encoded_bytes :: "os_buf \<Rightarrow> owned_bytes" where "buf_into_encoded_bytes b = b"
definition buf_from_encoded_bytes_unchecked :: "owned_bytes \<Rightarrow> os_buf exec" where
  "buf_from_encoded_bytes_unchecked s = (if utf8_valid (owned s) then Ret s else Undefined)"
definition buf_into_string :: "os_buf \<Rightarrow> os_buf + owned_bytes" where "buf_into_string b = Inr b"
definition buf_from_string :: "owned_bytes \<Rightarrow> os_buf" where "buf_from_string s = s"
definition buf_into_inner :: "os_buf \<Rightarrow> owned_bytes" where "buf_into_inner b = b"
definition buf_from_inner :: "owned_bytes \<Rightarrow> os_buf" where "buf_from_inner s = s"
definition buf_as_inner :: "os_buf \<Rightarrow> u8 list" where "buf_as_inner b = owned b"

definition buf_with_capacity :: "growth \<Rightarrow> nat \<Rightarrow> os_buf exec" where
  "buf_with_capacity g n =
     (if n \<le> isize_max then Ret \<lparr> owned = [], room = gr_exact g n \<rparr> else Panic ''capacity overflow'')"

definition buf_clear :: "os_buf \<Rightarrow> os_buf" where "buf_clear b = b\<lparr> owned := [] \<rparr>"
definition buf_capacity :: "os_buf \<Rightarrow> nat" where "buf_capacity b = room b"
definition buf_push_slice :: "growth \<Rightarrow> u8 list \<Rightarrow> os_buf \<Rightarrow> os_buf exec" where
  "buf_push_slice g s b = string_push_str g s b"
definition buf_push_str :: "growth \<Rightarrow> u8 list \<Rightarrow> os_buf \<Rightarrow> os_buf exec" where
  "buf_push_str g s b = string_push_str g s b"

text \<open>\<open>String::shrink_to\<close> does nothing when the capacity is not above the one asked for.\<close>

definition buf_shrink_to :: "growth \<Rightarrow> nat \<Rightarrow> os_buf \<Rightarrow> os_buf" where
  "buf_shrink_to g min_capacity b =
     (if min_capacity < room b
      then b\<lparr> room := min (room b) (gr_shrunk g (max (length (owned b)) min_capacity)) \<rparr> else b)"

definition buf_shrink_to_fit :: "growth \<Rightarrow> os_buf \<Rightarrow> os_buf" where
  "buf_shrink_to_fit g b =
     (if length (owned b) < room b
      then b\<lparr> room := min (room b) (gr_shrunk g (length (owned b))) \<rparr> else b)"

definition slice_from_str :: "u8 list \<Rightarrow> u8 list" where "slice_from_str s = s"
definition buf_as_slice :: "os_buf \<Rightarrow> u8 list" where "buf_as_slice b = slice_from_str (owned b)"

text \<open>A change made through the slice that \<open>as_mut_slice\<close> lends out.\<close>

definition buf_as_mut_slice :: "(u8 list \<Rightarrow> u8 list) \<Rightarrow> os_buf \<Rightarrow> os_buf" where
  "buf_as_mut_slice change b = b\<lparr> owned := change (owned b) \<rparr>"

definition buf_leak :: "os_buf \<Rightarrow> u8 list" where "buf_leak b = owned b"

text \<open>A box holds its bytes with no room to spare; \<open>Arc\<close> and \<open>Rc\<close> share a copy of them.\<close>

definition buf_into_box :: "os_buf \<Rightarrow> u8 list" where "buf_into_box b = owned b"
definition buf_from_box :: "u8 list \<Rightarrow> os_buf" where
  "buf_from_box boxed = \<lparr> owned = boxed, room = length boxed \<rparr>"

definition buf_clone :: "growth \<Rightarrow> os_buf \<Rightarrow> os_buf" where "buf_clone g b = str_to_owned g (owned b)"

definition buf_clone_from :: "growth \<Rightarrow> os_buf \<Rightarrow> os_buf \<Rightarrow> os_buf exec" where
  "buf_clone_from g source b = string_push_str g (owned source) (b\<lparr> owned := [] \<rparr>)"

text \<open>\<open>String::truncate\<close> does nothing beyond the end and panics inside a character.\<close>

definition buf_truncate_unchecked :: "nat \<Rightarrow> os_buf \<Rightarrow> os_buf exec" where
  "buf_truncate_unchecked len b =
     (if len \<le> length (owned b)
      then if is_char_boundary (owned b) len then Ret (b\<lparr> owned := take len (owned b) \<rparr>)
           else Panic ''assertion failed: self.is_char_boundary(new_len)''
      else Ret b)"

definition buf_extend_from_slice_unchecked :: "growth \<Rightarrow> u8 list \<Rightarrow> os_buf \<Rightarrow> os_buf exec" where
  "buf_extend_from_slice_unchecked g other b =
     (if utf8_valid other then string_push_str g other b else Undefined)"

text \<open>How \<open>{:?}\<close> quotes a string is an argument; \<open>{}\<close> shows it as it is.\<close>

definition buf_debug :: "(u8 list \<Rightarrow> u8 list) \<Rightarrow> os_buf \<Rightarrow> u8 list" where
  "buf_debug quoted b = quoted (owned b)"
definition buf_display :: "os_buf \<Rightarrow> u8 list" where "buf_display b = owned b"

section \<open>Slices\<close>

definition slice_as_encoded_bytes :: "u8 list \<Rightarrow> u8 list" where "slice_as_encoded_bytes s = s"
definition slice_from_encoded_bytes_unchecked :: "u8 list \<Rightarrow> u8 list exec" where
  "slice_from_encoded_bytes_unchecked s = (if utf8_valid s then Ret (slice_from_str s) else Undefined)"

definition try_check_public_boundary :: "u8 list \<Rightarrow> nat \<Rightarrow> unit option" where
  "try_check_public_boundary s index = (if is_char_boundary s index then Some () else None)"

definition check_public_boundary :: "u8 list \<Rightarrow> nat \<Rightarrow> unit exec" where
  "check_public_boundary s index =
     (if try_check_public_boundary s index = None
      then Panic (''byte index '' @ map (\<lambda>b. char_of (unat b)) (decimal index)
                  @ '' is not an OsStr boundary'')
      else Ret ())"

datatype cow = Borrowed "u8 list" | Owned owned_bytes

definition slice_to_str :: "u8 list \<Rightarrow> string + u8 list" where "slice_to_str s = Inr s"
definition slice_to_string_lossy :: "u8 list \<Rightarrow> cow" where "slice_to_string_lossy s = Borrowed s"
definition slice_to_owned :: "growth \<Rightarrow> u8 list \<Rightarrow> os_buf" where "slice_to_owned g s = str_to_owned g s"

definition slice_clone_into :: "growth \<Rightarrow> u8 list \<Rightarrow> os_buf \<Rightarrow> os_buf exec" where
  "slice_clone_into g s buf = string_push_str g s (buf\<lparr> owned := [] \<rparr>)"

definition slice_into_box :: "u8 list \<Rightarrow> u8 list" where "slice_into_box s = s"
definition slice_empty_box :: "u8 list" where "slice_empty_box = []"
definition slice_into_arc :: "u8 list \<Rightarrow> u8 list" where "slice_into_arc s = s"
definition slice_into_rc :: "u8 list \<Rightarrow> u8 list" where "slice_into_rc s = s"
definition buf_into_arc :: "os_buf \<Rightarrow> u8 list" where "buf_into_arc b = slice_into_arc (buf_as_slice b)"
definition buf_into_rc :: "os_buf \<Rightarrow> u8 list" where "buf_into_rc b = slice_into_rc (buf_as_slice b)"

text \<open>The bytes copied to an address of a memory.\<close>

definition slice_clone_to_uninit :: "u8 list \<Rightarrow> usize \<Rightarrow> (usize \<Rightarrow> u8) \<Rightarrow> usize \<Rightarrow> u8" where
  "slice_clone_to_uninit s dst memory =
     (\<lambda>a. if unat (a - dst) < length s then s ! unat (a - dst) else memory a)"

definition slice_debug :: "(u8 list \<Rightarrow> u8 list) \<Rightarrow> u8 list \<Rightarrow> u8 list" where
  "slice_debug quoted s = quoted s"
definition slice_display :: "u8 list \<Rightarrow> u8 list" where "slice_display s = s"

definition ascii_lower :: "u8 \<Rightarrow> u8" where
  "ascii_lower b = (if 65 \<le> b \<and> b \<le> 90 then b + 32 else b)"

definition ascii_upper :: "u8 \<Rightarrow> u8" where
  "ascii_upper b = (if 97 \<le> b \<and> b \<le> 122 then b - 32 else b)"

definition slice_to_ascii_lowercase :: "growth \<Rightarrow> u8 list \<Rightarrow> os_buf" where
  "slice_to_ascii_lowercase g s = (str_to_owned g s)\<lparr> owned := map ascii_lower s \<rparr>"
definition slice_to_ascii_uppercase :: "growth \<Rightarrow> u8 list \<Rightarrow> os_buf" where
  "slice_to_ascii_uppercase g s = (str_to_owned g s)\<lparr> owned := map ascii_upper s \<rparr>"
definition slice_make_ascii_lowercase :: "u8 list \<Rightarrow> u8 list" where
  "slice_make_ascii_lowercase s = map ascii_lower s"
definition slice_make_ascii_uppercase :: "u8 list \<Rightarrow> u8 list" where
  "slice_make_ascii_uppercase s = map ascii_upper s"

definition slice_is_ascii :: "u8 list \<Rightarrow> bool" where
  "slice_is_ascii s \<longleftrightarrow> (\<forall>b \<in> set s. b < 128)"

definition slice_eq_ignore_ascii_case :: "u8 list \<Rightarrow> u8 list \<Rightarrow> bool" where
  "slice_eq_ignore_ascii_case s t \<longleftrightarrow>
     length s = length t \<and> list_all2 (\<lambda>a b. ascii_lower a = ascii_lower b) s t"

section \<open>Well-formedness\<close>

lemma utf8_valid_append: "utf8_valid s \<Longrightarrow> utf8_valid t \<Longrightarrow> utf8_valid (s @ t)"
proof (induction s rule: utf8_valid.induct)
  case (2 b bs)
  from "2.prems" obtain n where n: "utf8_follow b = Some n" "n \<le> length bs"
      "\<forall>c \<in> set (take n bs). utf8_cont c" "0 < n \<longrightarrow> utf8_second b (hd bs)" "utf8_valid (drop n bs)"
    by (auto simp: utf8_valid.simps(2) split: option.splits)
  moreover have "utf8_valid (drop n bs @ t)" using "2.IH"[OF n(1) n(5)] "2.prems"(2) by simp
  moreover have "hd (bs @ t) = hd bs" if "0 < n" using n(2) that by (cases bs) auto
  ultimately show ?case by (auto simp: utf8_valid.simps(2))
qed simp

text \<open>A string is cut at a boundary into two strings.\<close>

lemma utf8_valid_split:
  "utf8_valid s \<Longrightarrow> is_char_boundary s i \<Longrightarrow> utf8_valid (take i s) \<and> utf8_valid (drop i s)"
proof (induction s arbitrary: i rule: utf8_valid.induct)
  case 1
  then show ?case by simp
next
  case (2 b bs)
  from "2.prems"(1) obtain n where n: "utf8_follow b = Some n" "n \<le> length bs"
      "\<forall>c \<in> set (take n bs). utf8_cont c" "0 < n \<longrightarrow> utf8_second b (hd bs)" "utf8_valid (drop n bs)"
    by (auto simp: utf8_valid.simps(2) split: option.splits)
  show ?case
  proof (cases i)
    case 0
    with "2.prems"(1) show ?thesis by simp
  next
    case (Suc j)
    show ?thesis
    proof (cases "j < n")
      case True
      then have "bs ! j \<in> set (take n bs)" using n(2) by (auto simp: in_set_conv_nth)
      with n(3) "2.prems"(2) Suc True n(2) show ?thesis by (simp add: is_char_boundary_def)
    next
      case False
      then obtain k where j: "j = n + k" using le_Suc_ex not_less by blast
      have "is_char_boundary (drop n bs) k"
        using "2.prems"(2) Suc j n(2) by (auto simp: is_char_boundary_def add.commute split: if_splits)
      from "2.IH"[OF n(1) n(5) this]
      have "utf8_valid (take k (drop n bs))" "utf8_valid (drop k (drop n bs))" by auto
      moreover have "hd (take j bs) = hd bs" if "0 < n" using that n(2) j by (cases bs) auto
      ultimately show ?thesis
        using n j Suc by (auto simp: utf8_valid.simps(2) take_drop drop_drop add.commute min_def)
    qed
  qed
qed

text \<open>Changing bytes of one-byte characters only.\<close>

lemma utf8_valid_map:
  assumes low: "\<And>b. b < 0x80 \<Longrightarrow> g b < 0x80" and high: "\<And>b. \<not> b < 0x80 \<Longrightarrow> g b = b"
  shows "utf8_valid s \<Longrightarrow> utf8_valid (map g s)"
proof (induction s rule: utf8_valid.induct)
  case (2 b bs)
  from "2.prems" obtain n where n: "utf8_follow b = Some n" "n \<le> length bs"
      "\<forall>c \<in> set (take n bs). utf8_cont c" "0 < n \<longrightarrow> utf8_second b (hd bs)" "utf8_valid (drop n bs)"
    by (auto simp: utf8_valid.simps(2) split: option.splits)
  have cont: "g c = c" if "utf8_cont c" for c
    using that by (intro high) (simp add: utf8_cont_def not_less)
  have follow: "utf8_follow (g b) = Some n"
    using n(1) low[of b] high[of b] by (cases "b < 0x80") (auto simp: utf8_follow_def)
  have "utf8_second (g b) (hd (map g bs))" if "0 < n"
  proof -
    from that n(2) obtain c cs where bs: "bs = c # cs" by (cases bs) auto
    have "\<not> b < 0x80" using n(1) that by (auto simp: utf8_follow_def)
    moreover have "utf8_cont c" using n(3) that bs by (cases n) auto
    ultimately show ?thesis using n(4) that high cont by (simp add: bs)
  qed
  moreover have "\<forall>c \<in> set (take n (map g bs)). utf8_cont c"
    using n(3) cont by (auto simp: take_map)
  moreover have "utf8_valid (drop n (map g bs))"
    using "2.IH"[OF n(1) n(5)] by (simp add: drop_map)
  ultimately show ?case using follow n(2) by (simp add: utf8_valid.simps(2))
qed simp

lemma utf8_valid_ascii_case:
  "utf8_valid s \<Longrightarrow> utf8_valid (map ascii_lower s)"
  "utf8_valid s \<Longrightarrow> utf8_valid (map ascii_upper s)"
proof -
  have "ascii_lower b < 0x80" if "b < 0x80" for b
  proof -
    have "unat (b + 32) = unat b + 32" if "b \<le> 90"
      using that by (simp add: unat_word_ariths word_le_nat_alt)
    with that show ?thesis by (simp add: ascii_lower_def word_less_nat_alt word_le_nat_alt)
  qed
  moreover have "ascii_upper b < 0x80" if "b < 0x80" for b
  proof -
    have "unat (b - 32) = unat b - 32" if "97 \<le> b"
      using that by (simp add: unat_sub word_le_nat_alt)
    with that show ?thesis by (auto simp: ascii_upper_def word_less_nat_alt word_le_nat_alt)
  qed
  moreover have "ascii_lower b = b" "ascii_upper b = b" if "\<not> b < 0x80" for b
    using that by (auto simp: ascii_lower_def ascii_upper_def word_less_nat_alt word_le_nat_alt)
  ultimately show "utf8_valid s \<Longrightarrow> utf8_valid (map ascii_lower s)"
    and "utf8_valid s \<Longrightarrow> utf8_valid (map ascii_upper s)"
    by (auto intro: utf8_valid_map)
qed

section \<open>Sequences of operations\<close>

datatype buf_op =
    PushSlice "u8 list" | PushStr "u8 list" | Extend "u8 list" | Truncate nat | ClearBuf
  | LowerCase | UpperCase | Reserve nat | ReserveExact nat | ShrinkTo nat | ShrinkToFit
  | CloneFrom os_buf | CloneInto "u8 list" | CloneBuf | ThroughBox

fun buf_do :: "growth \<Rightarrow> buf_op \<Rightarrow> os_buf \<Rightarrow> os_buf exec" where
  "buf_do g (PushSlice s) b = buf_push_slice g s b"
| "buf_do g (PushStr s) b = buf_push_str g s b"
| "buf_do g (Extend s) b = buf_extend_from_slice_unchecked g s b"
| "buf_do g (Truncate n) b = buf_truncate_unchecked n b"
| "buf_do g ClearBuf b = Ret (buf_clear b)"
| "buf_do g LowerCase b = Ret (buf_as_mut_slice slice_make_ascii_lowercase b)"
| "buf_do g UpperCase b = Ret (buf_as_mut_slice slice_make_ascii_uppercase b)"
| "buf_do g (Reserve n) b = buf_reserve g n b"
| "buf_do g (ReserveExact n) b = buf_reserve_exact g n b"
| "buf_do g (ShrinkTo n) b = Ret (buf_shrink_to g n b)"
| "buf_do g ShrinkToFit b = Ret (buf_shrink_to_fit g b)"
| "buf_do g (CloneFrom source) b = buf_clone_from g source b"
| "buf_do g (CloneInto s) b = slice_clone_into g s b"
| "buf_do g CloneBuf b = Ret (buf_clone g b)"
| "buf_do g ThroughBox b = Ret (buf_from_box (buf_into_box b))"

fun op_text :: "buf_op \<Rightarrow> u8 list" where
  "op_text (PushSlice s) = s"
| "op_text (PushStr s) = s"
| "op_text (Extend s) = s"
| "op_text (CloneFrom source) = owned source"
| "op_text (CloneInto s) = s"
| "op_text _ = []"

text \<open>
  What the operations are meant to do to the text, without a buffer: only cutting inside a
  character is refused.
\<close>

fun text_step :: "buf_op \<Rightarrow> u8 list \<Rightarrow> u8 list exec" where
  "text_step (PushSlice s) t = Ret (t @ s)"
| "text_step (PushStr s) t = Ret (t @ s)"
| "text_step (Extend s) t = Ret (t @ s)"
| "text_step (Truncate n) t =
     (if n < length t \<and> n \<noteq> 0 \<and> utf8_cont (t ! n)
      then Panic ''assertion failed: self.is_char_boundary(new_len)'' else Ret (take n t))"
| "text_step ClearBuf t = Ret []"
| "text_step LowerCase t = Ret (map ascii_lower t)"
| "text_step UpperCase t = Ret (map ascii_upper t)"
| "text_step (Reserve n) t = Ret t"
| "text_step (ReserveExact n) t = Ret t"
| "text_step (ShrinkTo n) t = Ret t"
| "text_step ShrinkToFit t = Ret t"
| "text_step (CloneFrom source) t = Ret (owned source)"
| "text_step (CloneInto s) t = Ret s"
| "text_step CloneBuf t = Ret t"
| "text_step ThroughBox t = Ret t"

text \<open>The bytes an operation needs room for, and the room it leaves when it promises some.\<close>

fun op_demand :: "buf_op \<Rightarrow> u8 list \<Rightarrow> nat" where
  "op_demand (Reserve n) t = length t + n"
| "op_demand (ReserveExact n) t = length t + n"
| "op_demand (CloneFrom source) t = length (owned source)"
| "op_demand (CloneInto s) t = length s"
| "op_demand op t = length t + length (op_text op)"

fun op_leaves_room :: "buf_op \<Rightarrow> os_buf \<Rightarrow> bool" where
  "op_leaves_room (Reserve n) b \<longleftrightarrow> length (owned b) + n \<le> room b"
| "op_leaves_room (ReserveExact n) b \<longleftrightarrow> length (owned b) + n \<le> room b"
| "op_leaves_room _ b \<longleftrightarrow> True"

text \<open>A buffer that is too small for what is needed, where the library's choice is too large.\<close>

definition cannot_grow :: "growth \<Rightarrow> nat \<Rightarrow> nat \<Rightarrow> bool" where
  "cannot_grow g cap need \<longleftrightarrow>
     cap < need \<and> (isize_max < gr_amortized g cap need \<or> isize_max < gr_exact g need)"

text \<open>A buffer as the library keeps it: UTF-8 that fits into its capacity.\<close>

definition buf_ok :: "os_buf \<Rightarrow> bool" where
  "buf_ok b \<longleftrightarrow> utf8_valid (owned b) \<and> length (owned b) \<le> room b \<and> room b \<le> isize_max"

lemma buf_okI [intro]:
  "utf8_valid (owned b) \<Longrightarrow> length (owned b) \<le> room b \<Longrightarrow> room b \<le> isize_max \<Longrightarrow> buf_ok b"
  by (simp add: buf_ok_def)

text \<open>Reserving keeps the bytes and makes the room asked for, or panics.\<close>

lemma make_room_outcome:
  assumes "length (owned b) + n \<le> cap" and "room b \<le> isize_max"
  shows "(\<exists>c. or_panic (str_make_room n cap b) = Ret (b\<lparr> room := c \<rparr>)
      \<and> length (owned b) + n \<le> c \<and> c \<le> isize_max)
    \<or> (or_panic (str_make_room n cap b) = Panic ''capacity overflow'' \<and> room b < length (owned b) + n
      \<and> isize_max < cap)"
proof (cases "length (owned b) + n \<le> room b")
  case True
  then have "or_panic (str_make_room n cap b) = Ret (b\<lparr> room := room b \<rparr>)"
    by (simp add: or_panic_def str_make_room_def)
  with True assms(2) show ?thesis by blast
next
  case False
  show ?thesis
  proof (cases "cap \<le> isize_max")
    case True
    with False have "or_panic (str_make_room n cap b) = Ret (b\<lparr> room := cap \<rparr>)"
      by (simp add: or_panic_def str_make_room_def)
    with True assms(1) show ?thesis by blast
  qed (use False in \<open>simp add: or_panic_def str_make_room_def\<close>)
qed

lemma reserve_outcome:
  assumes "growth_ok g" and "room b \<le> isize_max"
    and "r = buf_reserve g n b \<or> r = buf_reserve_exact g n b"
  shows "(\<exists>c. r = Ret (b\<lparr> room := c \<rparr>) \<and> length (owned b) + n \<le> c \<and> c \<le> isize_max)
    \<or> (r = Panic ''capacity overflow'' \<and> cannot_grow g (room b) (length (owned b) + n))"
  using assms(3)
proof
  have need: "length (owned b) + n \<le> gr_amortized g (room b) (length (owned b) + n)"
    "length (owned b) + n \<le> gr_exact g (length (owned b) + n)"
    using assms(1) by (simp_all add: growth_ok_def)
  show ?thesis if "r = buf_reserve g n b"
    using make_room_outcome[OF need(1) assms(2)]
    unfolding that buf_reserve_def buf_try_reserve_def cannot_grow_def by blast
  show ?thesis if "r = buf_reserve_exact g n b"
    using make_room_outcome[OF need(2) assms(2)]
    unfolding that buf_reserve_exact_def buf_try_reserve_exact_def cannot_grow_def by blast
qed

lemma push_outcome:
  assumes "growth_ok g" and "buf_ok b" and "utf8_valid s"
  shows "(\<exists>b'. string_push_str g s b = Ret b' \<and> owned b' = owned b @ s \<and> buf_ok b')
    \<or> (string_push_str g s b = Panic ''capacity overflow''
      \<and> cannot_grow g (room b) (length (owned b) + length s))"
  using reserve_outcome[OF assms(1) _ disjI1[OF refl], of b "length s"] assms(2,3)
  by (auto simp: buf_ok_def string_push_str_def utf8_valid_append)

lemma clear_ok: "buf_ok b \<Longrightarrow> buf_ok (b\<lparr> owned := [] \<rparr>)"
  by (simp add: buf_ok_def)

lemma to_owned_ok:
  "growth_ok g \<Longrightarrow> utf8_valid s \<Longrightarrow> length s \<le> isize_max \<Longrightarrow> buf_ok (str_to_owned g s)"
  by (simp add: buf_ok_def str_to_owned_def growth_ok_def)

lemma shrink_ok:
  assumes "growth_ok g" and "buf_ok b"
  shows "buf_ok (buf_shrink_to g n b)" and "buf_ok (buf_shrink_to_fit g b)"
proof -
  have "length (owned b) \<le> gr_shrunk g (max (length (owned b)) n)"
    "length (owned b) \<le> gr_shrunk g (length (owned b))"
    using assms(1) by (auto simp: growth_ok_def intro: order_trans[OF max.cobounded1])
  with assms(2) show "buf_ok (buf_shrink_to g n b)" "buf_ok (buf_shrink_to_fit g b)"
    by (auto simp: buf_ok_def buf_shrink_to_def buf_shrink_to_fit_def)
qed

lemma truncate_text:
  "buf_truncate_unchecked n b =
     (case text_step (Truncate n) (owned b) of
        Ret t \<Rightarrow> Ret (b\<lparr> owned := t \<rparr>) | Panic m \<Rightarrow> Panic m | Undefined \<Rightarrow> Undefined)"
  by (auto simp: buf_truncate_unchecked_def is_char_boundary_def)

text \<open>One operation: what becomes of the text, or the room that could not be had.\<close>

definition op_outcome :: "growth \<Rightarrow> buf_op \<Rightarrow> os_buf \<Rightarrow> os_buf exec \<Rightarrow> bool" where
  "op_outcome g op b r \<longleftrightarrow>
     (case text_step op (owned b) of
        Ret t \<Rightarrow> \<exists>b'. r = Ret b' \<and> owned b' = t \<and> buf_ok b' \<and> op_leaves_room op b'
      | Panic m \<Rightarrow> r = Panic m
      | Undefined \<Rightarrow> False)
     \<or> r = Panic ''capacity overflow'' \<and> cannot_grow g (room b) (op_demand op (owned b))"

lemma buf_do_outcome:
  assumes g: "growth_ok g" and b: "buf_ok b" and valid: "utf8_valid (op_text op)"
  shows "op_outcome g op b (buf_do g op b)"
proof -
  note push = push_outcome[OF g b] push_outcome[OF g clear_ok[OF b]]
  have bounds: "utf8_valid (owned b)" "length (owned b) \<le> room b" "room b \<le> isize_max"
    using b by (simp_all add: buf_ok_def)
  note reserve = reserve_outcome[OF g bounds(3) disjI1[OF refl]]
    reserve_outcome[OF g bounds(3) disjI2[OF refl]]
  show ?thesis
  proof (cases op)
    case (Reserve n)
    with reserve(1)[of n] bounds show ?thesis by (auto simp: op_outcome_def buf_ok_def)
  next
    case (ReserveExact n)
    with reserve(2)[of n] bounds show ?thesis by (auto simp: op_outcome_def buf_ok_def)
  next
    case (Truncate n)
    have "utf8_valid (take n (owned b))" if "\<not> (n < length (owned b) \<and> n \<noteq> 0 \<and> utf8_cont (owned b ! n))"
    proof (cases "n \<le> length (owned b)")
      case True
      then have "is_char_boundary (owned b) n" using that by (auto simp: is_char_boundary_def)
      with utf8_valid_split[OF bounds(1)] show ?thesis by simp
    qed (use bounds(1) in simp)
    with Truncate bounds show ?thesis by (auto simp: op_outcome_def truncate_text buf_ok_def)
  next
    case (CloneFrom source)
    with push(2)[of "owned source"] valid show ?thesis by (auto simp: op_outcome_def buf_clone_from_def)
  next
    case (CloneInto s)
    with push(2)[of s] valid show ?thesis by (auto simp: op_outcome_def slice_clone_into_def)
  next
    case (Extend s)
    with push(1)[of s] valid show ?thesis
      by (auto simp: op_outcome_def buf_extend_from_slice_unchecked_def)
  next
    case (PushSlice s)
    with push(1)[of s] valid show ?thesis by (auto simp: op_outcome_def buf_push_slice_def)
  next
    case (PushStr s)
    with push(1)[of s] valid show ?thesis by (auto simp: op_outcome_def buf_push_str_def)
  next
    case CloneBuf
    with to_owned_ok[OF g bounds(1)] bounds show ?thesis
      by (simp add: op_outcome_def buf_clone_def) (simp add: str_to_owned_def)
  next
    case (ShrinkTo n)
    with shrink_ok(1)[OF g b] show ?thesis
      by (simp add: op_outcome_def) (simp add: buf_shrink_to_def)
  next
    case ShrinkToFit
    with shrink_ok(2)[OF g b] show ?thesis
      by (simp add: op_outcome_def) (simp add: buf_shrink_to_fit_def)
  qed (use bounds in \<open>auto simp: op_outcome_def buf_clear_def buf_as_mut_slice_def
      slice_make_ascii_lowercase_def slice_make_ascii_uppercase_def utf8_valid_ascii_case
      buf_from_box_def buf_into_box_def\<close>)
qed

text \<open>
  C33: Any sequence of operations whose arguments are strings does to the text of a buffer what it
  is meant to do: it appends, cuts, empties, replaces, changes the case of ASCII letters, or leaves
  the text alone, and it panics exactly where the text would be cut inside a character. The text
  stays well-formed UTF-8 within the capacity, the capacity within \<open>isize::MAX\<close>, and room that was
  reserved is there. The only other outcome is a panic where a buffer was too small for what an
  operation needed and the library's choice of a larger capacity exceeds \<open>isize::MAX\<close>; that choice
  is arbitrary as long as it gives the room asked for.
\<close>

theorem os_buf_implements_text:
  assumes "growth_ok g" and "buf_ok b" and "\<forall>op \<in> set ops. utf8_valid (op_text op)"
  shows "(case fold_exec text_step ops (owned b) of
        Ret t \<Rightarrow> \<exists>b'. fold_exec (buf_do g) ops b = Ret b' \<and> owned b' = t \<and> buf_ok b'
          \<and> (ops \<noteq> [] \<longrightarrow> op_leaves_room (last ops) b')
      | Panic m \<Rightarrow> fold_exec (buf_do g) ops b = Panic m
      | Undefined \<Rightarrow> False)
    \<or> fold_exec (buf_do g) ops b = Panic ''capacity overflow''
      \<and> (\<exists>before op after b1. ops = before @ op # after \<and> fold_exec (buf_do g) before b = Ret b1
          \<and> cannot_grow g (room b1) (op_demand op (owned b1)))"
  using assms(2,3)
proof (induction ops arbitrary: b)
  case Nil
  then show ?case by simp
next
  case (Cons op ops)
  have valid: "utf8_valid (op_text op)" "\<forall>op \<in> set ops. utf8_valid (op_text op)"
    using Cons.prems(2) by simp_all
  note step = buf_do_outcome[OF assms(1) Cons.prems(1) valid(1), unfolded op_outcome_def]
  from step consider
    (fine) b1 where "text_step op (owned b) = Ret (owned b1)" "buf_do g op b = Ret b1" "buf_ok b1"
      "op_leaves_room op b1"
    | (refused) m where "text_step op (owned b) = Panic m" "buf_do g op b = Panic m"
    | (full) "buf_do g op b = Panic ''capacity overflow''"
      "cannot_grow g (room b) (op_demand op (owned b))"
    by (cases "text_step op (owned b)") auto
  then show ?case
  proof cases
    case fine
    from Cons.IH[OF fine(3) valid(2)] show ?thesis
    proof
      assume "case fold_exec text_step ops (owned b1) of
          Ret t \<Rightarrow> \<exists>b'. fold_exec (buf_do g) ops b1 = Ret b' \<and> owned b' = t \<and> buf_ok b'
            \<and> (ops \<noteq> [] \<longrightarrow> op_leaves_room (last ops) b')
        | Panic m \<Rightarrow> fold_exec (buf_do g) ops b1 = Panic m
        | Undefined \<Rightarrow> False"
      with fine show ?thesis by (intro disjI1) (cases "ops = []"; auto split: exec.splits)
    next
      assume "fold_exec (buf_do g) ops b1 = Panic ''capacity overflow''
        \<and> (\<exists>before op after b2. ops = before @ op # after \<and> fold_exec (buf_do g) before b1 = Ret b2
            \<and> cannot_grow g (room b2) (op_demand op (owned b2)))"
      then obtain before op' after b2 where full: "fold_exec (buf_do g) ops b1 = Panic ''capacity overflow''"
        "ops = before @ op' # after" "fold_exec (buf_do g) before b1 = Ret b2"
        "cannot_grow g (room b2) (op_demand op' (owned b2))" by blast
      have "op # ops = (op # before) @ op' # after" "fold_exec (buf_do g) (op # before) b = Ret b2"
        "fold_exec (buf_do g) (op # ops) b = Panic ''capacity overflow''"
        using full fine(2) by simp_all
      with full(4) show ?thesis by blast
    qed
  next
    case refused
    then show ?thesis by simp
  next
    case full
    have "op # ops = [] @ op # ops" "fold_exec (buf_do g) [] b = Ret b" by simp_all
    with full show ?thesis by (intro disjI2 conjI) (simp, blast)
  qed
qed

text \<open>The growth of the library: at least double, and exactly what was asked for otherwise.\<close>

definition doubling :: growth where
  "doubling = \<lparr> gr_amortized = (\<lambda>cap need. max (2 * cap) need), gr_exact = id, gr_shrunk = id \<rparr>"

lemma doubling_ok: "growth_ok doubling"
  by (simp add: growth_ok_def doubling_def)

theorem os_buf_implements_text_witness:
  "\<exists>b'. fold_exec (buf_do doubling) [PushStr [0xC3, 0xA9], UpperCase, CloneInto [97, 98], PushSlice [0xC3, 0xA9],
         Truncate 4, Reserve 5] \<lparr> owned = [97, 98], room = 3 \<rparr> = Ret b'
     \<and> owned b' = [97, 98, 0xC3, 0xA9] \<and> buf_ok b' \<and> length (owned b') + 5 \<le> room b'"
proof -
  let ?ops = "[PushStr [0xC3, 0xA9], UpperCase, CloneInto [97, 98], PushSlice [0xC3, 0xA9], Truncate 4, Reserve 5]"
  let ?b = "\<lparr> owned = [97, 98], room = 3 \<rparr>"
  have valid: "utf8_valid [97, 98]" "utf8_valid [0xC3, 0xA9]"
    by (simp_all add: utf8_valid.simps(2) utf8_follow_def utf8_second_def utf8_cont_def)
  have ok: "buf_ok ?b" using valid(1) by (simp add: buf_ok_def isize_max_def)
  have ops: "\<forall>op \<in> set ?ops. utf8_valid (op_text op)" using valid by simp
  have "fold_exec (buf_do doubling) ?ops ?b = Ret \<lparr> owned = [97, 98, 0xC3, 0xA9], room = 12 \<rparr>"
    by (simp add: buf_push_str_def buf_push_slice_def slice_clone_into_def string_push_str_def
        buf_reserve_def buf_try_reserve_def str_make_room_def or_panic_def doubling_def isize_max_def
        buf_as_mut_slice_def slice_make_ascii_uppercase_def ascii_upper_def
        buf_truncate_unchecked_def is_char_boundary_def)
  moreover have "fold_exec text_step ?ops (owned ?b) = Ret [97, 98, 0xC3, 0xA9]"
    by (simp add: ascii_upper_def)
  ultimately show ?thesis using os_buf_implements_text[OF doubling_ok ok ops] by simp
qed

text \<open>
  What reserving is for: after it, strings of no more bytes in all are appended without a panic
  and without a change of the capacity.
\<close>

lemma push_within_room:
  "length (owned b) + length s \<le> room b \<Longrightarrow>
     string_push_str g s b = Ret (b\<lparr> owned := owned b @ s \<rparr>)"
  by (simp add: string_push_str_def buf_reserve_def buf_try_reserve_def str_make_room_def or_panic_def)

lemma pushes_within_room:
  "length (owned b) + length (concat ss) \<le> room b \<Longrightarrow>
     fold_exec (buf_push_str g) ss b = Ret (b\<lparr> owned := owned b @ concat ss \<rparr>)"
  by (induction ss arbitrary: b) (simp_all add: buf_push_str_def push_within_room)

lemma reserved_room_suffices:
  assumes "growth_ok g" and "buf_ok b" and "length (concat ss) \<le> n"
    and "buf_reserve g n b = Ret b'"
  shows "fold_exec (buf_push_str g) ss b' = Ret (b'\<lparr> owned := owned b @ concat ss \<rparr>)"
proof -
  from reserve_outcome[OF assms(1) _ disjI1[OF refl], of b n] assms(2,4)
  have "owned b' = owned b" "length (owned b) + n \<le> room b'" by (auto simp: buf_ok_def)
  with assms(3) show ?thesis by (subst pushes_within_room) simp_all
qed

text \<open>
  Cutting a string where \<open>check_public_boundary\<close> allows it gives two well-formed strings,
  and their concatenation is the string again.
\<close>

theorem public_boundary_splits:
  assumes "utf8_valid s" and "check_public_boundary s i = Ret ()"
  shows "utf8_valid (take i s) \<and> utf8_valid (drop i s) \<and> take i s @ drop i s = s"
proof -
  have "is_char_boundary s i"
    using assms(2) by (auto simp: check_public_boundary_def try_check_public_boundary_def split: if_splits)
  with utf8_valid_split[OF assms(1)] show ?thesis by simp
qed

theorem public_boundary_splits_witness:
  "utf8_valid (take 2 [0xC3, 0xA9, 97 :: u8]) \<and> utf8_valid (drop 2 [0xC3, 0xA9, 97 :: u8])
   \<and> check_public_boundary [0xC3, 0xA9, 97] 1 \<noteq> Ret ()"
proof -
  have "utf8_valid [0xC3, 0xA9, 97]" "check_public_boundary [0xC3, 0xA9, 97] 2 = Ret ()"
    "check_public_boundary [0xC3, 0xA9, 97] 1 \<noteq> Ret ()"
    by (simp_all add: utf8_valid.simps(2) utf8_follow_def utf8_second_def utf8_cont_def
        check_public_boundary_def try_check_public_boundary_def is_char_boundary_def)
  with public_boundary_splits[of "[0xC3, 0xA9, 97]" 2] show ?thesis by blast
qed

end
