(* ===== verification/Backtrace.thy ===== *)
theory Backtrace
  imports Std_Path Os_Str Sync_Locks
begin

text \<open>
  Printing a backtrace (\<open>std/sys-src/backtrace.rs\<close>). The unwinder and the resolver of symbols
  are other crates: a trace is the list of frames the unwinder delivers, each with the symbols it
  is resolved to, and the name of a symbol (its valid UTF-8 name, if it has one) is an argument.
  What is printed is a sequence of items handed to a writer that may fail.
\<close>

section \<open>The items and the writer\<close>

datatype print_fmt = Short | Full

datatype ('f, 's) item =
    Header
  | Context
  | Omitted usize
  | SymbolLine 'f 's
  | RawLine 'f
  | IpLine usize 'f
  | Finish
  | Note

type_synonym ('f, 's, 'w) writer = "('f, 's) item \<Rightarrow> 'w \<Rightarrow> bool \<times> 'w"

definition MAX_NB_FRAMES :: usize where "MAX_NB_FRAMES = 100"
definition FULL_BACKTRACE_DEFAULT :: bool where "FULL_BACKTRACE_DEFAULT \<longleftrightarrow> False"

definition end_marker :: string where "end_marker = ''__rust_end_short_backtrace''"
definition begin_marker :: string where "begin_marker = ''__rust_begin_short_backtrace''"

text \<open>\<open>str::contains\<close>.\<close>

definition str_contains :: "string \<Rightarrow> string \<Rightarrow> bool" where
  "str_contains s pat \<longleftrightarrow> sublist pat s"

section \<open>The walk over the frames\<close>

text \<open>The variables the two closures share, and the writer's state.\<close>

record 'w bt_state =
  bt_idx :: usize
  bt_res :: bool
  omitted_count :: usize
  first_omit :: bool
  printing :: bool
  sink :: 'w

definition bt_emit :: "('f, 's, 'w) writer \<Rightarrow> ('f, 's) item \<Rightarrow> 'w bt_state \<Rightarrow> bool \<times> 'w bt_state" where
  "bt_emit wr i st = (let (ok, w) = wr i (sink st) in (ok, st\<lparr> sink := w \<rparr>))"

text \<open>A symbol that is shown; the announcement of omitted frames ignores a failing writer.\<close>

definition bt_show :: "('f, 's, 'w) writer \<Rightarrow> 'f \<Rightarrow> 's \<Rightarrow> 'w bt_state \<Rightarrow> 'w bt_state" where
  "bt_show wr frame symb st =
     (if \<not> printing st then st
      else
        let st1 = (if 0 < omitted_count st
                   then (let st' = (if \<not> first_omit st then snd (bt_emit wr (Omitted (omitted_count st)) st)
                                    else st)
                         in st'\<lparr> first_omit := False, omitted_count := 0 \<rparr>)
                   else st);
            (ok, st2) = bt_emit wr (SymbolLine frame symb) st1
        in st2\<lparr> bt_res := ok \<rparr>)"

definition bt_symbol ::
  "('s \<Rightarrow> string option) \<Rightarrow> print_fmt \<Rightarrow> ('f, 's, 'w) writer \<Rightarrow> 'f \<Rightarrow> 's \<Rightarrow> 'w bt_state \<Rightarrow> 'w bt_state"
where
  "bt_symbol sym_name fmt wr frame symb st =
     (case (if fmt = Short then sym_name symb else None) of
        None \<Rightarrow> bt_show wr frame symb st
      | Some name \<Rightarrow>
          if str_contains name end_marker then st\<lparr> printing := True \<rparr>
          else if printing st \<and> str_contains name begin_marker then st\<lparr> printing := False \<rparr>
          else bt_show wr frame symb
                 (if \<not> printing st then st\<lparr> omitted_count := omitted_count st + 1 \<rparr> else st))"

text \<open>A frame; the result says whether the unwinder goes on.\<close>

definition bt_frame ::
  "('s \<Rightarrow> string option) \<Rightarrow> bool \<Rightarrow> print_fmt \<Rightarrow> ('f, 's, 'w) writer \<Rightarrow> 'f \<times> 's list \<Rightarrow> 'w bt_state
    \<Rightarrow> bool \<times> 'w bt_state"
where
  "bt_frame sym_name trace_only fmt wr f st =
     (if fmt = Short \<and> MAX_NB_FRAMES < bt_idx st then (False, st)
      else
        let st1 =
          (if trace_only
           then (let (ok, st') = bt_emit wr (IpLine (bt_idx st) (fst f)) st in st'\<lparr> bt_res := ok \<rparr>)
           else
             let st' = fold (bt_symbol sym_name fmt wr (fst f)) (snd f) st
             in if snd f = [] \<and> printing st'
                then (let (ok, st'') = bt_emit wr (RawLine (fst f)) st' in st''\<lparr> bt_res := ok \<rparr>)
                else st')
        in (bt_res st1, st1\<lparr> bt_idx := bt_idx st1 + 1 \<rparr>))"

fun bt_trace ::
  "('s \<Rightarrow> string option) \<Rightarrow> bool \<Rightarrow> print_fmt \<Rightarrow> ('f, 's, 'w) writer \<Rightarrow> ('f \<times> 's list) list \<Rightarrow> 'w bt_state
    \<Rightarrow> 'w bt_state"
where
  "bt_trace sym_name trace_only fmt wr [] st = st"
| "bt_trace sym_name trace_only fmt wr (f # fs) st =
     (let (go, st') = bt_frame sym_name trace_only fmt wr f st
      in if go then bt_trace sym_name trace_only fmt wr fs st' else st')"

definition bt_start :: "print_fmt \<Rightarrow> 'w \<Rightarrow> 'w bt_state" where
  "bt_start fmt w =
     \<lparr> bt_idx = 0, bt_res = True, omitted_count = 0, first_omit = True, printing = (fmt \<noteq> Short),
       sink = w \<rparr>"

text \<open>Writing a list of items, up to the first failure.\<close>

fun write_items :: "('f, 's, 'w) writer \<Rightarrow> ('f, 's) item list \<Rightarrow> 'w \<Rightarrow> bool \<times> 'w" where
  "write_items wr [] w = (True, w)"
| "write_items wr (i # is) w =
     (let (ok, w') = wr i w in if ok then write_items wr is w' else (False, w'))"

definition print_fmt_backtrace ::
  "('s \<Rightarrow> string option) \<Rightarrow> bool \<Rightarrow> (io_error + path) exec \<Rightarrow> print_fmt \<Rightarrow> ('f, 's, 'w) writer
    \<Rightarrow> ('f \<times> 's list) list \<Rightarrow> 'w \<Rightarrow> (bool \<times> 'w) exec"
where
  "print_fmt_backtrace sym_name trace_only current_dir fmt wr frames w =
     bind_exec current_dir (\<lambda>cwd.
       Ret (let (ok, w1) = write_items wr [Header, Context] w in
            if \<not> ok then (False, w1)
            else
              let st = bt_trace sym_name trace_only fmt wr frames (bt_start fmt w1) in
              if \<not> bt_res st then (False, sink st)
              else write_items wr (if fmt = Short then [Finish, Note] else [Finish]) (sink st)))"

section \<open>File names\<close>

datatype bytes_or_wide = Bytes "u8 list" | Wide "u16 list"

text \<open>
  A file name below the current directory is shown relative to it. The flags are the two
  configurations the code tests: whether the target is Unix, and whether it is one of those
  where a path is absolute without a prefix.
\<close>

definition unknown_file :: path where
  "unknown_file = map (\<lambda>c. of_nat (of_char c)) ''<unknown>''"

definition output_filename :: "bool \<Rightarrow> bool \<Rightarrow> bytes_or_wide \<Rightarrow> print_fmt \<Rightarrow> path option \<Rightarrow> path" where
  "output_filename unix unix_like bows fmt cwd =
     (let file = (case bows of
                    Bytes b \<Rightarrow> if unix \<or> utf8_valid b then b else unknown_file
                  | Wide _ \<Rightarrow> unknown_file)
      in if fmt = Short \<and> is_absolute unix_like file
         then (case cwd of
                 None \<Rightarrow> file
               | Some c \<Rightarrow>
                   (case strip_prefix file c of
                      None \<Rightarrow> file
                    | Some s \<Rightarrow> if utf8_valid s then [46, 47] @ s else file))
         else file)"

section \<open>What a backtrace shows\<close>

text \<open>
  The reference: the frames as one sequence of tokens, a token for every symbol and one for a
  frame without symbols; and the writer that records what it is given.
\<close>

type_synonym ('f, 's) token = "'f \<times> 's option"

definition frame_tokens :: "'f \<times> 's list \<Rightarrow> ('f, 's) token list" where
  "frame_tokens f = (if snd f = [] then [(fst f, None)] else map (\<lambda>s. (fst f, Some s)) (snd f))"

definition token_line :: "('f, 's) token \<Rightarrow> ('f, 's) item" where
  "token_line t = (case snd t of None \<Rightarrow> RawLine (fst t) | Some s \<Rightarrow> SymbolLine (fst t) s)"

fun is_line :: "('f, 's) item \<Rightarrow> bool" where
  "is_line (SymbolLine f s) = True"
| "is_line (RawLine f) = True"
| "is_line _ = False"

definition recorder :: "('f, 's, ('f, 's) item list) writer" where
  "recorder i w = (True, w @ [i])"

definition token_has :: "('s \<Rightarrow> string option) \<Rightarrow> string \<Rightarrow> ('f, 's) token \<Rightarrow> bool" where
  "token_has sym_name m t \<longleftrightarrow>
     (\<exists>s name. snd t = Some s \<and> sym_name s = Some name \<and> str_contains name m)"

text \<open>
  A token is shown when it is not a marker, an end marker precedes it, and no begin marker
  stands between the two.
\<close>

definition ends_hiding :: "('s \<Rightarrow> string option) \<Rightarrow> ('f, 's) token \<Rightarrow> bool" where
  "ends_hiding sym_name t \<longleftrightarrow> token_has sym_name end_marker t"

definition begins_hiding :: "('s \<Rightarrow> string option) \<Rightarrow> ('f, 's) token \<Rightarrow> bool" where
  "begins_hiding sym_name t \<longleftrightarrow> token_has sym_name begin_marker t \<and> \<not> ends_hiding sym_name t"

definition open_after :: "('s \<Rightarrow> string option) \<Rightarrow> ('f, 's) token list \<Rightarrow> nat \<Rightarrow> bool" where
  "open_after sym_name ts i \<longleftrightarrow>
     (\<exists>j<i. ends_hiding sym_name (ts ! j) \<and> (\<forall>k<i. j < k \<longrightarrow> \<not> begins_hiding sym_name (ts ! k)))"

definition visible :: "('s \<Rightarrow> string option) \<Rightarrow> ('f, 's) token list \<Rightarrow> nat \<Rightarrow> bool" where
  "visible sym_name ts i \<longleftrightarrow>
     \<not> ends_hiding sym_name (ts ! i) \<and> \<not> begins_hiding sym_name (ts ! i) \<and> open_after sym_name ts i"

definition shown_tokens :: "('s \<Rightarrow> string option) \<Rightarrow> print_fmt \<Rightarrow> ('f, 's) token list \<Rightarrow> ('f, 's) token list" where
  "shown_tokens sym_name fmt ts =
     (case fmt of Full \<Rightarrow> ts | Short \<Rightarrow> nths ts {i. visible sym_name ts i})"

text \<open>The code, token by token.\<close>

definition token_step ::
  "('s \<Rightarrow> string option) \<Rightarrow> print_fmt \<Rightarrow> ('f, 's, 'w) writer \<Rightarrow> ('f, 's) token \<Rightarrow> 'w bt_state \<Rightarrow> 'w bt_state"
where
  "token_step sym_name fmt wr t st =
     (case snd t of
        Some s \<Rightarrow> bt_symbol sym_name fmt wr (fst t) s st
      | None \<Rightarrow> if printing st then (let (ok, st') = bt_emit wr (RawLine (fst t)) st in st'\<lparr> bt_res := ok \<rparr>)
                else st)"

lemma bt_frame_tokens:
  assumes "\<not> (fmt = Short \<and> MAX_NB_FRAMES < bt_idx st)"
  shows "bt_frame sym_name False fmt wr f st =
     (let st' = fold (token_step sym_name fmt wr) (frame_tokens f) st
      in (bt_res st', st'\<lparr> bt_idx := bt_idx st' + 1 \<rparr>))"
proof -
  have "fold (token_step sym_name fmt wr) (map (\<lambda>s. (fst f, Some s)) (snd f)) st
      = fold (bt_symbol sym_name fmt wr (fst f)) (snd f) st"
  proof -
    have "(\<lambda>x. token_step sym_name fmt wr (fst f, Some x)) = bt_symbol sym_name fmt wr (fst f)"
      by (rule ext, rule ext) (simp add: token_step_def)
    then show ?thesis by (simp add: fold_map o_def)
  qed
  then show ?thesis
    using assms by (auto simp: bt_frame_def frame_tokens_def token_step_def Let_def)
qed

text \<open>One token with the recording writer.\<close>

definition token_shown :: "('s \<Rightarrow> string option) \<Rightarrow> print_fmt \<Rightarrow> bool \<Rightarrow> ('f, 's) token \<Rightarrow> bool" where
  "token_shown sym_name fmt p t \<longleftrightarrow>
     p \<and> (fmt = Short \<longrightarrow> \<not> ends_hiding sym_name t \<and> \<not> begins_hiding sym_name t)"

definition open_next :: "('s \<Rightarrow> string option) \<Rightarrow> print_fmt \<Rightarrow> bool \<Rightarrow> ('f, 's) token \<Rightarrow> bool" where
  "open_next sym_name fmt p t =
     (if fmt = Short \<and> ends_hiding sym_name t then True
      else if fmt = Short \<and> begins_hiding sym_name t then False else p)"

lemma bt_show_recorder:
  assumes "st' = bt_show recorder f s st" "bt_res st"
  shows "bt_res st' \<and> bt_idx st' = bt_idx st \<and> printing st' = printing st
    \<and> filter is_line (sink st') = filter is_line (sink st) @ (if printing st then [SymbolLine f s] else [])
    \<and> prefix (sink st) (sink st')"
  using assms by (auto simp: bt_show_def bt_emit_def recorder_def Let_def)

lemma token_has_Some:
  "snd t = Some s \<Longrightarrow>
   token_has sym_name m t = (case sym_name s of None \<Rightarrow> False | Some name \<Rightarrow> str_contains name m)"
  by (auto simp: token_has_def split: option.splits)

lemma token_step_recorder:
  assumes "st' = token_step sym_name fmt recorder t st" "bt_res st"
  shows "bt_res st' \<and> bt_idx st' = bt_idx st \<and> printing st' = open_next sym_name fmt (printing st) t
    \<and> filter is_line (sink st') = filter is_line (sink st)
         @ (if token_shown sym_name fmt (printing st) t then [token_line t] else [])
    \<and> prefix (sink st) (sink st')"
proof (cases "snd t")
  case None
  then show ?thesis
    using assms
    by (auto simp: token_step_def bt_emit_def recorder_def open_next_def token_shown_def
        ends_hiding_def begins_hiding_def token_has_def token_line_def)
next
  case (Some s)
  note hide = ends_hiding_def begins_hiding_def token_has_Some[OF Some]
  show ?thesis
  proof (cases "if fmt = Short then sym_name s else None")
    case None
    then have "st' = bt_show recorder (fst t) s st"
      using assms(1) Some by (simp add: token_step_def bt_symbol_def)
    note shown = bt_show_recorder[OF this assms(2)]
    moreover have "fmt = Short \<Longrightarrow> \<not> ends_hiding sym_name t \<and> \<not> begins_hiding sym_name t"
      using None by (simp add: hide)
    ultimately show ?thesis
      using Some by (auto simp: open_next_def token_shown_def token_line_def)
  next
    case name: (Some name)
    then have short: "fmt = Short" "sym_name s = Some name" by (auto split: if_splits)
    show ?thesis
    proof (cases "str_contains name end_marker \<or> printing st \<and> str_contains name begin_marker")
      case True
      then show ?thesis
        using assms Some short
        by (auto simp: token_step_def bt_symbol_def open_next_def token_shown_def hide)
    next
      case False
      define st1 where "st1 = (if \<not> printing st then st\<lparr> omitted_count := omitted_count st + 1 \<rparr> else st)"
      then have "st' = bt_show recorder (fst t) s st1"
        using assms(1) Some short False by (auto simp: token_step_def bt_symbol_def)
      moreover have st1: "bt_res st1" "bt_idx st1 = bt_idx st" "printing st1 = printing st" "sink st1 = sink st"
        using assms(2) by (simp_all add: st1_def)
      ultimately show ?thesis
        using bt_show_recorder[of st' "fst t" s st1] False short Some
        by (auto simp: open_next_def token_shown_def token_line_def hide)
    qed
  qed
qed

text \<open>A sequence of tokens; the lines it adds, and whether the backtrace is open after it.\<close>

fun lines_of :: "('s \<Rightarrow> string option) \<Rightarrow> print_fmt \<Rightarrow> bool \<Rightarrow> ('f, 's) token list \<Rightarrow> ('f, 's) token list" where
  "lines_of sym_name fmt p [] = []"
| "lines_of sym_name fmt p (t # ts) =
     (if token_shown sym_name fmt p t then [t] else []) @ lines_of sym_name fmt (open_next sym_name fmt p t) ts"

lemma token_steps_recorder:
  "bt_res st \<Longrightarrow> st' = fold (token_step sym_name fmt recorder) ts st \<Longrightarrow>
   bt_res st' \<and> bt_idx st' = bt_idx st
   \<and> printing st' = foldl (open_next sym_name fmt) (printing st) ts
   \<and> filter is_line (sink st') = filter is_line (sink st)
        @ map token_line (lines_of sym_name fmt (printing st) ts)
   \<and> prefix (sink st) (sink st')"
proof (induction ts arbitrary: st)
  case (Cons t ts)
  define st1 where "st1 = token_step sym_name fmt recorder t st"
  note one = token_step_recorder[OF st1_def Cons.prems(1)]
  have "st' = fold (token_step sym_name fmt recorder) ts st1"
    using Cons.prems(2) by (simp add: st1_def)
  from Cons.IH[OF _ this] one show ?case
    by (auto intro: prefix_order.trans)
qed simp

lemma lines_of_append:
  "lines_of sym_name fmt p (xs @ ys) =
     lines_of sym_name fmt p xs @ lines_of sym_name fmt (foldl (open_next sym_name fmt) p xs) ys"
  by (induction xs arbitrary: p) auto

lemma lines_of_Full: "lines_of sym_name Full True ts = ts"
  by (induction ts) (auto simp: token_shown_def open_next_def)

lemma open_after_snoc:
  "open_after sym_name (ts @ [t]) (Suc (length ts)) \<longleftrightarrow>
     ends_hiding sym_name t \<or> \<not> begins_hiding sym_name t \<and> open_after sym_name ts (length ts)"
  (is "?lhs \<longleftrightarrow> ?rhs")
proof
  assume ?lhs
  then obtain j where j: "j \<le> length ts" "ends_hiding sym_name ((ts @ [t]) ! j)"
    "\<forall>k<Suc (length ts). j < k \<longrightarrow> \<not> begins_hiding sym_name ((ts @ [t]) ! k)"
    by (auto simp: open_after_def less_Suc_eq_le)
  show ?rhs
  proof (cases "j = length ts")
    case False
    with j have "\<not> begins_hiding sym_name t" "j < length ts" by (auto simp: nth_append)
    moreover have "\<not> begins_hiding sym_name (ts ! k)" if "k < length ts" "j < k" for k
      using j(3) that by (auto simp: nth_append dest: spec[of _ k])
    ultimately show ?thesis using j(2) by (auto simp: open_after_def nth_append)
  qed (use j(2) in simp)
next
  assume ?rhs
  then consider "ends_hiding sym_name t" | j where "\<not> begins_hiding sym_name t" "j < length ts"
      "ends_hiding sym_name (ts ! j)" "\<forall>k<length ts. j < k \<longrightarrow> \<not> begins_hiding sym_name (ts ! k)"
    by (auto simp: open_after_def)
  then show ?lhs
  proof cases
    case 1
    then show ?thesis by (auto simp: open_after_def intro!: exI[where x = "length ts"])
  next
    case (2 j)
    then show ?thesis by (auto simp: open_after_def nth_append less_Suc_eq intro!: exI[where x = j])
  qed
qed

lemma open_after_append: "i \<le> length xs \<Longrightarrow> open_after sym_name (xs @ ys) i \<longleftrightarrow> open_after sym_name xs i"
  unfolding open_after_def by (intro ex_cong1 conj_cong refl) (auto simp: nth_append)

lemma open_fold: "foldl (open_next sym_name Short) False ts \<longleftrightarrow> open_after sym_name ts (length ts)"
proof (induction ts rule: rev_induct)
  case (snoc t ts)
  then show ?case by (simp add: open_next_def open_after_snoc)
qed (simp add: open_after_def)

lemma lines_of_Short: "lines_of sym_name Short False ts = nths ts {i. visible sym_name ts i}"
proof (induction ts rule: rev_induct)
  case (snoc t ts)
  have "nths ts {i. visible sym_name (ts @ [t]) i} = nths ts {i. visible sym_name ts i}"
    unfolding nths_def
    by (rule arg_cong[where f = "map fst"], rule filter_cong)
       (auto simp: visible_def nth_append open_after_append dest!: set_zip_rightD)
  moreover have "visible sym_name (ts @ [t]) (length ts) \<longleftrightarrow>
      token_shown sym_name Short (foldl (open_next sym_name Short) False ts) t"
    by (auto simp: visible_def token_shown_def open_fold open_after_append)
  ultimately show ?case
    using snoc by (simp add: lines_of_append nths_append)
qed simp

section \<open>The whole backtrace\<close>

text \<open>The frames the walk looks at: of a short backtrace only the first 101.\<close>

definition frames_walked :: "print_fmt \<Rightarrow> 'a list \<Rightarrow> 'a list" where
  "frames_walked fmt frames = (case fmt of Full \<Rightarrow> frames | Short \<Rightarrow> take 101 frames)"

lemma bt_trace_recorder:
  assumes "bt_res st" and "fmt = Short \<longrightarrow> unat (bt_idx st) \<le> 101"
    and "r = bt_trace sym_name False fmt recorder fs st"
  shows "bt_res r \<and> prefix (sink st) (sink r)
    \<and> filter is_line (sink r) = filter is_line (sink st) @ map token_line (lines_of sym_name fmt (printing st)
         (concat (map frame_tokens (case fmt of Full \<Rightarrow> fs | Short \<Rightarrow> take (101 - unat (bt_idx st)) fs))))"
  using assms
proof (induction fs arbitrary: st)
  case Nil
  then show ?case by (cases fmt) auto
next
  case (Cons f fs)
  show ?case
  proof (cases "fmt = Short \<and> MAX_NB_FRAMES < bt_idx st")
    case True
    then have "unat (bt_idx st) = 101"
      using Cons.prems(2) by (auto simp: MAX_NB_FRAMES_def word_less_nat_alt)
    with True Cons.prems show ?thesis by (auto simp: bt_frame_def)
  next
    case False
    define st1 where "st1 = fold (token_step sym_name fmt recorder) (frame_tokens f) st"
    note one = token_steps_recorder[OF Cons.prems(1) st1_def]
    define st2 where "st2 = st1\<lparr> bt_idx := bt_idx st1 + 1 \<rparr>"
    have rest: "r = bt_trace sym_name False fmt recorder fs st2"
      using one bt_frame_tokens[OF False, of sym_name recorder f] Cons.prems(3)
      by (simp add: Let_def st1_def[symmetric] st2_def)
    have idx: "fmt = Short \<Longrightarrow> unat (bt_idx st2) = Suc (unat (bt_idx st)) \<and> unat (bt_idx st) \<le> 100"
      using False one
      by (auto simp: st2_def MAX_NB_FRAMES_def word_less_nat_alt not_less unat_word_ariths)
    have st2: "bt_res st2" "printing st2 = printing st1" "sink st2 = sink st1"
      using one by (simp_all add: st2_def)
    have walked: "(case fmt of Full \<Rightarrow> f # fs | Short \<Rightarrow> take (101 - unat (bt_idx st)) (f # fs))
        = f # (case fmt of Full \<Rightarrow> fs | Short \<Rightarrow> take (101 - unat (bt_idx st2)) fs)"
      using idx by (cases fmt) (auto simp: take_Cons')
    from Cons.IH[OF st2(1) _ rest] one idx show ?thesis
      unfolding walked by (auto simp: st2 lines_of_append intro: prefix_order.trans)
  qed
qed

text \<open>
  C17: With a writer that does not fail, a backtrace is printed between its header and its end,
  and the lines it shows are: in full format every token of every frame; in short format, of the
  first 101 frames, exactly the tokens that an end marker precedes with no begin marker in
  between, in their order.
\<close>

theorem backtrace_shows_visible_tokens:
  "\<exists>body. print_fmt_backtrace sym_name False (Ret cwd) fmt recorder frames []
       = Ret (True, [Header, Context] @ body @ (if fmt = Short then [Finish, Note] else [Finish]))
     \<and> filter is_line body
       = map token_line (shown_tokens sym_name fmt (concat (map frame_tokens (frames_walked fmt frames))))"
proof -
  let ?st = "bt_start fmt ([Header, Context] :: ('a, 'b) item list)"
  define r where "r = bt_trace sym_name False fmt recorder frames ?st"
  have start: "bt_res ?st" "bt_idx ?st = 0" "printing ?st = (fmt \<noteq> Short)" "sink ?st = [Header, Context]"
    by (simp_all add: bt_start_def)
  have trace: "bt_res r \<and> prefix [Header, Context] (sink r)
      \<and> filter is_line (sink r) = map token_line (lines_of sym_name fmt (fmt \<noteq> Short)
           (concat (map frame_tokens (frames_walked fmt frames))))"
  proof -
    have "fmt = Short \<longrightarrow> unat (bt_idx ?st) \<le> 101" by (simp only: start(2)) simp
    from bt_trace_recorder[OF start(1) this r_def] show ?thesis
      unfolding start frames_walked_def unat_0 diff_zero by simp
  qed
  then obtain body where body: "sink r = [Header, Context] @ body" by (auto simp: prefix_def)
  have "print_fmt_backtrace sym_name False (Ret cwd) fmt recorder frames []
      = Ret (True, sink r @ (if fmt = Short then [Finish, Note] else [Finish]))"
    using trace by (simp add: print_fmt_backtrace_def recorder_def Let_def flip: r_def)
  moreover have "filter is_line body
      = map token_line (shown_tokens sym_name fmt (concat (map frame_tokens (frames_walked fmt frames))))"
    using trace body by (cases fmt) (auto simp: shown_tokens_def lines_of_Full lines_of_Short)
  ultimately show ?thesis using body by auto
qed

text \<open>On this platform the current directory cannot be asked for, so nothing is printed.\<close>

lemma backtrace_on_this_platform:
  "print_fmt_backtrace sym_name trace_only getcwd fmt wr frames w = Panic ''not implemented''"
  by (simp add: print_fmt_backtrace_def getcwd_def)

text \<open>
  A failing line of a frame is forgotten when a later symbol of the same frame is written: the
  walk goes on to the next frame.
\<close>

lemma failed_line_forgotten:
  "print_fmt_backtrace (\<lambda>s. None) False (Ret cwd) Full
     (\<lambda>i w. (i \<noteq> SymbolLine (0 :: nat) (0 :: nat), w @ [i])) [(0, [0, 1]), (1, [])] []
     = Ret (True, [Header, Context, SymbolLine 0 0, SymbolLine 0 1, RawLine 1, Finish])"
  by (simp add: print_fmt_backtrace_def bt_start_def bt_frame_def bt_symbol_def bt_show_def bt_emit_def Let_def)

text \<open>Without a prefix no path is absolute, so a file name is never shortened on this target.\<close>

lemma output_filename_on_this_target:
  "output_filename False False (Bytes b) fmt cwd = (if utf8_valid b then b else unknown_file)"
  by (simp add: output_filename_def is_absolute_def parse_prefix_def)

section \<open>The lock around a backtrace\<close>

text \<open>
  \<open>lock\<close> takes a mutex and ignores that it may be poisoned; dropping the guard gives it back. The
  formatter of \<open>write!\<close> is the writer; in the library's own tests nothing is printed.
\<close>

definition backtrace_lock :: "mutex \<Rightarrow> mutex \<times> unit run" where
  "backtrace_lock m = mutex_lock m"

definition backtrace_print ::
  "bool \<Rightarrow> ('s \<Rightarrow> string option) \<Rightarrow> bool \<Rightarrow> (io_error + path) exec \<Rightarrow> print_fmt \<Rightarrow> ('f, 's, 'w) writer
    \<Rightarrow> ('f \<times> 's list) list \<Rightarrow> 'w \<Rightarrow> (bool \<times> 'w) exec"
where
  "backtrace_print test sym_name trace_only current_dir fmt wr frames w =
     (if test then Ret (True, w)
      else print_fmt_backtrace sym_name trace_only current_dir fmt wr frames w)"

text \<open>The two functions whose names mark the ends of a short backtrace only call the closure.\<close>

definition rust_begin_short_backtrace :: "('w \<Rightarrow> 'a \<times> 'w) \<Rightarrow> 'w \<Rightarrow> 'a \<times> 'w" where
  "rust_begin_short_backtrace f w = (let (result, w') = f w in (result, w'))"

definition rust_end_short_backtrace :: "('w \<Rightarrow> 'a \<times> 'w) \<Rightarrow> 'w \<Rightarrow> 'a \<times> 'w" where
  "rust_end_short_backtrace f w = (let (result, w') = f w in (result, w'))"

text \<open>
  A backtrace asked for while one is being printed (by a panic of the writer, say) does not wait:
  the mutex of this platform panics.
\<close>

lemma nested_backtrace_lock_panics:
  assumes "backtrace_lock m = (m1, Done ())"
  shows "backtrace_lock m1 = (m1, Unwind ''cannot recursively acquire mutex'')"
    and "backtrace_lock (mutex_unlock m1) = (m1, Done ())"
  using assms by (auto simp: backtrace_lock_def mutex_lock_def mutex_unlock_def Let_def split: if_splits)

end
