(* ===== verification/Std_Time.thy ===== *)
theory Std_Time
  imports Prelude
begin

text \<open>
  Times of the standard library port (\<open>std/sys-src/time\<close>): instants and system times are
  durations since a fixed point. The duration is the library's: whole seconds in 64 bits and
  nanoseconds below a thousand million.
\<close>

section \<open>Durations\<close>

record duration =
  secs :: u64
  nanos :: u32

definition NANOS_PER_SEC :: u32 where "NANOS_PER_SEC = 1000000000"

definition duration_checked_add :: "duration \<Rightarrow> duration \<Rightarrow> duration option" where
  "duration_checked_add a b =
     (case checked_add (secs a) (secs b) of
        None \<Rightarrow> None
      | Some s \<Rightarrow>
          let n = nanos a + nanos b
          in if NANOS_PER_SEC \<le> n
             then (case checked_add s 1 of
                     None \<Rightarrow> None
                   | Some s' \<Rightarrow> Some \<lparr> secs = s', nanos = n - NANOS_PER_SEC \<rparr>)
             else Some \<lparr> secs = s, nanos = n \<rparr>)"

definition duration_checked_sub :: "duration \<Rightarrow> duration \<Rightarrow> duration option" where
  "duration_checked_sub a b =
     (case checked_sub (secs a) (secs b) of
        None \<Rightarrow> None
      | Some s \<Rightarrow>
          if nanos b \<le> nanos a then Some \<lparr> secs = s, nanos = nanos a - nanos b \<rparr>
          else (case checked_sub s 1 of
                  None \<Rightarrow> None
                | Some s' \<Rightarrow> Some \<lparr> secs = s', nanos = nanos a + NANOS_PER_SEC - nanos b \<rparr>))"

text \<open>The subtraction operator panics where the checked one fails.\<close>

definition duration_sub :: "duration \<Rightarrow> duration \<Rightarrow> duration exec" where
  "duration_sub a b =
     (case duration_checked_sub a b of
        Some d \<Rightarrow> Ret d | None \<Rightarrow> Panic ''overflow when subtracting durations'')"

section \<open>Instants and system times\<close>

record instant = instant_since :: duration
record system_time = system_since :: duration

text \<open>
  All three types derive their order from the fields in the order they are declared; the
  classes make the library's facts about linear orders available for times.
\<close>

instantiation duration_ext :: (linorder) linorder
begin

definition less_duration_ext :: "'a duration_scheme \<Rightarrow> 'a duration_scheme \<Rightarrow> bool" where
  "less_duration_ext a b \<longleftrightarrow>
     secs a < secs b \<or> secs a = secs b \<and>
       (nanos a < nanos b \<or> nanos a = nanos b \<and> duration.more a < duration.more b)"

definition less_eq_duration_ext :: "'a duration_scheme \<Rightarrow> 'a duration_scheme \<Rightarrow> bool" where
  "less_eq_duration_ext a b \<longleftrightarrow> a < b \<or> a = b"

instance
proof
  fix a b :: "'a duration_scheme"
  show "a \<le> b \<or> b \<le> a"
    by (auto simp: less_duration_ext_def less_eq_duration_ext_def not_less_iff_gr_or_eq intro: duration.equality)
qed (auto simp: less_duration_ext_def less_eq_duration_ext_def)

end

instantiation instant_ext :: (linorder) linorder
begin

definition less_instant_ext :: "'a instant_scheme \<Rightarrow> 'a instant_scheme \<Rightarrow> bool" where
  "less_instant_ext a b \<longleftrightarrow>
     instant_since a < instant_since b
     \<or> instant_since a = instant_since b \<and> instant.more a < instant.more b"

definition less_eq_instant_ext :: "'a instant_scheme \<Rightarrow> 'a instant_scheme \<Rightarrow> bool" where
  "less_eq_instant_ext a b \<longleftrightarrow> a < b \<or> a = b"

instance
proof
  fix a b :: "'a instant_scheme"
  show "a \<le> b \<or> b \<le> a"
    by (auto simp: less_instant_ext_def less_eq_instant_ext_def not_less_iff_gr_or_eq intro: instant.equality)
qed (auto simp: less_instant_ext_def less_eq_instant_ext_def)

end

instantiation system_time_ext :: (linorder) linorder
begin

definition less_system_time_ext :: "'a system_time_scheme \<Rightarrow> 'a system_time_scheme \<Rightarrow> bool" where
  "less_system_time_ext a b \<longleftrightarrow>
     system_since a < system_since b
     \<or> system_since a = system_since b \<and> system_time.more a < system_time.more b"

definition less_eq_system_time_ext :: "'a system_time_scheme \<Rightarrow> 'a system_time_scheme \<Rightarrow> bool" where
  "less_eq_system_time_ext a b \<longleftrightarrow> a < b \<or> a = b"

instance
proof
  fix a b :: "'a system_time_scheme"
  show "a \<le> b \<or> b \<le> a"
    by (auto simp: less_system_time_ext_def less_eq_system_time_ext_def not_less_iff_gr_or_eq intro: system_time.equality)
qed (auto simp: less_system_time_ext_def less_eq_system_time_ext_def)

end

lemmas time_order_defs =
  less_duration_ext_def less_eq_duration_ext_def
  less_instant_ext_def less_eq_instant_ext_def
  less_system_time_ext_def less_eq_system_time_ext_def

lemma instant_le_iff: "a \<le> b \<longleftrightarrow> instant_since a \<le> instant_since (b :: instant)"
  by (cases a; cases b) (auto simp: less_instant_ext_def less_eq_instant_ext_def)

lemma system_time_le_iff: "a \<le> b \<longleftrightarrow> system_since a \<le> system_since (b :: system_time)"
  by (cases a; cases b) (auto simp: less_system_time_ext_def less_eq_system_time_ext_def)

definition UNIX_EPOCH :: system_time where
  "UNIX_EPOCH = \<lparr> system_since = \<lparr> secs = 0, nanos = 0 \<rparr> \<rparr>"

definition SYSTEM_TIME_MAX :: system_time where
  "SYSTEM_TIME_MAX = \<lparr> system_since = \<lparr> secs = -1, nanos = NANOS_PER_SEC - 1 \<rparr> \<rparr>"

definition SYSTEM_TIME_MIN :: system_time where
  "SYSTEM_TIME_MIN = \<lparr> system_since = \<lparr> secs = 0, nanos = 0 \<rparr> \<rparr>"

definition instant_now :: "instant exec" where
  "instant_now = Panic ''time not implemented on this platform''"

definition system_time_now :: "system_time exec" where
  "system_time_now = Panic ''time not implemented on this platform''"

definition checked_sub_instant :: "instant \<Rightarrow> instant \<Rightarrow> duration option" where
  "checked_sub_instant a b = duration_checked_sub (instant_since a) (instant_since b)"

definition instant_checked_add :: "instant \<Rightarrow> duration \<Rightarrow> instant option" where
  "instant_checked_add a d =
     map_option (\<lambda>s. \<lparr> instant_since = s \<rparr>) (duration_checked_add (instant_since a) d)"

definition instant_checked_sub :: "instant \<Rightarrow> duration \<Rightarrow> instant option" where
  "instant_checked_sub a d =
     map_option (\<lambda>s. \<lparr> instant_since = s \<rparr>) (duration_checked_sub (instant_since a) d)"

text \<open>\<open>sub_time\<close>: the difference, or as an error the difference the other way round.\<close>

definition sub_time :: "system_time \<Rightarrow> system_time \<Rightarrow> (duration + duration) exec" where
  "sub_time a b =
     (case duration_checked_sub (system_since a) (system_since b) of
        Some d \<Rightarrow> Ret (Inr d)
      | None \<Rightarrow> bind_exec (duration_sub (system_since b) (system_since a)) (\<lambda>d. Ret (Inl d)))"

definition system_checked_add :: "system_time \<Rightarrow> duration \<Rightarrow> system_time option" where
  "system_checked_add a d =
     map_option (\<lambda>s. \<lparr> system_since = s \<rparr>) (duration_checked_add (system_since a) d)"

definition system_checked_sub :: "system_time \<Rightarrow> duration \<Rightarrow> system_time option" where
  "system_checked_sub a d =
     map_option (\<lambda>s. \<lparr> system_since = s \<rparr>) (duration_checked_sub (system_since a) d)"

section \<open>Durations as numbers\<close>

definition duration_ok :: "duration \<Rightarrow> bool" where
  "duration_ok d \<longleftrightarrow> nanos d < NANOS_PER_SEC"

definition total_nanos :: "duration \<Rightarrow> nat" where
  "total_nanos d = unat (secs d) * 1000000000 + unat (nanos d)"

lemma duration_ok_nat: "duration_ok d \<longleftrightarrow> unat (nanos d) < 1000000000"
  by (simp add: duration_ok_def NANOS_PER_SEC_def word_less_nat_alt)

lemma checked_sub_unat: "checked_sub a b = Some c \<longleftrightarrow> unat b \<le> unat a \<and> c = a - b"
  by (auto simp: checked_sub_def word_le_nat_alt)

lemma checked_sub_None: "checked_sub a b = None \<longleftrightarrow> unat a < unat b"
  by (auto simp: checked_sub_def word_le_nat_alt)

text \<open>The checked operations are exact: they fail only where the result cannot be a duration.\<close>

lemma duration_checked_sub_Some:
  assumes "duration_ok a" "duration_ok b" "duration_checked_sub a b = Some d"
  shows "duration_ok d \<and> total_nanos d + total_nanos b = total_nanos a"
proof -
  from assms(3) have s: "unat (secs b) \<le> unat (secs a)"
    by (auto simp: duration_checked_sub_def checked_sub_unat split: option.splits)
  then have us: "unat (secs a - secs b) = unat (secs a) - unat (secs b)"
    by (simp add: unat_sub word_le_nat_alt)
  show ?thesis
  proof (cases "nanos b \<le> nanos a")
    case True
    then have "d = \<lparr> secs = secs a - secs b, nanos = nanos a - nanos b \<rparr>"
      using assms(3) s by (simp add: duration_checked_sub_def checked_sub_def word_le_nat_alt)
    moreover have "unat (nanos a - nanos b) = unat (nanos a) - unat (nanos b)"
      using True by (simp add: unat_sub)
    ultimately show ?thesis
      using assms(1) s us True by (auto simp: duration_ok_nat total_nanos_def word_le_nat_alt)
  next
    case False
    have one: "1 \<le> unat (secs a - secs b)"
      and d: "d = \<lparr> secs = secs a - secs b - 1, nanos = nanos a + NANOS_PER_SEC - nanos b \<rparr>"
      using assms(3) s False
      by (auto simp: duration_checked_sub_def checked_sub_def word_le_nat_alt split: if_splits)
    have ab: "unat (nanos a) < 1000000000" "unat (nanos b) < 1000000000" "unat (nanos a) < unat (nanos b)"
      using assms(1,2) False by (auto simp: duration_ok_nat word_le_nat_alt)
    have "unat (nanos a + NANOS_PER_SEC) = unat (nanos a) + 1000000000"
      using ab by (simp add: NANOS_PER_SEC_def unat_word_ariths)
    then have n: "unat (nanos a + NANOS_PER_SEC - nanos b) = unat (nanos a) + 1000000000 - unat (nanos b)"
      using ab by (simp add: unat_sub word_le_nat_alt)
    have "unat (secs a - secs b - 1) = unat (secs a) - unat (secs b) - 1"
      using one us by (simp add: unat_sub word_le_nat_alt)
    then show ?thesis
      using n ab one us s by (auto simp: d duration_ok_nat total_nanos_def)
  qed
qed

text \<open>The derived order compares the numbers of nanoseconds, and decides the subtraction.\<close>

lemma duration_less_iff:
  assumes "duration_ok a" "duration_ok b"
  shows "a < b \<longleftrightarrow> total_nanos a < total_nanos b"
  using assms
  by (cases a; cases b)
     (auto simp: less_duration_ext_def total_nanos_def duration_ok_nat word_less_nat_alt
        word_unat_eq_iff)

lemma duration_checked_sub_None: "duration_checked_sub a b = None \<longleftrightarrow> a < (b :: duration)"
proof -
  have one: "checked_sub (secs a - secs b) 1 = None \<longleftrightarrow> secs a = secs b" if "secs b \<le> secs a"
    using that by (auto simp: checked_sub_None unat_sub word_le_nat_alt word_unat_eq_iff)
  show ?thesis
    using one
    by (cases a; cases b)
       (auto simp: duration_checked_sub_def checked_sub_def less_duration_ext_def
          split: if_splits option.splits)
qed

text \<open>
  C40: \<open>sub_time\<close> is the exact difference of two system times: as a value when the first is not
  earlier, as an error the other way round when it is; it never panics.
\<close>

theorem sub_time_exact:
  assumes "duration_ok (system_since a)" and "duration_ok (system_since b)"
  shows "\<exists>d. duration_ok d
    \<and> (if b \<le> a
       then sub_time a b = Ret (Inr d)
         \<and> total_nanos d + total_nanos (system_since b) = total_nanos (system_since a)
       else sub_time a b = Ret (Inl d)
         \<and> total_nanos d + total_nanos (system_since a) = total_nanos (system_since b))"
proof (cases "duration_checked_sub (system_since a) (system_since b)")
  case (Some d)
  then have "b \<le> a"
    using duration_checked_sub_None[of "system_since a" "system_since b"] by (simp add: system_time_le_iff not_less)
  with duration_checked_sub_Some[OF assms Some] Some show ?thesis
    by (intro exI[where x = d]) (auto simp: sub_time_def)
next
  case None
  then have less: "system_since a < system_since b"
    by (simp add: duration_checked_sub_None)
  then obtain d where d: "duration_checked_sub (system_since b) (system_since a) = Some d"
    using duration_checked_sub_None[of "system_since b" "system_since a"]
    by (cases "duration_checked_sub (system_since b) (system_since a)") auto
  with duration_checked_sub_Some[OF assms(2,1) d] less None show ?thesis
    by (intro exI[where x = d]) (auto simp: sub_time_def duration_sub_def system_time_le_iff)
qed

theorem sub_time_exact_witness:
  "\<exists>d. duration_ok d
     \<and> sub_time \<lparr> system_since = \<lparr> secs = 1, nanos = 700000000 \<rparr> \<rparr>
         \<lparr> system_since = \<lparr> secs = 3, nanos = 200000000 \<rparr> \<rparr> = Ret (Inl d)
     \<and> total_nanos d = 1500000000"
  using sub_time_exact[of "\<lparr> system_since = \<lparr> secs = 1, nanos = 700000000 \<rparr> \<rparr>"
      "\<lparr> system_since = \<lparr> secs = 3, nanos = 200000000 \<rparr> \<rparr>"]
  by (simp add: duration_ok_nat total_nanos_def time_order_defs)

end
