(* ===== verification/Std_Thread.thy ===== *)
theory Std_Thread
  imports Std_Time
begin

text \<open>
  Sleeping until a deadline (\<open>std/sys-src/thread/mod.rs\<close>). Reading the clock and sleeping are
  arguments of the model: on this platform both panic, and the loop is written for a platform
  where they do not.
\<close>

definition DEFAULT_MIN_STACK_SIZE :: usize where "DEFAULT_MIN_STACK_SIZE = 64 * 1024"

definition thread_sleep :: "duration \<Rightarrow> 'w \<Rightarrow> 'w exec" where
  "thread_sleep d w = Panic ''can't sleep''"

text \<open>The loop may run for ever, so its result is optional.\<close>

partial_function (option) sleep_until ::
  "('w \<Rightarrow> (instant \<times> 'w) exec) \<Rightarrow> (duration \<Rightarrow> 'w \<Rightarrow> 'w exec) \<Rightarrow> instant \<Rightarrow> 'w \<Rightarrow> 'w exec option"
where
  "sleep_until now sleep deadline w =
     (case now w of
        Ret (t, w1) \<Rightarrow>
          (case checked_sub_instant deadline t of
             None \<Rightarrow> Some (Ret w1)
           | Some delay \<Rightarrow>
               (case sleep delay w1 of
                  Ret w2 \<Rightarrow> sleep_until now sleep deadline w2
                | Panic m \<Rightarrow> Some (Panic m)
                | Undefined \<Rightarrow> Some Undefined))
      | Panic m \<Rightarrow> Some (Panic m)
      | Undefined \<Rightarrow> Some Undefined)"

lemma sleep_until_on_this_platform:
  "sleep_until (\<lambda>w. bind_exec instant_now (\<lambda>t. Ret (t, w))) thread_sleep deadline w
     = Some (Panic ''time not implemented on this platform'')"
  by (simp add: sleep_until.simps instant_now_def)

lemma past_deadline: "checked_sub_instant a b = None \<longleftrightarrow> a < (b :: instant)"
  by (simp add: checked_sub_instant_def duration_checked_sub_None instant_le_iff flip: not_le)

text \<open>Instants count nanoseconds.\<close>

definition instant_nanos :: "instant \<Rightarrow> nat" where
  "instant_nanos t = total_nanos (instant_since t)"

definition instant_ok :: "instant \<Rightarrow> bool" where
  "instant_ok t \<longleftrightarrow> duration_ok (instant_since t)"

lemma instant_less_iff:
  "instant_ok a \<Longrightarrow> instant_ok b \<Longrightarrow> a < b \<longleftrightarrow> instant_nanos a < instant_nanos b"
  unfolding instant_ok_def instant_nanos_def
  by (subst duration_less_iff [symmetric]) (auto simp: instant_le_iff simp flip: not_le)

definition time_left :: "instant \<Rightarrow> instant \<Rightarrow> duration \<Rightarrow> bool" where
  "time_left deadline t d \<longleftrightarrow> duration_ok d \<and> total_nanos d + instant_nanos t = instant_nanos deadline"

lemma total_nanos_inject:
  assumes "duration_ok a" "duration_ok b" "total_nanos a = total_nanos b"
  shows "a = b"
  using duration_less_iff [OF assms(1,2)] duration_less_iff [OF assms(2,1)] assms(3)
    less_linear [of a b] by simp

lemma checked_sub_instant_iff:
  assumes "instant_ok deadline" "instant_ok t"
  shows "checked_sub_instant deadline t = Some d \<longleftrightarrow> \<not> deadline < t \<and> time_left deadline t d"
proof
  assume d: "checked_sub_instant deadline t = Some d"
  then have "\<not> deadline < t" using past_deadline [of deadline t] by auto
  with duration_checked_sub_Some [OF _ _ d [unfolded checked_sub_instant_def]] assms
  show "\<not> deadline < t \<and> time_left deadline t d"
    by (simp add: time_left_def instant_nanos_def instant_ok_def)
next
  assume h: "\<not> deadline < t \<and> time_left deadline t d"
  then obtain d' where d': "checked_sub_instant deadline t = Some d'"
    using past_deadline [of deadline t] by (cases "checked_sub_instant deadline t") auto
  with duration_checked_sub_Some [OF _ _ d' [unfolded checked_sub_instant_def]] assms
  have "time_left deadline t d'" by (simp add: time_left_def instant_nanos_def instant_ok_def)
  with h have "d' = d" by (intro total_nanos_inject) (auto simp: time_left_def)
  with d' show "checked_sub_instant deadline t = Some d" by simp
qed

text \<open>
  One turn of waiting, as it is meant: the clock is not past the deadline, and the thread sleeps
  for the time that is left. How long the sleep really takes, and on which clock, is up to \<open>sleep\<close>.
\<close>

inductive waits ::
  "('w \<Rightarrow> (instant \<times> 'w) exec) \<Rightarrow> (duration \<Rightarrow> 'w \<Rightarrow> 'w exec) \<Rightarrow> instant \<Rightarrow> 'w \<Rightarrow> 'w \<Rightarrow> bool"
  for now sleep deadline
where
  turn: "now w = Ret (t, w1) \<Longrightarrow> \<not> deadline < t \<Longrightarrow> time_left deadline t d \<Longrightarrow> sleep d w1 = Ret w2 \<Longrightarrow>
    waits now sleep deadline w w2"

text \<open>The clock shows well-formed instants.\<close>

definition clock_ok :: "('w \<Rightarrow> (instant \<times> 'w) exec) \<Rightarrow> bool" where
  "clock_ok now \<longleftrightarrow> (\<forall>w t w1. now w = Ret (t, w1) \<longrightarrow> instant_ok t)"

lemma sleep_until_stops:
  "now w = Ret (t, w') \<Longrightarrow> deadline < t \<Longrightarrow> sleep_until now sleep deadline w = Some (Ret w')"
  by (simp add: sleep_until.simps past_deadline [symmetric])

lemma sleep_until_turn:
  assumes "clock_ok now" "instant_ok deadline" "waits now sleep deadline w w2"
  shows "sleep_until now sleep deadline w = sleep_until now sleep deadline w2"
  using assms(3)
proof cases
  case (turn t w1 d)
  have "instant_ok t" using assms(1) turn(1) by (auto simp: clock_ok_def)
  then have "checked_sub_instant deadline t = Some d"
    using checked_sub_instant_iff [OF assms(2)] turn(2,3) by simp
  with turn show ?thesis by (subst sleep_until.simps) simp
qed

lemma sleep_until_turns:
  assumes "clock_ok now" "instant_ok deadline" "(waits now sleep deadline)\<^sup>*\<^sup>* w v"
  shows "sleep_until now sleep deadline w = sleep_until now sleep deadline v"
  using assms(3) by induction (simp_all add: sleep_until_turn [OF assms(1,2)])

lemma sleep_until_result:
  assumes "clock_ok now" "instant_ok deadline" "sleep_until now sleep deadline w = Some (Ret w')"
  shows "\<exists>v t. (waits now sleep deadline)\<^sup>*\<^sup>* w v \<and> now v = Ret (t, w') \<and> deadline < t"
proof -
  let ?P = "\<lambda>now sleep deadline w r. clock_ok now \<longrightarrow> instant_ok deadline \<longrightarrow> (\<forall>w'. r = Ret w' \<longrightarrow>
    (\<exists>v t. (waits now sleep deadline)\<^sup>*\<^sup>* w v \<and> now v = Ret (t, w') \<and> deadline < t))"
  have "?P now sleep deadline w (Ret w')"
  proof (rule sleep_until.raw_induct [of ?P, OF _ assms(3)], intro impI allI)
    fix rec :: "('w \<Rightarrow> (instant \<times> 'w) exec) \<Rightarrow> (duration \<Rightarrow> 'w \<Rightarrow> 'w exec) \<Rightarrow> instant \<Rightarrow> 'w \<Rightarrow> 'w exec option"
      and now sleep deadline w r w'
    assume later: "\<And>now sleep deadline w r. rec now sleep deadline w = Some r \<Longrightarrow> ?P now sleep deadline w r"
      and step: "(case now w of
        Ret (t, w1) \<Rightarrow>
          (case checked_sub_instant deadline t of
             None \<Rightarrow> Some (Ret w1)
           | Some delay \<Rightarrow>
               (case sleep delay w1 of
                  Ret w2 \<Rightarrow> rec now sleep deadline w2
                | Panic m \<Rightarrow> Some (Panic m)
                | Undefined \<Rightarrow> Some Undefined))
        | Panic m \<Rightarrow> Some (Panic m)
        | Undefined \<Rightarrow> Some Undefined) = Some r"
      and ok: "clock_ok now" "instant_ok deadline" and r: "r = Ret w'"
    obtain t w1 where n: "now w = Ret (t, w1)" using step r by (cases "now w") auto
    then have t: "instant_ok t" using ok(1) by (auto simp: clock_ok_def)
    show "\<exists>v t. (waits now sleep deadline)\<^sup>*\<^sup>* w v \<and> now v = Ret (t, w') \<and> deadline < t"
    proof (cases "checked_sub_instant deadline t")
      case None
      then show ?thesis using step r n past_deadline [of deadline t] by auto
    next
      case (Some d)
      then obtain w2 where s: "sleep d w1 = Ret w2" "rec now sleep deadline w2 = Some (Ret w')"
        using step r n by (cases "sleep d w1") auto
      have "waits now sleep deadline w w2"
        using n s(1) Some checked_sub_instant_iff [OF ok(2) t] by (blast intro: turn)
      then show ?thesis
        using later [OF s(2)] ok by (blast intro: converse_rtranclp_into_rtranclp)
    qed
  qed
  with assms show ?thesis by simp
qed

text \<open>Progress is enough: a clock that is not past the deadline shows a later time after some turns.\<close>

definition clock_moves ::
  "('w \<Rightarrow> (instant \<times> 'w) exec) \<Rightarrow> (duration \<Rightarrow> 'w \<Rightarrow> 'w exec) \<Rightarrow> instant \<Rightarrow> 'w \<Rightarrow> bool" where
  "clock_moves now sleep deadline w \<longleftrightarrow>
     (\<forall>v. (waits now sleep deadline)\<^sup>*\<^sup>* w v \<longrightarrow>
        (\<exists>t v1. now v = Ret (t, v1) \<and>
          (deadline < t \<or> (\<exists>u t' u1. (waits now sleep deadline)\<^sup>*\<^sup>* v u \<and> now u = Ret (t', u1) \<and> t < t'))))"

lemma moving_clock_passes:
  assumes ok: "clock_ok now" "instant_ok deadline" and moves: "clock_moves now sleep deadline w"
    and v: "(waits now sleep deadline)\<^sup>*\<^sup>* w v" "now v = Ret (t, v1)"
  shows "\<exists>u t' u1. (waits now sleep deadline)\<^sup>*\<^sup>* v u \<and> now u = Ret (t', u1) \<and> deadline < t'"
  using v
proof (induction "instant_nanos deadline - instant_nanos t" arbitrary: v t v1 rule: less_induct)
  case less
  have t: "instant_ok t" using ok(1) less.prems(2) by (auto simp: clock_ok_def)
  show ?case
  proof (cases "deadline < t")
    case True
    then show ?thesis using less.prems(2) by blast
  next
    case False
    with moves less.prems obtain u t' u1 where u: "(waits now sleep deadline)\<^sup>*\<^sup>* v u"
      "now u = Ret (t', u1)" "t < t'" unfolding clock_moves_def by fastforce
    then have t': "instant_ok t'" using ok(1) by (auto simp: clock_ok_def)
    show ?thesis
    proof (cases "deadline < t'")
      case True
      then show ?thesis using u by blast
    next
      case False
      have "instant_nanos t < instant_nanos t'" "\<not> instant_nanos deadline < instant_nanos t'"
        using u(3) False instant_less_iff [OF t t'] instant_less_iff [OF ok(2) t'] by simp_all
      then have "instant_nanos deadline - instant_nanos t' < instant_nanos deadline - instant_nanos t"
        by simp
      from less.hyps [OF this rtranclp_trans [OF less.prems(1) u(1)] u(2)] u(1)
      show ?thesis by (blast intro: rtranclp_trans)
    qed
  qed
qed

text \<open>
  C36: \<open>sleep_until\<close> returns exactly when the clock, read again after some number of sleeps, each for
  the time then left, is past the deadline, and it returns at that reading, never before. This asks
  nothing of \<open>sleep\<close>, whose clock need not be the one that is read. It is enough for it to return
  that the clock that is read does not stand still for ever below the deadline.
\<close>

theorem sleep_until_returns_after_deadline:
  assumes "clock_ok now" and "instant_ok deadline"
  shows "(sleep_until now sleep deadline w = Some (Ret w') \<longleftrightarrow>
      (\<exists>v t. (waits now sleep deadline)\<^sup>*\<^sup>* w v \<and> now v = Ret (t, w') \<and> deadline < t)) \<and>
    (clock_moves now sleep deadline w \<longrightarrow> (\<exists>u. sleep_until now sleep deadline w = Some (Ret u)))"
proof (intro conjI iffI impI)
  show "\<exists>v t. (waits now sleep deadline)\<^sup>*\<^sup>* w v \<and> now v = Ret (t, w') \<and> deadline < t"
    if "sleep_until now sleep deadline w = Some (Ret w')"
    by (rule sleep_until_result [OF assms that])
  show "sleep_until now sleep deadline w = Some (Ret w')"
    if "\<exists>v t. (waits now sleep deadline)\<^sup>*\<^sup>* w v \<and> now v = Ret (t, w') \<and> deadline < t"
    using that sleep_until_turns [OF assms] sleep_until_stops by metis
  show "\<exists>u. sleep_until now sleep deadline w = Some (Ret u)" if moves: "clock_moves now sleep deadline w"
  proof -
    obtain t w1 where "now w = Ret (t, w1)" using moves unfolding clock_moves_def by blast
    from moving_clock_passes [OF assms moves rtranclp.rtrancl_refl this]
    show ?thesis using sleep_until_turns [OF assms] sleep_until_stops by metis
  qed
qed

text \<open>A sleep that takes one second, whatever it is asked for: three of them pass the deadline.\<close>

definition second_clock :: "nat \<Rightarrow> (instant \<times> nat) exec" where
  "second_clock n = Ret (\<lparr> instant_since = \<lparr> secs = of_nat n, nanos = 0 \<rparr> \<rparr>, n)"

definition one_second :: "duration \<Rightarrow> nat \<Rightarrow> nat exec" where
  "one_second d n = Ret (Suc n)"

lemma second_clock_ok: "clock_ok second_clock" "instant_ok \<lparr> instant_since = \<lparr> secs = 3, nanos = 0 \<rparr> \<rparr>"
  by (auto simp: clock_ok_def second_clock_def instant_ok_def duration_ok_nat)

lemma one_second_turn:
  assumes "n \<le> 3"
  shows "waits second_clock one_second \<lparr> instant_since = \<lparr> secs = 3, nanos = 0 \<rparr> \<rparr> n (n + 1)"
proof (rule turn)
  show "second_clock n = Ret (\<lparr> instant_since = \<lparr> secs = of_nat n, nanos = 0 \<rparr> \<rparr>, n)"
    by (simp add: second_clock_def)
  have "n \<in> {0, 1, 2, 3}" using assms by auto
  then show "\<not> \<lparr> instant_since = \<lparr> secs = 3, nanos = 0 \<rparr> \<rparr>
      < (\<lparr> instant_since = \<lparr> secs = of_nat n, nanos = 0 \<rparr> \<rparr> :: instant)"
    "time_left \<lparr> instant_since = \<lparr> secs = 3, nanos = 0 \<rparr> \<rparr> \<lparr> instant_since = \<lparr> secs = of_nat n, nanos = 0 \<rparr> \<rparr>
      \<lparr> secs = of_nat (3 - n), nanos = 0 \<rparr>"
    by (auto simp: time_order_defs time_left_def duration_ok_nat total_nanos_def instant_nanos_def)
  show "one_second \<lparr> secs = of_nat (3 - n), nanos = 0 \<rparr> n = Ret (n + 1)"
    by (simp add: one_second_def)
qed

theorem sleep_until_returns_after_deadline_witness:
  "sleep_until second_clock one_second \<lparr> instant_since = \<lparr> secs = 3, nanos = 0 \<rparr> \<rparr> 1 = Some (Ret 4)"
proof -
  let ?w = "waits second_clock one_second \<lparr> instant_since = \<lparr> secs = 3, nanos = 0 \<rparr> \<rparr>"
  have "?w 1 2" "?w 2 3" "?w 3 4"
    using one_second_turn [of 1, unfolded one_add_one] one_second_turn [of 2] one_second_turn [of 3]
    by simp_all
  then have turns: "?w\<^sup>*\<^sup>* 1 4" by (meson converse_rtranclp_into_rtranclp r_into_rtranclp)
  have "second_clock 4 = Ret (\<lparr> instant_since = \<lparr> secs = 4, nanos = 0 \<rparr> \<rparr>, 4)"
    "(\<lparr> instant_since = \<lparr> secs = 3, nanos = 0 \<rparr> \<rparr> :: instant) < \<lparr> instant_since = \<lparr> secs = 4, nanos = 0 \<rparr> \<rparr>"
    by (simp_all add: second_clock_def time_order_defs)
  with turns sleep_until_returns_after_deadline [OF second_clock_ok, of one_second 1 4]
  show ?thesis by blast
qed

end
