(* ===== verification/Std_Io.thy ===== *)
theory Std_Io
  imports Std_Path
begin

text \<open>
  The streams, arguments and error codes of the standard library port on a platform that has
  none (\<open>std/sys-src/stdio\<close>, \<open>args\<close>, \<open>paths\<close>, \<open>io\<close>, \<open>random\<close>): standard input is
  always at its end, standard output accepts and forgets everything, there are no arguments.
\<close>

section \<open>Standard input\<close>

definition READ_EXACT_EOF :: io_error where
  "READ_EXACT_EOF = \<lparr> io_kind = OtherError ''UnexpectedEof'', io_message = ''failed to fill whole buffer'' \<rparr>"

text \<open>Every operation returns the buffer it was given with its result.\<close>

definition stdin_read :: "u8 list \<Rightarrow> (io_error + usize) \<times> u8 list" where
  "stdin_read buf = (Inr 0, buf)"
definition stdin_read_buf :: "u8 list \<Rightarrow> (io_error + unit) \<times> u8 list" where
  "stdin_read_buf filled = (Inr (), filled)"
definition stdin_read_vectored :: "u8 list list \<Rightarrow> (io_error + usize) \<times> u8 list list" where
  "stdin_read_vectored bufs = (Inr 0, bufs)"
definition stdin_is_read_vectored :: bool where "stdin_is_read_vectored \<longleftrightarrow> False"
definition stdin_read_exact :: "u8 list \<Rightarrow> (io_error + unit) \<times> u8 list" where
  "stdin_read_exact buf = (if buf \<noteq> [] then Inl READ_EXACT_EOF else Inr (), buf)"
definition stdin_read_buf_exact :: "usize \<Rightarrow> io_error + unit" where
  "stdin_read_buf_exact capacity = (if capacity \<noteq> 0 then Inl READ_EXACT_EOF else Inr ())"
definition stdin_read_to_end :: "u8 list \<Rightarrow> (io_error + usize) \<times> u8 list" where
  "stdin_read_to_end buf = (Inr 0, buf)"
definition stdin_read_to_string :: "u8 list \<Rightarrow> (io_error + usize) \<times> u8 list" where
  "stdin_read_to_string buf = (Inr 0, buf)"
definition STDIN_BUF_SIZE :: usize where "STDIN_BUF_SIZE = 0"

section \<open>Standard output\<close>

definition stdout_write :: "u8 list \<Rightarrow> io_error + usize" where
  "stdout_write buf = Inr (of_nat (length buf))"
definition stdout_write_vectored :: "u8 list list \<Rightarrow> io_error + usize" where
  "stdout_write_vectored bufs = Inr (sum_list (map (\<lambda>b. of_nat (length b)) bufs))"
definition stdout_is_write_vectored :: bool where "stdout_is_write_vectored \<longleftrightarrow> True"
definition stdout_write_all :: "u8 list \<Rightarrow> io_error + unit" where "stdout_write_all buf = Inr ()"
definition stdout_write_all_vectored :: "u8 list list \<Rightarrow> io_error + unit" where
  "stdout_write_all_vectored bufs = Inr ()"
definition stdout_flush :: "io_error + unit" where "stdout_flush = Inr ()"
definition panic_output :: "u8 list option" where "panic_output = None"
definition is_ebadf :: "io_error \<Rightarrow> bool" where "is_ebadf err \<longleftrightarrow> True"

text \<open>Writing slices is writing what they hold together, and writing everything succeeds.\<close>

lemma stdout_write_vectored_concat: "stdout_write_vectored bufs = stdout_write (concat bufs)"
  by (induction bufs) (simp_all add: stdout_write_vectored_def stdout_write_def)

text \<open>Reading exactly and reading to the end agree that there is nothing.\<close>

lemma stdin_read_exact_iff: "fst (stdin_read_exact buf) = Inr () \<longleftrightarrow> length buf = 0"
  by (simp add: stdin_read_exact_def)

section \<open>Arguments, paths, errors\<close>

datatype arguments = Args

definition no_args :: arguments where "no_args = Args"
definition no_args_next :: "arguments \<Rightarrow> u8 list option \<times> arguments" where "no_args_next a = (None, a)"
definition no_args_next_back :: "arguments \<Rightarrow> u8 list option \<times> arguments" where "no_args_next_back a = (None, a)"
definition no_args_size_hint :: "arguments \<Rightarrow> usize \<times> usize option" where "no_args_size_hint a = (0, Some 0)"
definition no_args_len :: "arguments \<Rightarrow> usize" where "no_args_len a = 0"

definition chdir :: "path \<Rightarrow> (io_error + unit) exec" where "chdir p = Panic ''not implemented''"
definition split_paths :: "u8 list \<Rightarrow> unit exec" where "split_paths s = Panic ''unsupported''"
definition join_paths :: "path list \<Rightarrow> string + u8 list" where
  "join_paths ps = Inl ''not supported on this platform yet''"
definition current_exe :: "(io_error + path) exec" where "current_exe = Panic ''not implemented''"
definition temp_dir :: "path exec" where "temp_dir = Panic ''no filesystem on this platform''"
definition home_dir :: "path option" where "home_dir = None"

definition errno :: "32 word" where "errno = 0"
definition is_interrupted :: "32 word \<Rightarrow> bool" where "is_interrupted code \<longleftrightarrow> False"
definition decode_error_kind :: "32 word \<Rightarrow> io_error_kind" where
  "decode_error_kind code = OtherError ''Uncategorized''"
definition error_string :: "32 word \<Rightarrow> string" where "error_string code = ''operation successful''"
definition is_terminal :: "'a \<Rightarrow> bool" where "is_terminal x \<longleftrightarrow> False"

datatype copy_state = Ended u64 | Fallback u64

text \<open>The reader and the writer are not used: the caller copies by itself.\<close>

definition kernel_copy :: "'r \<Rightarrow> 'w \<Rightarrow> io_error + copy_state" where
  "kernel_copy r w = Inr (Fallback 0)"

section \<open>Random keys\<close>

definition fill_bytes :: "u8 list \<Rightarrow> u8 list exec" where
  "fill_bytes buf = Panic ''this target does not support random data generation''"

definition hashmap_random_keys :: "(u64 \<times> u64) exec" where
  "hashmap_random_keys =
     bind_exec (fill_bytes (replicate 16 0)) (\<lambda>buf. Ret (le_word (take 8 buf), le_word (drop 8 buf)))"

end
