(* ===== verification/Abi.thy ===== *)
theory Abi
  imports Helpers
begin

text \<open>
  The system calls of user programs (\<open>abi/src\<close>, \<open>abi/macros/src\<close>): the inline assembly that
  enters the kernel, and the derive macro that generates one function per call. The processor is
  a record of its registers; what the kernel does between \<open>syscall\<close> and \<open>sysret\<close> is an argument,
  as are the parser of attributes and the conversion of names to snake case, which belong to
  other crates.
\<close>

section \<open>The processor and inline assembly\<close>

datatype reg = RAX | RBX | RCX | RDX | RSI | RDI | RBP | RSP | R8 | R9 | R10 | R11 | R12 | R13 | R14 | R15

record cpu =
  regs :: "reg \<Rightarrow> u64"
  rip :: u64
  rflags :: u64

text \<open>The operands of an \<open>asm!\<close> block: registers that are only read, and registers that are written.\<close>

record asm_block =
  asm_in :: "(reg \<times> u64) list"
  asm_inlateout :: "(reg \<times> u64) list"
  asm_preserves_flags :: bool

definition load_operands :: "asm_block \<Rightarrow> cpu \<Rightarrow> cpu" where
  "load_operands b s =
     s\<lparr> regs := fold (\<lambda>(r, v) f. f(r := v)) (asm_in b @ asm_inlateout b) (regs s) \<rparr>"

text \<open>
  What the compiler relies on after a block: a register that is not an output holds what it held,
  and so do the flags when the block says so.
\<close>

definition asm_contract :: "asm_block \<Rightarrow> cpu \<Rightarrow> cpu \<Rightarrow> bool" where
  "asm_contract b before after \<longleftrightarrow>
     (\<forall>r. r \<notin> fst ` set (asm_inlateout b) \<longrightarrow> regs after r = regs before r)
     \<and> (asm_preserves_flags b \<longrightarrow> rflags after = rflags before)"

text \<open>
  The instruction, two bytes long, saves the return address in \<open>rcx\<close> and the flags in \<open>r11\<close>;
  \<open>sysret\<close> takes both from there. The jump to the kernel's entry point and the flags it starts
  with are part of the kernel's argument.
\<close>

definition syscall_entry :: "cpu \<Rightarrow> cpu" where
  "syscall_entry s = s\<lparr> regs := (regs s)(RCX := rip s + 2, R11 := rflags s) \<rparr>"

definition sysret_flags :: "u64 \<Rightarrow> u64" where
  "sysret_flags f = (f AND 0x3C7FD7) OR 2"

definition sysret :: "cpu \<Rightarrow> cpu" where
  "sysret s = s\<lparr> rip := regs s RCX, rflags := sysret_flags (regs s R11) \<rparr>"

definition run_syscall :: "(cpu \<Rightarrow> cpu) \<Rightarrow> asm_block \<Rightarrow> cpu \<Rightarrow> usize \<times> cpu" where
  "run_syscall kern b s =
     (let s' = sysret (kern (syscall_entry (load_operands b s))) in (regs s' RAX, s'))"

definition asm_syscall :: "usize \<Rightarrow> (reg \<times> u64) list \<Rightarrow> asm_block" where
  "asm_syscall sys ins = \<lparr> asm_in = ins, asm_inlateout = [(RAX, sys)], asm_preserves_flags = True \<rparr>"

definition syscall0 :: "(cpu \<Rightarrow> cpu) \<Rightarrow> usize \<Rightarrow> cpu \<Rightarrow> usize \<times> cpu" where
  "syscall0 kern sys = run_syscall kern (asm_syscall sys [])"
definition syscall1 :: "(cpu \<Rightarrow> cpu) \<Rightarrow> usize \<Rightarrow> usize \<Rightarrow> cpu \<Rightarrow> usize \<times> cpu" where
  "syscall1 kern sys a0 = run_syscall kern (asm_syscall sys [(RDI, a0)])"
definition syscall2 :: "(cpu \<Rightarrow> cpu) \<Rightarrow> usize \<Rightarrow> usize \<Rightarrow> usize \<Rightarrow> cpu \<Rightarrow> usize \<times> cpu" where
  "syscall2 kern sys a0 a1 = run_syscall kern (asm_syscall sys [(RDI, a0), (RSI, a1)])"
definition syscall3 ::
  "(cpu \<Rightarrow> cpu) \<Rightarrow> usize \<Rightarrow> usize \<Rightarrow> usize \<Rightarrow> usize \<Rightarrow> cpu \<Rightarrow> usize \<times> cpu" where
  "syscall3 kern sys a0 a1 a2 =
     run_syscall kern (asm_syscall sys [(RDI, a0), (RSI, a1), (RDX, a2)])"
definition syscall4 ::
  "(cpu \<Rightarrow> cpu) \<Rightarrow> usize \<Rightarrow> usize \<Rightarrow> usize \<Rightarrow> usize \<Rightarrow> usize \<Rightarrow> cpu \<Rightarrow> usize \<times> cpu" where
  "syscall4 kern sys a0 a1 a2 a3 =
     run_syscall kern (asm_syscall sys [(RDI, a0), (RSI, a1), (RDX, a2), (R10, a3)])"
definition syscall5 ::
  "(cpu \<Rightarrow> cpu) \<Rightarrow> usize \<Rightarrow> usize \<Rightarrow> usize \<Rightarrow> usize \<Rightarrow> usize \<Rightarrow> usize \<Rightarrow> cpu \<Rightarrow> usize \<times> cpu" where
  "syscall5 kern sys a0 a1 a2 a3 a4 =
     run_syscall kern (asm_syscall sys [(RDI, a0), (RSI, a1), (RDX, a2), (R10, a3), (R8, a4)])"
definition syscall6 ::
  "(cpu \<Rightarrow> cpu) \<Rightarrow> usize \<Rightarrow> usize \<Rightarrow> usize \<Rightarrow> usize \<Rightarrow> usize \<Rightarrow> usize \<Rightarrow> usize \<Rightarrow> cpu \<Rightarrow> usize \<times> cpu" where
  "syscall6 kern sys a0 a1 a2 a3 a4 a5 =
     run_syscall kern
       (asm_syscall sys [(RDI, a0), (RSI, a1), (RDX, a2), (R10, a3), (R8, a4), (R9, a5)])"

text \<open>On other processors every call panics with its arguments.\<close>

definition digits_text :: "usize \<Rightarrow> string" where
  "digits_text n = map (\<lambda>b. char_of (unat b)) (decimal (unat n))"

fun comma_separated :: "string list \<Rightarrow> string" where
  "comma_separated [] = []"
| "comma_separated [s] = s"
| "comma_separated (s # ss) = s @ '', '' @ comma_separated ss"

definition unsupported_syscall :: "usize \<Rightarrow> usize list \<Rightarrow> usize exec" where
  "unsupported_syscall sys args =
     Panic (''not implemented: '' @ comma_separated (map digits_text (sys # args)))"

section \<open>The derive macro\<close>

text \<open>
  A variant of the enumeration: its name, whether it has no fields, and its attributes, each with
  the result of parsing its content as a list of identifiers.
\<close>

datatype macro_error =
    OnlyUnitVariant
  | DuplicateArgs
  | TooManyArguments nat
  | SyntaxError string

record variant =
  v_ident :: string
  v_unit :: bool
  v_attrs :: "(string \<times> (string + string list)) list"

record generated =
  g_name :: string
  g_params :: "string list"
  g_driver :: nat
  g_variant :: string

definition error_text :: "macro_error \<Rightarrow> string" where
  "error_text e =
     (case e of
        OnlyUnitVariant \<Rightarrow> ''Only unit-variant is supported!''
      | DuplicateArgs \<Rightarrow> ''Duplicate `args(..)`!''
      | TooManyArguments n \<Rightarrow>
          ''Too many arguments ('' @ digits_text (of_nat n) @ ''); maximum is 5!''
      | SyntaxError m \<Rightarrow> m)"

fun collect_args ::
  "(string \<times> (string + string list)) list \<Rightarrow> string list option \<Rightarrow> macro_error + string list option"
where
  "collect_args [] args = Inr args"
| "collect_args ((path, content) # attrs) args =
     (if path = ''args''
      then (case content of
              Inl e \<Rightarrow> Inl (SyntaxError e)
            | Inr ids \<Rightarrow> if args \<noteq> None then Inl DuplicateArgs else collect_args attrs (Some ids))
      else collect_args attrs args)"

definition generate_function :: "(string \<Rightarrow> string) \<Rightarrow> variant \<Rightarrow> macro_error + generated" where
  "generate_function snake v =
     (if \<not> v_unit v then Inl OnlyUnitVariant
      else (case collect_args (v_attrs v) None of
              Inl e \<Rightarrow> Inl e
            | Inr found \<Rightarrow>
                let args = (case found of None \<Rightarrow> [] | Some ids \<Rightarrow> ids)
                in if length args \<le> 5
                   then Inr \<lparr> g_name = snake (v_ident v), g_params = args, g_driver = length args,
                              g_variant = v_ident v \<rparr>
                   else Inl (TooManyArguments (length args))))"

fun execute :: "(string \<Rightarrow> string) \<Rightarrow> variant list \<Rightarrow> macro_error + generated list" where
  "execute snake [] = Inr []"
| "execute snake (v # vs) =
     (case generate_function snake v of
        Inl e \<Rightarrow> Inl e
      | Inr g \<Rightarrow> (case execute snake vs of Inl e \<Rightarrow> Inl e | Inr gs \<Rightarrow> Inr (g # gs)))"

text \<open>A call of a generated function: the driver of its arity, with the discriminant first.\<close>

definition call_generated ::
  "(cpu \<Rightarrow> cpu) \<Rightarrow> (string \<Rightarrow> usize) \<Rightarrow> generated \<Rightarrow> usize list \<Rightarrow> cpu \<Rightarrow> usize \<times> cpu"
where
  "call_generated kern discriminant g args =
     (let sys = discriminant (g_variant g) in
      (if g_driver g = 0 then syscall0 kern sys
       else if g_driver g = 1 then syscall1 kern sys (args ! 0)
       else if g_driver g = 2 then syscall2 kern sys (args ! 0) (args ! 1)
       else if g_driver g = 3 then syscall3 kern sys (args ! 0) (args ! 1) (args ! 2)
       else if g_driver g = 4 then syscall4 kern sys (args ! 0) (args ! 1) (args ! 2) (args ! 3)
       else syscall5 kern sys (args ! 0) (args ! 1) (args ! 2) (args ! 3) (args ! 4)))"

text \<open>The system calls of the repository.\<close>

definition syscall_variants :: "variant list" where
  "syscall_variants =
     [\<lparr> v_ident = ''Write'', v_unit = True, v_attrs = [(''args'', Inr [''file'', ''buffer'', ''len''])] \<rparr>,
      \<lparr> v_ident = ''Read'', v_unit = True, v_attrs = [(''args'', Inr [''file'', ''buffer'', ''len''])] \<rparr>]"

definition syscall_discriminant :: "string \<Rightarrow> usize" where
  "syscall_discriminant v = (if v = ''Write'' then 0 else 1)"

section \<open>What the macro accepts\<close>

definition args_attrs :: "variant \<Rightarrow> (string + string list) list" where
  "args_attrs v = map snd (filter (\<lambda>a. fst a = ''args'') (v_attrs v))"

definition declared_args :: "variant \<Rightarrow> string list" where
  "declared_args v = (case args_attrs v of [Inr ids] \<Rightarrow> ids | _ \<Rightarrow> [])"

text \<open>At most one argument list, which parses, with at most five names.\<close>

definition variant_ok :: "variant \<Rightarrow> bool" where
  "variant_ok v \<longleftrightarrow> v_unit v \<and> (args_attrs v = [] \<or> (\<exists>ids. args_attrs v = [Inr ids] \<and> length ids \<le> 5))"

lemma collect_args_filter:
  "collect_args attrs acc = collect_args (filter (\<lambda>a. fst a = ''args'') attrs) acc"
  by (induction attrs acc rule: collect_args.induct) (auto split: sum.splits)

lemma collect_args_Inr:
  "collect_args attrs None = Inr found \<longleftrightarrow>
     (case map snd (filter (\<lambda>a. fst a = ''args'') attrs) of
        [] \<Rightarrow> found = None | [Inr ids] \<Rightarrow> found = Some ids | _ \<Rightarrow> False)"
proof -
  have two: "collect_args (a # as) (Some ids) \<noteq> Inr found" if "fst a = ''args''" for a as ids
    using that by (cases a) (auto split: sum.splits)
  show ?thesis
  proof (cases "filter (\<lambda>a. fst a = ''args'') attrs")
    case Nil
    then show ?thesis by (subst collect_args_filter) auto
  next
    case (Cons a as)
    then have a: "fst a = ''args''" "\<forall>b\<in>set as. fst b = ''args''"
      by (auto dest: Cons_eq_filterD simp: filter_eq_Cons_iff)
    show ?thesis
    proof (cases as)
      case Nil
      then show ?thesis
        using Cons a by (subst collect_args_filter) (cases a, auto split: sum.splits)
    next
      case (Cons b bs)
      with \<open>filter _ attrs = a # as\<close> a show ?thesis
        using two[of b bs] by (subst collect_args_filter) (cases a, auto split: sum.splits)
    qed
  qed
qed

lemma generate_function_Inr:
  "generate_function snake v = Inr g \<longleftrightarrow>
     variant_ok v \<and> g = \<lparr> g_name = snake (v_ident v), g_params = declared_args v,
                          g_driver = length (declared_args v), g_variant = v_ident v \<rparr>"
proof -
  have found: "collect_args (v_attrs v) None = Inr found \<longleftrightarrow>
     (case args_attrs v of [] \<Rightarrow> found = None | [Inr ids] \<Rightarrow> found = Some ids | _ \<Rightarrow> False)" for found
    by (simp add: collect_args_Inr args_attrs_def)
  show ?thesis
  proof (cases "collect_args (v_attrs v) None")
    case (Inl e)
    then have "args_attrs v \<noteq> []" using found[of None] by auto
    moreover have "args_attrs v \<noteq> [Inr ids]" for ids using found[of "Some ids"] Inl by auto
    ultimately show ?thesis using Inl by (auto simp: generate_function_def variant_ok_def)
  next
    case (Inr x)
    with found[of x] show ?thesis
      by (auto simp: generate_function_def variant_ok_def declared_args_def Let_def
          split: list.splits option.splits sum.splits)
  qed
qed

lemma execute_Inr:
  "execute snake vs = Inr fs \<longleftrightarrow> list_all2 (\<lambda>v g. generate_function snake v = Inr g) vs fs"
proof (induction vs arbitrary: fs)
  case (Cons v vs)
  show ?case by (auto simp: list_all2_Cons1 Cons.IH[symmetric] split: sum.splits)
qed auto

text \<open>
  The macro accepts an enumeration exactly when no variant has fields and every variant has at
  most one list of arguments, with at most five names; then it generates one function for every
  variant, in order, with the arguments as its parameters and the driver of that arity.
\<close>

theorem execute_accepts:
  "execute snake vs = Inr fs \<longleftrightarrow>
     (\<forall>v \<in> set vs. variant_ok v)
     \<and> fs = map (\<lambda>v. \<lparr> g_name = snake (v_ident v), g_params = declared_args v,
                         g_driver = length (declared_args v), g_variant = v_ident v \<rparr>) vs"
proof -
  have "list_all2 (\<lambda>v g. P v \<and> g = f v) vs fs \<longleftrightarrow> (\<forall>v \<in> set vs. P v) \<and> fs = map f vs"
    for P and f :: "variant \<Rightarrow> generated"
    by (induction vs arbitrary: fs) (auto simp: list_all2_Cons1)
  then show ?thesis by (simp add: execute_Inr generate_function_Inr)
qed

theorem execute_accepts_witness:
  "execute (\<lambda>s. s) syscall_variants =
     Inr [\<lparr> g_name = ''Write'', g_params = [''file'', ''buffer'', ''len''], g_driver = 3, g_variant = ''Write'' \<rparr>,
          \<lparr> g_name = ''Read'', g_params = [''file'', ''buffer'', ''len''], g_driver = 3, g_variant = ''Read'' \<rparr>]"
  using execute_accepts[of "\<lambda>s. s" syscall_variants]
  by (simp add: syscall_variants_def variant_ok_def args_attrs_def declared_args_def)

section \<open>Entering the kernel\<close>

definition arg_regs :: "reg list" where "arg_regs = [RDI, RSI, RDX, R10, R8, R9]"

lemma execute_driver:
  "execute snake vs = Inr fs \<Longrightarrow> g \<in> set fs \<Longrightarrow> g_driver g = length (g_params g) \<and> g_driver g \<le> 5"
  by (induction vs arbitrary: fs)
     (auto simp: generate_function_Inr variant_ok_def declared_args_def split: sum.splits list.splits)

text \<open>
  C20: A call of a generated function enters the kernel with the discriminant of the variant in
  \<open>rax\<close> and the arguments in order in \<open>rdi\<close>, \<open>rsi\<close>, \<open>rdx\<close>, \<open>r10\<close> and \<open>r8\<close>, and returns what the
  kernel leaves in \<open>rax\<close>; control comes back after the instruction when the kernel keeps \<open>rcx\<close>.
\<close>

theorem generated_call_enters_kernel:
  assumes "execute snake vs = Inr fs" and "g \<in> set fs" and "length args = length (g_params g)"
  shows "\<exists>entry. regs entry RAX = discriminant (g_variant g)
    \<and> map (regs entry) (take (length args) arg_regs) = args
    \<and> regs entry RCX = rip s + 2
    \<and> call_generated kern discriminant g args s = (regs (kern entry) RAX, sysret (kern entry))
    \<and> (regs (kern entry) RCX = regs entry RCX \<longrightarrow> rip (sysret (kern entry)) = rip s + 2)"
proof -
  define b where "b = asm_syscall (discriminant (g_variant g)) (zip (take (length args) arg_regs) args)"
  define entry where "entry = syscall_entry (load_operands b s)"
  have n: "g_driver g = length args" "length args \<le> 5"
    using execute_driver[OF assms(1,2)] assms(3) by auto
  then consider "args = []" | a where "args = [a]" | a b where "args = [a, b]"
    | a b c where "args = [a, b, c]" | a b c d where "args = [a, b, c, d]"
    | a b c d e where "args = [a, b, c, d, e]"
    by (auto simp: le_Suc_eq numeral_eq_Suc length_Suc_conv)
  then have both: "call_generated kern discriminant g args s = (regs (kern entry) RAX, sysret (kern entry))
      \<and> map (regs entry) (take (length args) arg_regs) = args"
    by cases (simp_all add: call_generated_def n(1) entry_def b_def arg_regs_def Let_def
        syscall0_def syscall1_def syscall2_def syscall3_def syscall4_def syscall5_def
        run_syscall_def sysret_def asm_syscall_def syscall_entry_def load_operands_def)
  have "regs entry RAX = discriminant (g_variant g)" "regs entry RCX = rip s + 2"
    by (simp_all add: entry_def b_def syscall_entry_def load_operands_def asm_syscall_def)
  with both show ?thesis
    by (intro exI[where x = entry]) (simp add: sysret_def)
qed

theorem generated_call_enters_kernel_witness:
  "\<exists>entry. regs entry RAX = 0 \<and> map (regs entry) [RDI, RSI, RDX] = [1, 0x2000, 5]
     \<and> call_generated (\<lambda>s. s\<lparr> regs := (regs s)(RAX := 5) \<rparr>) syscall_discriminant
         \<lparr> g_name = ''write'', g_params = [''file'', ''buffer'', ''len''], g_driver = 3, g_variant = ''Write'' \<rparr>
         [1, 0x2000, 5] \<lparr> regs = (\<lambda>r. 0), rip = 0x1000, rflags = 2 \<rparr>
       = (5, sysret (entry\<lparr> regs := (regs entry)(RAX := 5) \<rparr>))"
  using generated_call_enters_kernel[of "\<lambda>v. if v = ''Write'' then ''write'' else ''read''" syscall_variants
      "[\<lparr> g_name = ''write'', g_params = [''file'', ''buffer'', ''len''], g_driver = 3, g_variant = ''Write'' \<rparr>,
        \<lparr> g_name = ''read'', g_params = [''file'', ''buffer'', ''len''], g_driver = 3, g_variant = ''Read'' \<rparr>]"
      "\<lparr> g_name = ''write'', g_params = [''file'', ''buffer'', ''len''], g_driver = 3, g_variant = ''Write'' \<rparr>"
      "[1, 0x2000, 5]" syscall_discriminant "\<lparr> regs = (\<lambda>r. 0), rip = 0x1000, rflags = 2 \<rparr>"
      "\<lambda>s. s\<lparr> regs := (regs s)(RAX := 5) \<rparr>"]
  by (auto simp: syscall_variants_def generate_function_def Let_def arg_regs_def syscall_discriminant_def)

definition restoring_kernel :: "(cpu \<Rightarrow> cpu) \<Rightarrow> bool" where
  "restoring_kernel kern \<longleftrightarrow> (\<forall>s r. r \<noteq> RAX \<longrightarrow> regs (kern s) r = regs s r)"

text \<open>
  C24: The blocks announce only \<open>rax\<close> as written, but the instruction overwrites \<open>rcx\<close> and \<open>r11\<close>: even
  under a kernel that changes nothing but \<open>rax\<close>, what the compiler relies on holds only when the
  two registers happen to hold the return address and the flags already.
\<close>

theorem syscall_clobbers_rcx_r11:
  assumes "restoring_kernel kern" and "set (map fst ins) \<subseteq> set arg_regs"
    and "sysret_flags (rflags s) = rflags s"
  shows "asm_contract (asm_syscall sys ins) (load_operands (asm_syscall sys ins) s)
      (snd (run_syscall kern (asm_syscall sys ins) s))
    \<longleftrightarrow> regs s RCX = rip s + 2 \<and> regs s R11 = rflags s"
proof -
  let ?b = "asm_syscall sys ins"
  define s0 where "s0 = load_operands ?b s"
  have keep: "fold (\<lambda>(r, v) f. f(r := v)) xs f q = f q" if "q \<notin> fst ` set xs"
    for xs :: "(reg \<times> u64) list" and f q
    using that by (induction xs arbitrary: f) (auto simp: split_beta)
  have "regs s0 q = regs s q" if "q \<in> {RCX, R11}" for q
  proof -
    have "q \<notin> fst ` set (asm_in ?b @ asm_inlateout ?b)"
      using assms(2) that by (auto simp: asm_syscall_def arg_regs_def)
    from keep[OF this] show ?thesis by (simp add: s0_def load_operands_def)
  qed
  then have s0: "regs s0 RCX = regs s RCX" "regs s0 R11 = regs s R11" "rip s0 = rip s" "rflags s0 = rflags s"
    by (simp_all add: s0_def load_operands_def)
  have after: "regs (snd (run_syscall kern ?b s)) r = regs (syscall_entry s0) r" if "r \<noteq> RAX" for r
    using assms(1) that by (simp add: run_syscall_def Let_def sysret_def restoring_kernel_def s0_def)
  have flags: "rflags (snd (run_syscall kern ?b s)) = rflags s0"
    using assms(1,3) s0(4) by (simp add: run_syscall_def Let_def sysret_def restoring_kernel_def s0_def syscall_entry_def)
  have "asm_contract ?b s0 (snd (run_syscall kern ?b s))
      \<longleftrightarrow> (\<forall>r. r \<noteq> RAX \<longrightarrow> regs (syscall_entry s0) r = regs s0 r)"
    using after flags by (simp add: asm_contract_def asm_syscall_def)
  also have "\<dots> \<longleftrightarrow> regs s0 RCX = rip s0 + 2 \<and> regs s0 R11 = rflags s0"
    by (auto simp: syscall_entry_def)
  finally show ?thesis by (simp add: s0 flip: s0_def)
qed

theorem syscall_clobbers_rcx_r11_witness:
  "\<not> asm_contract (asm_syscall 1 [(RDI, 7)])
      (load_operands (asm_syscall 1 [(RDI, 7)]) \<lparr> regs = (\<lambda>r. 0), rip = 0x1000, rflags = 0x202 \<rparr>)
      (snd (run_syscall (\<lambda>s. s) (asm_syscall 1 [(RDI, 7)]) \<lparr> regs = (\<lambda>r. 0), rip = 0x1000, rflags = 0x202 \<rparr>))"
  using syscall_clobbers_rcx_r11[of "\<lambda>s. s" "[(RDI, 7)]" "\<lparr> regs = (\<lambda>r. 0), rip = 0x1000, rflags = 0x202 \<rparr>" 1]
  by (simp add: restoring_kernel_def arg_regs_def sysret_flags_def)

end
