(* ===== verification/Kernel_Main.thy ===== *)
theory Kernel_Main
  imports Display_Correct Boot_Memory Helpers
begin

text \<open>
  The entry point of the kernel (\<open>kernel/src/main.rs\<close>) up to its final loop: what it writes to the
  display about the boot information it was handed. The waiting loop for a debugger, which exists
  only in debug builds, is at the end; the formatting of numbers and addresses is written out.
\<close>

section \<open>Formatting\<close>

definition ascii_text :: "string \<Rightarrow> u8 list" where
  "ascii_text s = map (\<lambda>c. of_nat (of_char c)) s"

definition hex_digit :: "nat \<Rightarrow> u8" where
  "hex_digit d = of_nat (if d < 10 then 48 + d else 87 + d)"

fun hexadecimal :: "nat \<Rightarrow> u8 list" where
  "hexadecimal n = (if n < 16 then [hex_digit n] else hexadecimal (n div 16) @ [hex_digit (n mod 16)])"

declare hexadecimal.simps [simp del]

text \<open>\<open>{:p}\<close> of a pointer, and the \<open>{:#018p}\<close> that addresses are displayed with.\<close>

definition fmt_pointer :: "usize \<Rightarrow> u8 list" where
  "fmt_pointer p = ascii_text ''0x'' @ hexadecimal (unat p)"

definition fmt_addr :: "usize \<Rightarrow> u8 list" where
  "fmt_addr p =
     (let h = hexadecimal (unat p) in ascii_text ''0x'' @ replicate (16 - length h) 48 @ h)"

definition fmt_usize :: "usize \<Rightarrow> u8 list" where "fmt_usize n = decimal (unat n)"

definition paddr_byte_add :: "paddr \<Rightarrow> usize \<Rightarrow> paddr" where
  "paddr_byte_add p offset = p + offset"

section \<open>The boot information and the entry point\<close>

record boot_info =
  bi_graphics :: graphics_info
  bi_memory_regions :: "memory_region list"
  bi_v_addr_start :: vaddr
  bi_v_addr_end :: vaddr

definition v_addr_range :: "boot_info \<Rightarrow> vaddr \<times> vaddr" where
  "v_addr_range b = (bi_v_addr_start b, bi_v_addr_end b)"

definition write_line :: "u8 list \<Rightarrow> display_writer \<times> u32 list \<Rightarrow> (display_writer \<times> u32 list) exec" where
  "write_line s st = write_str (s @ [10]) st"

definition region_line :: "memory_region \<Rightarrow> u8 list" where
  "region_line r =
     ascii_text ''Usable physical memory in '' @ fmt_addr (region_base r) @ ascii_text ''..''
     @ fmt_addr (paddr_byte_add (region_base r) (region_page_count r * PAGE_SIZE))
     @ ascii_text '', '' @ fmt_usize (region_page_count r) @ ascii_text '' pages!''"

definition kernel_main ::
  "usize \<Rightarrow> boot_info \<Rightarrow> u32 list \<Rightarrow> (display_writer \<times> u32 list) exec"
where
  "kernel_main main_addr b buf =
     (let w = \<lparr> graphics = bi_graphics b, line = 0, col = 0 \<rparr> in
      bind_exec (write_line (ascii_text ''Hello World from the Kernel, calling at address ''
                   @ fmt_pointer main_addr @ ascii_text ''!!!!'') (w, buf)) (\<lambda>st1.
      bind_exec (write_line (ascii_text ''Found '' @ fmt_usize (of_nat (length (bi_memory_regions b)))
                   @ ascii_text '' usable physical memory regions!'') st1) (\<lambda>st2.
      bind_exec (fold_exec (\<lambda>r. write_line (region_line r)) (bi_memory_regions b) st2) (\<lambda>st3.
      case v_addr_range b of (virt_start, virt_end) \<Rightarrow>
        write_line (ascii_text ''Higher-half virtual addressing available in range ''
          @ fmt_addr virt_start @ ascii_text ''..'' @ fmt_addr virt_end) st3))))"

section \<open>What is on the screen\<close>

text \<open>The whole text, one line for every region.\<close>

definition kernel_text :: "usize \<Rightarrow> boot_info \<Rightarrow> u8 list" where
  "kernel_text main_addr b =
     concat (map (\<lambda>s. s @ [10])
       ([ascii_text ''Hello World from the Kernel, calling at address '' @ fmt_pointer main_addr
           @ ascii_text ''!!!!'',
         ascii_text ''Found '' @ fmt_usize (of_nat (length (bi_memory_regions b)))
           @ ascii_text '' usable physical memory regions!'']
        @ map region_line (bi_memory_regions b)
        @ [ascii_text ''Higher-half virtual addressing available in range ''
             @ fmt_addr (bi_v_addr_start b) @ ascii_text ''..'' @ fmt_addr (bi_v_addr_end b)]))"

lemma write_str_append: "write_str (s @ t) st = bind_exec (write_str s st) (\<lambda>st'. write_str t st')"
  by (simp add: write_str_def fold_exec_append)

lemma write_line_eq: "write_line s = write_str (s @ [10])"
  by (rule ext) (simp add: write_line_def)

lemma write_lines:
  "fold_exec (\<lambda>x. write_line (f x)) xs st = write_str (concat (map (\<lambda>x. f x @ [10]) xs)) st"
proof (induction xs arbitrary: st)
  case (Cons x xs)
  have "concat (map (\<lambda>x. f x @ [10]) (x # xs)) = (f x @ [10]) @ concat (map (\<lambda>x. f x @ [10]) xs)"
    by simp
  moreover have "fold_exec (\<lambda>x. write_line (f x)) xs = write_str (concat (map (\<lambda>x. f x @ [10]) xs))"
    by (rule ext) (rule Cons.IH)
  ultimately show ?case
    by (simp only: write_str_append[of "f x @ [10]"] fold_exec.simps write_line_eq)
qed (simp add: write_str_def)

lemma kernel_main_writes_text:
  "kernel_main main_addr b buf
     = write_str (kernel_text main_addr b) (\<lparr> graphics = bi_graphics b, line = 0, col = 0 \<rparr>, buf)"
proof -
  define A where "A = ascii_text ''Hello World from the Kernel, calling at address ''
    @ fmt_pointer main_addr @ ascii_text ''!!!!''"
  define B where "B = ascii_text ''Found '' @ fmt_usize (of_nat (length (bi_memory_regions b)))
    @ ascii_text '' usable physical memory regions!''"
  define D where "D = ascii_text ''Higher-half virtual addressing available in range ''
    @ fmt_addr (bi_v_addr_start b) @ ascii_text ''..'' @ fmt_addr (bi_v_addr_end b)"
  let ?R = "concat (map (\<lambda>r. region_line r @ [10]) (bi_memory_regions b))"
  have "kernel_text main_addr b = (A @ [10]) @ (B @ [10]) @ ?R @ (D @ [10])"
    unfolding kernel_text_def A_def[symmetric] B_def[symmetric] D_def[symmetric] by (simp add: o_def)
  then show ?thesis
    unfolding kernel_main_def A_def[symmetric] B_def[symmetric] D_def[symmetric] Let_def v_addr_range_def prod.case
    by (simp only: write_str_append[of "A @ [10]"] write_str_append[of "B @ [10]"] write_str_append[of ?R]
        write_lines[unfolded write_line_eq] write_line_eq)
qed

lemma hexadecimal_printable: "ch \<in> set (hexadecimal n) \<Longrightarrow> ch \<le> 126"
proof (induction n rule: hexadecimal.induct)
  case (1 n)
  have digit: "hex_digit d \<le> 126" if "d < 16" for d
    using that by (simp add: hex_digit_def word_le_nat_alt take_bit_eq_mod unat_of_nat)
  show ?case
    using 1 digit[of n] digit[of "n mod 16"]
    by (subst (asm) (2) hexadecimal.simps) (auto split: if_splits)
qed

lemma decimal_printable: "ch \<in> set (decimal n) \<Longrightarrow> ch \<le> 126"
proof (induction n rule: decimal.induct)
  case (1 n)
  have digit: "(of_nat (48 + d) :: u8) \<le> 126" if "d < 10" for d
    using that by (simp add: word_le_nat_alt unat_of_nat del: of_nat_add)
  show ?case
    using 1 digit[of n] digit[of "n mod 10"]
    by (subst (asm) (2) decimal.simps) (auto split: if_splits)
qed

lemma kernel_text_printable: "ch \<in> set (kernel_text main_addr b) \<Longrightarrow> ch \<le> 126"
proof -
  note fmt = fmt_pointer_def fmt_addr_def fmt_usize_def Let_def
  have region: "ch \<in> set (region_line r) \<Longrightarrow> ch \<le> 126" for ch r
    by (auto simp: region_line_def ascii_text_def fmt dest: hexadecimal_printable decimal_printable)
  show "ch \<in> set (kernel_text main_addr b) \<Longrightarrow> ch \<le> 126"
    by (auto simp: kernel_text_def ascii_text_def fmt split: if_splits
        dest: hexadecimal_printable decimal_printable region)
qed

text \<open>
  Started on a display that is large enough for one character, the kernel reaches its final
  loop without a panic, and the display shows the greeting, one line for every memory region with
  its bounds and its size, and the range of virtual addresses, typed into an empty terminal.
\<close>

theorem kernel_main_shows_boot_info:
  assumes "display_fits (bi_graphics b) buf"
    and "gi_pixel_format (bi_graphics b) \<in> {RGB_8_BIT, BGR_8_BIT}"
  shows "\<exists>st. kernel_main main_addr b buf = Ret st
    \<and> displays st (fold type_byte (kernel_text main_addr b)
         (blank_terminal \<lparr> graphics = bi_graphics b, line = 0, col = 0 \<rparr>))"
proof -
  let ?d = "\<lparr> graphics = bi_graphics b, line = 0, col = 0 \<rparr>"
  have "writer_ok (?d, buf)"
    using assms(1) by (auto simp: writer_ok_def cursor_ok_def display_fits_def text_rows_def text_cols_def
        div_greater_zero_iff)
  from write_str_spec[OF this displays_blank, of "kernel_text main_addr b"] assms(2) show ?thesis
    by (auto simp: kernel_main_writes_text dest: kernel_text_printable)
qed

theorem kernel_main_shows_boot_info_witness:
  "\<exists>st. kernel_main 0x1000
       \<lparr> bi_graphics = graphics (fst small_display),
         bi_memory_regions = [\<lparr> region_base = 0x1000, region_page_count = 16 \<rparr>],
         bi_v_addr_start = 0xffff800000000000, bi_v_addr_end = 0xffffff8000000000 \<rparr>
       (snd small_display) = Ret st"
  using kernel_main_shows_boot_info[of
      "\<lparr> bi_graphics = graphics (fst small_display),
         bi_memory_regions = [\<lparr> region_base = 0x1000, region_page_count = 16 \<rparr>],
         bi_v_addr_start = 0xffff800000000000, bi_v_addr_end = 0xffffff8000000000 \<rparr>"
      "snd small_display" "0x1000"] small_display_ok
  by (auto simp: writer_ok_def)

section \<open>Waiting for a debugger\<close>

text \<open>
  \<open>pause\<close> of debug builds: it reads a flag until it is zero. What each read finds is an argument,
  because only a debugger changes the flag; the result is the number of reads.
\<close>

partial_function (option) pause :: "(nat \<Rightarrow> u8) \<Rightarrow> nat \<Rightarrow> nat option" where
  "pause debug_halt i = (if debug_halt i = 0 then Some (Suc i) else pause debug_halt (Suc i))"

lemma pause_skips:
  "(\<And>j. i \<le> j \<Longrightarrow> j < n \<Longrightarrow> debug_halt j \<noteq> 0) \<Longrightarrow> i \<le> n \<Longrightarrow> pause debug_halt i = pause debug_halt n"
proof (induction "n - i" arbitrary: i)
  case (Suc k)
  then have "i < n" by simp
  with Suc.prems have "pause debug_halt i = pause debug_halt (Suc i)" by (subst pause.simps) simp
  with Suc.hyps(1)[of "Suc i"] Suc.hyps(2) Suc.prems \<open>i < n\<close> show ?case by simp
qed simp

lemma pause_result:
  assumes "pause debug_halt i = Some n"
  shows "\<exists>j \<ge> i. debug_halt j = 0"
proof (rule pause.raw_induct[OF _ assms])
  fix rec :: "(nat \<Rightarrow> u8) \<Rightarrow> nat \<Rightarrow> nat option" and f k y
  assume later: "\<And>f k y. rec f k = Some y \<Longrightarrow> \<exists>j \<ge> k. f j = 0"
    and step: "(if f k = 0 then Some (Suc k) else rec f (Suc k)) = Some y"
  show "\<exists>j \<ge> k. f j = 0"
  proof (cases "f k = 0")
    case False
    with step have "rec f (Suc k) = Some y" by simp
    from later[OF this] obtain j where "Suc k \<le> j" "f j = 0" by blast
    then show ?thesis using Suc_leD by blast
  qed blast
qed

lemma pause_returns_iff: "(\<exists>n. pause debug_halt 0 = Some n) \<longleftrightarrow> (\<exists>j. debug_halt j = 0)"
proof
  assume "\<exists>j. debug_halt j = 0"
  define n where "n = (LEAST j. debug_halt j = 0)"
  have "debug_halt n = 0" "\<And>j. j < n \<Longrightarrow> debug_halt j \<noteq> 0"
    using \<open>\<exists>j. debug_halt j = 0\<close> unfolding n_def by (auto intro: LeastI dest: not_less_Least)
  then have "pause debug_halt 0 = pause debug_halt n" "pause debug_halt n = Some (Suc n)"
    using pause_skips[of 0 n debug_halt] by (auto simp: pause.simps)
  then show "\<exists>n. pause debug_halt 0 = Some n" by simp
qed (use pause_result in blast)

end
