(* ===== verification/Buddy.thy ===== *)
theory Buddy
  imports Page_Entries
begin

text \<open>
  The buddy tree that keeps track of the free pages of a region
  (\<open>kernel/src/page_alloc_tree.rs\<close>; the file stands in a block comment of the repository, the
  kernel does not use it yet). The tree is an array of one byte per node behind a header: the
  children of node \<open>n\<close> are \<open>2 * n + 1\<close> and \<open>2 * n + 2\<close>. The bytes that the tree owns behind its
  header are a list, of which a byte nobody has written is \<open>None\<close>; reading such a byte, or any
  access behind the list, is undefined. Node numbers and page counts are natural numbers:
  \<open>live_node_bound\<close> shows that they stay below twice the number of pages, so that the code's
  \<open>usize\<close> holds them. Addresses are words. \<open>buddy_free\<close> is \<open>free\<close> of a release build,
  \<open>buddy_free_debug\<close> that of a debug build, where the alignment of the address is asserted and
  arithmetic is checked; the other debug assertion, that a node has a power of two of pages, is
  left out.
\<close>

section \<open>The tree in memory\<close>

text \<open>\<open>bt_self\<close> is where the header of the tree lies, the \<open>self\<close> of its methods.\<close>

record buddy_tree =
  bt_self :: usize
  bt_base :: usize
  bt_pages :: usize
  loader_memory :: bool
  bt_children :: "u8 option list"

definition HAS_CHILDREN_FLAG :: u8 where "HAS_CHILDREN_FLAG = 1"
definition IS_OCCUPIED_FLAG :: u8 where "IS_OCCUPIED_FLAG = 2"

text \<open>\<open>usize::ilog2\<close> of a positive number.\<close>

fun ilog2 :: "nat \<Rightarrow> nat" where
  "ilog2 n = (if n < 2 then 0 else Suc (ilog2 (n div 2)))"

declare ilog2.simps [simp del]

definition get_child_start_and_pages :: "buddy_tree \<Rightarrow> nat \<Rightarrow> nat \<times> nat" where
  "get_child_start_and_pages t node =
     (let level = ilog2 (node + 1);
          first_in_level = 2 ^ level - 1;
          position_in_level = node - first_in_level;
          pages = unat (bt_pages t) div 2 ^ level;
          start = position_in_level * pages
      in (start, pages))"

definition get_child :: "buddy_tree \<Rightarrow> nat \<Rightarrow> u8 exec" where
  "get_child t offset =
     (if offset < length (bt_children t)
      then (case bt_children t ! offset of Some f \<Rightarrow> Ret f | None \<Rightarrow> Undefined)
      else Undefined)"

definition write_child :: "nat \<Rightarrow> u8 \<Rightarrow> buddy_tree \<Rightarrow> buddy_tree exec" where
  "write_child offset f t =
     (if offset < length (bt_children t)
      then Ret (t\<lparr> bt_children := (bt_children t)[offset := Some f] \<rparr>) else Undefined)"

text \<open>A change of the flags through the pointer to the node.\<close>

definition update_child :: "nat \<Rightarrow> (u8 \<Rightarrow> u8) \<Rightarrow> buddy_tree \<Rightarrow> buddy_tree exec" where
  "update_child offset g t = bind_exec (get_child t offset) (\<lambda>f. write_child offset (g f) t)"

lemma get_child_Ret: "get_child t n = Ret f \<longleftrightarrow> n < length (bt_children t) \<and> bt_children t ! n = Some f"
  by (auto simp: get_child_def split: option.splits)

text \<open>The header of a tree: a pointer, a size and a flag, with the alignment of the pointer.\<close>

definition size_of_tree :: nat where "size_of_tree = 24"
definition offset_of_children :: nat where "offset_of_children = 17"

definition required_pages_for_tree :: "nat \<Rightarrow> nat" where
  "required_pages_for_tree pages =
     (let required_size_bytes = size_of_tree + (pages * 2 - 1)
      in (required_size_bytes + (unat PAGE_SIZE - 1)) div unat PAGE_SIZE)"

fun is_pow2 :: "nat \<Rightarrow> bool" where
  "is_pow2 n = (if n < 2 then n = 1 else even n \<and> is_pow2 (n div 2))"

declare is_pow2.simps [simp del]

definition buddy_new :: "usize \<Rightarrow> usize \<Rightarrow> usize \<Rightarrow> bool \<Rightarrow> u8 option list \<Rightarrow> buddy_tree option exec" where
  "buddy_new tree_base memory_base pages loader storage =
     (if pages = 0 \<or> \<not> is_pow2 (unat pages) then Ret None
      else if unat tree_base mod 8 \<noteq> 0 then Ret None
      else bind_exec (write_child 0 0
             \<lparr> bt_self = tree_base, bt_base = memory_base, bt_pages = pages, loader_memory = loader, bt_children = storage \<rparr>)
             (\<lambda>t. Ret (Some t)))"

section \<open>Searching\<close>

function find_fitting_leaf_from :: "buddy_tree \<Rightarrow> nat \<Rightarrow> nat \<Rightarrow> nat \<Rightarrow> (nat \<times> nat) option exec" where
  "find_fitting_leaf_from t pages node min_pages =
     bind_exec (get_child t node) (\<lambda>child.
       if child AND HAS_CHILDREN_FLAG = 0
       then (let child_pages = snd (get_child_start_and_pages t node) in
             if child AND IS_OCCUPIED_FLAG = 0 \<and> pages \<le> child_pages \<and> child_pages < min_pages
             then Ret (Some (node, child_pages)) else Ret None)
       else
         bind_exec (find_fitting_leaf_from t pages (node * 2 + 1) min_pages) (\<lambda>result_left.
           let (found_left, size_left) = (case result_left of
                 None \<Rightarrow> (None, min_pages) | Some (n, m) \<Rightarrow> (Some n, m)) in
           bind_exec (find_fitting_leaf_from t pages (node * 2 + 2) size_left) (\<lambda>result_right.
             let (found, size_to_beat) = (case result_right of
                   None \<Rightarrow> (found_left, size_left) | Some (n, m) \<Rightarrow> (Some n, m)) in
             Ret (case found of None \<Rightarrow> None | Some n \<Rightarrow> Some (n, size_to_beat)))))"
  by pat_completeness auto
termination
  by (relation "measure (\<lambda>(t, pages, node, m). length (bt_children t) - node)")
     (auto simp: get_child_Ret)

declare find_fitting_leaf_from.simps [simp del]

definition find_fitting_leaf :: "buddy_tree \<Rightarrow> nat \<Rightarrow> nat option exec" where
  "find_fitting_leaf t pages =
     bind_exec (find_fitting_leaf_from t pages 0 (2 ^ 64 - 1)) (\<lambda>r. Ret (map_option fst r))"

function find_node_from :: "buddy_tree \<Rightarrow> nat \<Rightarrow> nat \<Rightarrow> nat option exec" where
  "find_node_from t start node =
     bind_exec (get_child t node) (\<lambda>child.
       let (child_start, child_pages) = get_child_start_and_pages t node in
       if child_start \<le> start \<and> start < child_start + child_pages
       then if child AND HAS_CHILDREN_FLAG \<noteq> 0
            then if start < child_start + child_pages div 2
                 then find_node_from t start (node * 2 + 1)
                 else find_node_from t start (node * 2 + 2)
            else Ret (if child_start = start then Some node else None)
       else Ret None)"
  by pat_completeness auto
termination
  by (relation "measure (\<lambda>(t, start, node). length (bt_children t) - node)")
     (auto simp: get_child_Ret)

declare find_node_from.simps [simp del]

definition find_node :: "buddy_tree \<Rightarrow> nat \<Rightarrow> nat option exec" where
  "find_node t start = find_node_from t start 0"

section \<open>Splitting and merging\<close>

definition split_node :: "nat \<Rightarrow> buddy_tree \<Rightarrow> ((nat \<times> nat) \<times> buddy_tree) exec" where
  "split_node node t =
     bind_exec (update_child node (\<lambda>f. f OR HAS_CHILDREN_FLAG) t) (\<lambda>t1.
     bind_exec (write_child (node * 2 + 1) 0 t1) (\<lambda>t2.
     bind_exec (write_child (node * 2 + 2) 0 t2) (\<lambda>t3.
       Ret ((node * 2 + 1, node * 2 + 2), t3))))"

function try_merge :: "nat \<Rightarrow> buddy_tree \<Rightarrow> buddy_tree exec" where
  "try_merge node t =
     (if node = 0 then Ret t
      else bind_exec (get_child t node) (\<lambda>child.
        if child AND (HAS_CHILDREN_FLAG OR IS_OCCUPIED_FLAG) \<noteq> 0 then Ret t
        else let parent_node = (node - 1) div 2;
                 sibling_node = (if node mod 2 = 1 then node + 1 else node - 1) in
             bind_exec (get_child t sibling_node) (\<lambda>sibling.
               if sibling AND (HAS_CHILDREN_FLAG OR IS_OCCUPIED_FLAG) = 0
               then bind_exec (update_child parent_node (\<lambda>f. f AND NOT HAS_CHILDREN_FLAG) t)
                      (\<lambda>t1. try_merge parent_node t1)
               else Ret t)))"
  by pat_completeness auto
termination
  by (relation "measure fst") auto

declare try_merge.simps [simp del]

section \<open>Allocating and freeing\<close>

lemma ilog2_double: "ilog2 (Suc (Suc (node * 2))) = Suc (ilog2 (Suc node))"
  by (subst ilog2.simps) simp

lemma pages_of_child:
  "snd (get_child_start_and_pages t (Suc (node * 2))) = snd (get_child_start_and_pages t node) div 2"
  by (simp add: get_child_start_and_pages_def Let_def ilog2_double div_mult2_eq mult.commute[of 2])

lemma write_child_Ret:
  "write_child n f t = Ret t' \<longleftrightarrow>
     n < length (bt_children t) \<and> t' = t\<lparr> bt_children := (bt_children t)[n := Some f] \<rparr>"
  by (auto simp: write_child_def)

lemma update_child_Ret:
  "update_child n g t = Ret t' \<longleftrightarrow>
     (\<exists>f. n < length (bt_children t) \<and> bt_children t ! n = Some f
        \<and> t' = t\<lparr> bt_children := (bt_children t)[n := Some (g f)] \<rparr>)"
  by (auto simp: update_child_def bind_exec_Ret_iff get_child_Ret write_child_Ret)

lemma split_node_pages: "split_node node t = Ret (ch, t') \<Longrightarrow> fst ch = node * 2 + 1 \<and> bt_pages t' = bt_pages t"
  by (auto simp: split_node_def bind_exec_Ret_iff write_child_Ret update_child_Ret)

text \<open>
  The loop that splits a leaf down to the size asked for, always to the left. \<open>alloc\<close> never
  enters it for zero pages; the guard only makes it total.
\<close>

function split_down :: "nat \<Rightarrow> nat \<Rightarrow> buddy_tree \<Rightarrow> (nat \<times> buddy_tree) exec" where
  "split_down pages node t =
     (if 0 < pages \<and> pages \<le> snd (get_child_start_and_pages t node) div 2
      then bind_exec (split_node node t) (\<lambda>(ch, t1). split_down pages (fst ch) t1)
      else Ret (node, t))"
  by pat_completeness auto
termination
proof (relation "measure (\<lambda>(pages, node, t). snd (get_child_start_and_pages t node))")
  fix pages node :: nat and t :: buddy_tree and x :: "(nat \<times> nat) \<times> buddy_tree" and ch t1
  assume big: "0 < pages \<and> pages \<le> snd (get_child_start_and_pages t node) div 2"
    and split: "split_node node t = Ret x" "(ch, t1) = x"
  from split have "fst ch = Suc (node * 2)" "bt_pages t1 = bt_pages t"
    using split_node_pages[of node t ch t1] by auto
  then have "snd (get_child_start_and_pages t1 (fst ch)) = snd (get_child_start_and_pages t node) div 2"
    using pages_of_child[of t node] by (simp add: get_child_start_and_pages_def Let_def)
  moreover have "0 < snd (get_child_start_and_pages t node)"
    using big by (cases "snd (get_child_start_and_pages t node)") auto
  ultimately show "((pages, fst ch, t1), pages, node, t)
      \<in> measure (\<lambda>(pages, node, t). snd (get_child_start_and_pages t node))"
    by simp
qed simp

declare split_down.simps [simp del]

definition buddy_alloc :: "usize \<Rightarrow> buddy_tree \<Rightarrow> (usize option \<times> buddy_tree) exec" where
  "buddy_alloc pages t =
     (if pages = 0 then Ret (None, t)
      else bind_exec (find_fitting_leaf t (unat pages)) (\<lambda>found.
        case found of
          None \<Rightarrow> Ret (None, t)
        | Some node \<Rightarrow>
            bind_exec (split_down (unat pages) node t) (\<lambda>(child_node, t1).
            bind_exec (update_child child_node (\<lambda>f. f OR IS_OCCUPIED_FLAG) t1) (\<lambda>t2.
              Ret (Some (of_nat (fst (get_child_start_and_pages t1 child_node)) * PAGE_SIZE + bt_base t), t2)))))"

definition buddy_free :: "usize \<Rightarrow> buddy_tree \<Rightarrow> ((unit + unit) \<times> buddy_tree) exec" where
  "buddy_free page t =
     (let start = (page - bt_base t) div PAGE_SIZE in
      if page < bt_base t \<or> bt_base t + bt_pages t * PAGE_SIZE \<le> page then Ret (Inl (), t)
      else bind_exec (find_node t (unat start)) (\<lambda>found.
        case found of
          None \<Rightarrow> Ret (Inl (), t)
        | Some node \<Rightarrow>
            bind_exec (get_child t node) (\<lambda>child.
              if child AND IS_OCCUPIED_FLAG \<noteq> 0
              then bind_exec (update_child node (\<lambda>f. f AND NOT IS_OCCUPIED_FLAG) t) (\<lambda>t1.
                   bind_exec (try_merge node t1) (\<lambda>t2. Ret (Inr (), t2)))
              else Ret (Inl (), t))))"

text \<open>
  A debug build asserts that the address is the start of a page, it subtracts the base before it
  compares the address with the base, and it checks the two operations that compute the end of the
  region.
\<close>

definition buddy_free_debug :: "usize \<Rightarrow> buddy_tree \<Rightarrow> ((unit + unit) \<times> buddy_tree) exec" where
  "buddy_free_debug page t =
     (if page mod PAGE_SIZE \<noteq> 0 then Panic ''assertion `left == right` failed''
      else if page < bt_base t then Panic ''attempt to subtract with overflow''
      else if 2 ^ 64 \<le> unat (bt_pages t) * 4096 then Panic ''attempt to multiply with overflow''
      else if 2 ^ 64 \<le> unat (bt_base t) + unat (bt_pages t) * 4096
        then Panic ''attempt to add with overflow''
      else buddy_free page t)"

end
