(* ===== verification/Buddy_Spec.thy ===== *)
theory Buddy_Spec
  imports Buddy
begin

text \<open>
  The abstract buddy system: a partial map from positions in the tree (a level and a number in
  the level) to the state of a block. The positions, their blocks of pages, and what splitting,
  merging and marking a block do to the map; nothing here is translated from the source.
\<close>

declare split_paired_All [simp del] split_paired_Ex [simp del]

section \<open>Positions\<close>

type_synonym pos = "nat \<times> nat"

datatype block = Free | Inner | Used

definition node :: "pos \<Rightarrow> nat" where "node x = 2 ^ fst x - 1 + snd x"

definition left_of :: "pos \<Rightarrow> pos" where "left_of x = (Suc (fst x), 2 * snd x)"
definition right_of :: "pos \<Rightarrow> pos" where "right_of x = (Suc (fst x), Suc (2 * snd x))"
definition parent_of :: "pos \<Rightarrow> pos" where "parent_of x = (fst x - 1, snd x div 2)"

definition in_level :: "nat \<Rightarrow> pos \<Rightarrow> bool" where
  "in_level K x \<longleftrightarrow> fst x \<le> K \<and> snd x < 2 ^ fst x"

lemma Suc_node: "Suc (node x) = 2 ^ fst x + snd x"
  by (simp add: node_def)

lemma node_children: "node x * 2 + 1 = node (left_of x)" "node x * 2 + 2 = node (right_of x)"
  using Suc_node[of x] Suc_node[of "left_of x"] Suc_node[of "right_of x"]
  by (simp_all add: left_of_def right_of_def)

lemma node_children_Suc [simp]:
  "Suc (node x * 2) = node (left_of x)" "Suc (node (left_of x)) = node (right_of x)"
  using node_children[of x] by simp_all

lemma ilog2_node: "snd x < 2 ^ fst x \<Longrightarrow> ilog2 (Suc (node x)) = fst x"
proof (induction "fst x" arbitrary: x)
  case 0
  then show ?case by (simp add: node_def ilog2.simps[of "Suc 0"])
next
  case (Suc l)
  obtain q where x: "x = (Suc l, q)" using Suc.hyps(2) by (cases x) auto
  have q: "q div 2 < 2 ^ l" using Suc.prems x by (simp add: less_mult_imp_div_less)
  have half: "Suc (node x) div 2 = Suc (node (l, q div 2))" by (simp add: Suc_node x)
  have "1 \<le> (2::nat) ^ l" by simp
  then have "2 \<le> 2 * 2 ^ l + q" by linarith
  then have "2 \<le> Suc (node x)" by (simp add: Suc_node x)
  then have "ilog2 (Suc (node x)) = Suc (ilog2 (Suc (node x) div 2))"
    by (simp only: ilog2.simps[of "Suc (node x)"] not_less[symmetric] if_False)
  also have "\<dots> = Suc l" using Suc.hyps(1)[of "(l, q div 2)"] q by (simp only: half) simp
  finally show ?case by (simp add: x)
qed

lemma node_inj:
  assumes "snd x < 2 ^ fst x" "snd y < 2 ^ fst y" "node x = node y"
  shows "x = y"
proof -
  have "fst x = fst y" using ilog2_node assms by metis
  moreover have "2 ^ fst x + snd x = 2 ^ fst y + snd y" using assms(3) Suc_node by metis
  ultimately show ?thesis by (simp add: prod_eq_iff)
qed

lemma node_bound: "in_level K x \<Longrightarrow> node x < 2 * 2 ^ K - 1"
proof -
  assume x: "in_level K x"
  have "Suc (node x) < 2 * 2 ^ fst x" using x by (simp add: Suc_node in_level_def)
  moreover have "(2::nat) ^ fst x \<le> 2 ^ K" using x by (simp add: in_level_def)
  ultimately show ?thesis by linarith
qed

lemma in_level_root [simp]: "in_level K (0, 0)"
  by (simp add: in_level_def)

lemma in_level_children:
  "in_level K x \<Longrightarrow> fst x < K \<Longrightarrow> in_level K (left_of x) \<and> in_level K (right_of x)"
  by (auto simp: in_level_def left_of_def right_of_def)

lemma parent_of_children [simp]: "parent_of (left_of x) = x" "parent_of (right_of x) = x"
  by (simp_all add: parent_of_def left_of_def right_of_def)

lemma children_neq [simp]:
  "left_of x \<noteq> x" "right_of x \<noteq> x" "left_of x \<noteq> right_of x" "right_of x \<noteq> left_of x"
  "x \<noteq> left_of x" "x \<noteq> right_of x"
  by (cases x; simp add: left_of_def right_of_def; presburger)+

section \<open>Blocks\<close>

definition block_size :: "nat \<Rightarrow> pos \<Rightarrow> nat" where "block_size K x = 2 ^ (K - fst x)"
definition block_start :: "nat \<Rightarrow> pos \<Rightarrow> nat" where "block_start K x = snd x * block_size K x"
definition block_pages :: "nat \<Rightarrow> pos \<Rightarrow> nat set" where
  "block_pages K x = {block_start K x ..< block_start K x + block_size K x}"

lemma block_size_pos [simp]: "0 < block_size K x"
  by (simp add: block_size_def)

lemma block_size_child: "fst x < K \<Longrightarrow> block_size K x = 2 * block_size K (left_of x)"
  by (simp add: block_size_def left_of_def Suc_diff_Suc[symmetric] flip: power_Suc)

lemma block_size_right: "block_size K (right_of x) = block_size K (left_of x)"
  by (simp add: block_size_def left_of_def right_of_def)

lemma block_start_child:
  assumes "fst x < K"
  shows "block_start K (left_of x) = block_start K x"
    "block_start K (right_of x) = block_start K x + block_size K (left_of x)"
  using assms by (simp_all add: block_start_def block_size_child block_size_right)
    (simp_all add: left_of_def right_of_def)

lemma block_pages_children:
  assumes "fst x < K"
  shows "block_pages K x = block_pages K (left_of x) \<union> block_pages K (right_of x)"
    "block_pages K (left_of x) \<inter> block_pages K (right_of x) = {}"
  using block_start_child[OF assms] block_size_child[OF assms]
  by (auto simp: block_pages_def block_size_right)

text \<open>A position lies below another.\<close>

definition under :: "pos \<Rightarrow> pos \<Rightarrow> bool" where
  "under x y \<longleftrightarrow> fst x \<le> fst y \<and> snd y div 2 ^ (fst y - fst x) = snd x"

lemma under_refl [simp]: "under x x"
  by (simp add: under_def)

lemma under_root: "in_level K x \<Longrightarrow> under (0, 0) x"
  by (simp add: under_def in_level_def)

lemma under_step: "under x y \<longleftrightarrow> y = x \<or> under (left_of x) y \<or> under (right_of x) y"
proof (cases "fst x < fst y")
  case True
  then obtain d where d: "fst y - fst x = Suc d" "fst y - Suc (fst x) = d"
    by (metis Suc_diff_Suc)
  have "snd y div 2 ^ Suc d = snd y div 2 ^ d div 2"
    by (simp add: div_mult2_eq mult.commute[of 2])
  moreover have "m div 2 = n \<longleftrightarrow> m = 2 * n \<or> m = Suc (2 * n)" for m n :: nat by presburger
  ultimately have "snd y div 2 ^ Suc d = snd x \<longleftrightarrow> snd y div 2 ^ d = 2 * snd x \<or> snd y div 2 ^ d = Suc (2 * snd x)"
    by simp
  with True d show ?thesis by (auto simp: under_def left_of_def right_of_def)
qed (auto simp: under_def left_of_def right_of_def prod_eq_iff)

text \<open>A page belongs to exactly one position of every level.\<close>

lemma mem_block: "n \<in> block_pages K x \<longleftrightarrow> n div block_size K x = snd x"
proof
  assume "n \<in> block_pages K x"
  then show "n div block_size K x = snd x"
    by (intro div_nat_eqI) (auto simp: block_pages_def block_start_def algebra_simps)
next
  assume "n div block_size K x = snd x"
  then have "n = snd x * block_size K x + n mod block_size K x"
    by (metis div_mult_mod_eq)
  moreover have "n mod block_size K x < block_size K x" by simp
  ultimately have "snd x * block_size K x \<le> n" "n < snd x * block_size K x + block_size K x" by linarith+
  then show "n \<in> block_pages K x" by (simp add: block_pages_def block_start_def)
qed

lemma under_of_page:
  assumes "n \<in> block_pages K x" "n \<in> block_pages K y" "fst x \<le> fst y" "fst y \<le> K"
  shows "under x y"
proof -
  have "K - fst x = (K - fst y) + (fst y - fst x)" using assms(3,4) by simp
  then have "n div block_size K x = n div block_size K y div 2 ^ (fst y - fst x)"
    by (simp add: block_size_def power_add div_mult2_eq)
  then show ?thesis using assms by (simp add: mem_block under_def)
qed

lemma pages_under:
  assumes "under x y" "fst y \<le> K" shows "block_pages K y \<subseteq> block_pages K x"
proof -
  have "K - fst x = (K - fst y) + (fst y - fst x)" using assms by (simp add: under_def)
  then have "n div block_size K x = n div block_size K y div 2 ^ (fst y - fst x)" for n
    by (simp add: block_size_def power_add div_mult2_eq)
  then show ?thesis using assms(1) by (auto simp: mem_block under_def)
qed

lemma block_within: "in_level K x \<Longrightarrow> block_pages K x \<subseteq> {..< 2 ^ K}"
  using pages_under[OF under_root, of K x K] by (auto simp: in_level_def block_pages_def block_start_def block_size_def)

section \<open>The map of blocks\<close>

type_synonym buddy_map = "pos \<rightharpoonup> block"

text \<open>The positions present are the root and the children of inner blocks.\<close>

definition buddy_map_ok :: "nat \<Rightarrow> buddy_map \<Rightarrow> bool" where
  "buddy_map_ok K v \<longleftrightarrow>
     (0, 0) \<in> dom v
     \<and> (\<forall>x \<in> dom v. in_level K x \<and> (0 < fst x \<longrightarrow> v (parent_of x) = Some Inner))
     \<and> (\<forall>x. v x = Some Inner \<longrightarrow> fst x < K \<and> left_of x \<in> dom v \<and> right_of x \<in> dom v)"

text \<open>No two free buddies, with at most one exception.\<close>

definition coalesced_but :: "pos \<Rightarrow> buddy_map \<Rightarrow> bool" where
  "coalesced_but e v \<longleftrightarrow>
     (\<forall>x. v x = Some Inner \<and> x \<noteq> e \<longrightarrow> \<not> (v (left_of x) = Some Free \<and> v (right_of x) = Some Free))"

definition coalesced :: "buddy_map \<Rightarrow> bool" where
  "coalesced v \<longleftrightarrow>
     (\<forall>x. v x = Some Inner \<longrightarrow> \<not> (v (left_of x) = Some Free \<and> v (right_of x) = Some Free))"

definition used :: "buddy_map \<Rightarrow> pos set" where "used v = {x. v x = Some Used}"

definition free_pages :: "nat \<Rightarrow> buddy_map \<Rightarrow> nat set" where
  "free_pages K v = {..< 2 ^ K} - (\<Union>x \<in> used v. block_pages K x)"

definition split_map :: "pos \<Rightarrow> buddy_map \<Rightarrow> buddy_map" where
  "split_map x v = v(x \<mapsto> Inner, left_of x \<mapsto> Free, right_of x \<mapsto> Free)"

definition merge_map :: "pos \<Rightarrow> buddy_map \<Rightarrow> buddy_map" where
  "merge_map x v = (v(x \<mapsto> Free))(left_of x := None, right_of x := None)"

lemma buddy_map_okD:
  assumes "buddy_map_ok K v"
  shows "(0, 0) \<in> dom v"
    and "v x = Some b \<Longrightarrow> in_level K x"
    and "v x = Some b \<Longrightarrow> 0 < fst x \<Longrightarrow> v (parent_of x) = Some Inner"
    and "v x = Some Inner \<Longrightarrow> fst x < K \<and> left_of x \<in> dom v \<and> right_of x \<in> dom v"
  using assms unfolding buddy_map_ok_def by blast+

lemma pos_cases:
  obtains "fst x = 0" | "x = left_of (parent_of x)" "0 < fst x" | "x = right_of (parent_of x)" "0 < fst x"
proof -
  have "snd x = 2 * (snd x div 2) \<or> snd x = Suc (2 * (snd x div 2))" by presburger
  then have "fst x = 0 \<or> x = left_of (parent_of x) \<or> x = right_of (parent_of x)"
    by (auto simp: left_of_def right_of_def parent_of_def prod_eq_iff)
  then show ?thesis using that by blast
qed

lemma is_child:
  assumes "in_level K x" obtains "parent_of x = x" | "x = left_of (parent_of x)" | "x = right_of (parent_of x)"
  using assms by (cases x rule: pos_cases) (auto simp: in_level_def parent_of_def prod_eq_iff)

lemma child_eq:
  "left_of x = left_of y \<longleftrightarrow> x = y" "right_of x = right_of y \<longleftrightarrow> x = y"
  "left_of x \<noteq> right_of y" "right_of x \<noteq> left_of y"
  by (auto simp: left_of_def right_of_def prod_eq_iff) presburger+

lemma child_not_root: "left_of x \<noteq> (0, 0)" "right_of x \<noteq> (0, 0)" "0 < fst (left_of x)" "0 < fst (right_of x)"
  by (simp_all add: left_of_def right_of_def)

lemma ancestor_inner:
  assumes ok: "buddy_map_ok K v" and "y \<in> dom v" "under x y" "x \<noteq> y"
  shows "v x = Some Inner"
  using assms(2-)
proof (induction "fst y" arbitrary: y)
  case 0
  then show ?case by (simp add: under_def prod_eq_iff)
next
  case (Suc l)
  have up: "v (parent_of y) = Some Inner"
    using Suc.hyps(2) Suc.prems(1) buddy_map_okD(3)[OF ok, of y] by (metis domD zero_less_Suc)
  show ?case
  proof (cases "x = parent_of y")
    case False
    have "fst x \<noteq> fst y" using Suc.prems(2,3) by (auto simp: under_def prod_eq_iff)
    then have "fst x < fst y" using Suc.prems(2) by (simp add: under_def)
    then obtain d where d: "fst y = Suc (fst x + d)" by (metis less_imp_Suc_add)
    have "snd y div 2 div 2 ^ d = snd y div 2 ^ Suc d" by (simp add: div_mult2_eq)
    with d have "under x (parent_of y)"
      using Suc.prems(2) by (simp add: under_def parent_of_def)
    moreover have "l = fst (parent_of y)" "parent_of y \<in> dom v"
      using Suc.hyps(2) up by (auto simp: parent_of_def)
    ultimately show ?thesis using Suc.hyps(1)[of "parent_of y"] False by blast
  qed (simp add: up)
qed

lemma leaf_alone:
  assumes "buddy_map_ok K v" "v x = Some b" "b \<noteq> Inner" "y \<in> dom v" "under x y"
  shows "y = x"
  using ancestor_inner[OF assms(1,4,5)] assms(2,3) by auto

lemma leaves_disjoint:
  assumes ok: "buddy_map_ok K v" and x: "v x = Some b" "b \<noteq> Inner" and y: "v y = Some c" "c \<noteq> Inner"
    and "x \<noteq> y"
  shows "block_pages K x \<inter> block_pages K y = {}"
proof (rule ccontr)
  assume "block_pages K x \<inter> block_pages K y \<noteq> {}"
  then obtain n where n: "n \<in> block_pages K x" "n \<in> block_pages K y" by auto
  have "fst x \<le> K" "fst y \<le> K"
    using buddy_map_okD(2)[OF ok x(1)] buddy_map_okD(2)[OF ok y(1)] by (auto simp: in_level_def)
  then have "under x y \<or> under y x"
    using under_of_page[OF n] under_of_page[OF n(2,1)] by linarith
  then show False
    using leaf_alone[OF ok x, of y] leaf_alone[OF ok y, of x] x y assms(6) by auto
qed

section \<open>The operations on the map\<close>

lemma split_map_ok:
  assumes ok: "buddy_map_ok K v" and x: "v x = Some Free" "fst x < K"
  shows "buddy_map_ok K (split_map x v)"
    and "used (split_map x v) = used v"
    and "coalesced_but (parent_of x) v \<Longrightarrow> coalesced_but x (split_map x v)"
proof -
  have new: "left_of x \<notin> dom v" "right_of x \<notin> dom v"
    using buddy_map_okD(3)[OF ok, of "left_of x"] buddy_map_okD(3)[OF ok, of "right_of x"] x(1)
    by (auto simp: child_not_root)
  have up: "v (parent_of y) = Some Inner \<Longrightarrow> split_map x v (parent_of y) = Some Inner" for y
    using new x(1) by (auto simp: split_map_def)
  have lev: "in_level K x" using buddy_map_okD(2)[OF ok x(1)] .
  show "buddy_map_ok K (split_map x v)"
    unfolding buddy_map_ok_def
  proof (intro conjI ballI allI impI)
    show "(0, 0) \<in> dom (split_map x v)"
      using buddy_map_okD(1)[OF ok] by (auto simp: split_map_def)
  next
    fix y assume y: "y \<in> dom (split_map x v)"
    then show "in_level K y"
      using in_level_children[OF lev x(2)] lev buddy_map_okD(2)[OF ok, of y]
      by (auto simp: split_map_def split: if_splits)
    assume "0 < fst y"
    then show "split_map x v (parent_of y) = Some Inner"
      using y up[of y] buddy_map_okD(3)[OF ok, of y] x(1)
      by (auto simp: split_map_def split: if_splits)
  next
    fix y assume "split_map x v y = Some Inner"
    then have y: "y = x \<or> v y = Some Inner" by (auto simp: split_map_def split: if_splits)
    then show "fst y < K" using x(2) buddy_map_okD(4)[OF ok, of y] by auto
    show "left_of y \<in> dom (split_map x v)" "right_of y \<in> dom (split_map x v)"
      using y buddy_map_okD(4)[OF ok, of y] by (auto simp: split_map_def)
  qed
  show "used (split_map x v) = used v"
    using new x(1) by (auto simp: used_def split_map_def split: if_splits)
  assume c: "coalesced_but (parent_of x) v"
  show "coalesced_but x (split_map x v)"
    unfolding coalesced_but_def
  proof (intro allI impI notI; elim conjE)
    fix y assume y: "split_map x v y = Some Inner" "y \<noteq> x"
      and free: "split_map x v (left_of y) = Some Free" "split_map x v (right_of y) = Some Free"
    have vy: "v y = Some Inner" using y by (auto simp: split_map_def split: if_splits)
    have "left_of y \<noteq> x" "right_of y \<noteq> x"
      using free by (auto simp: split_map_def child_eq split: if_splits)
    then have "v (left_of y) = Some Free" "v (right_of y) = Some Free" "y \<noteq> parent_of x"
      using free y(2) new vy buddy_map_okD(3)[OF ok x(1)]
      by (auto simp: split_map_def child_eq split: if_splits) (metis is_child[OF lev])
    then show False using c vy by (simp add: coalesced_but_def)
  qed
qed

text \<open>Marking a leaf as used or free leaves the shape as it is.\<close>

lemma mark_map_ok:
  assumes ok: "buddy_map_ok K v" and x: "v x = Some b" "b \<noteq> Inner" "c \<noteq> Inner"
  shows "buddy_map_ok K (v(x \<mapsto> c))"
  unfolding buddy_map_ok_def
proof (intro conjI ballI allI impI)
  show "(0, 0) \<in> dom (v(x \<mapsto> c))" using buddy_map_okD(1)[OF ok] by auto
next
  fix y assume y: "y \<in> dom (v(x \<mapsto> c))"
  then have vy: "y \<in> dom v" using x(1) by (auto split: if_splits)
  then show "in_level K y" using buddy_map_okD(2)[OF ok, of y] by auto
  assume "0 < fst y"
  then have "v (parent_of y) = Some Inner" using buddy_map_okD(3)[OF ok, of y] vy by auto
  then show "(v(x \<mapsto> c)) (parent_of y) = Some Inner" using x by auto
next
  fix y assume "(v(x \<mapsto> c)) y = Some Inner"
  then have "v y = Some Inner" using x(3) by (auto split: if_splits)
  then show "fst y < K" "left_of y \<in> dom (v(x \<mapsto> c))" "right_of y \<in> dom (v(x \<mapsto> c))"
    using buddy_map_okD(4)[OF ok, of y] by auto
qed

lemma mark_used:
  assumes ok: "buddy_map_ok K v" and x: "v x = Some Free" and c: "coalesced_but (parent_of x) v"
  shows "coalesced (v(x \<mapsto> Used))" "used (v(x \<mapsto> Used)) = insert x (used v)"
proof -
  show "used (v(x \<mapsto> Used)) = insert x (used v)" by (auto simp: used_def)
  have lev: "in_level K x" using buddy_map_okD(2)[OF ok x] .
  show "coalesced (v(x \<mapsto> Used))"
    unfolding coalesced_def
  proof (intro allI impI notI; elim conjE)
    fix y assume y: "(v(x \<mapsto> Used)) y = Some Inner"
      and free: "(v(x \<mapsto> Used)) (left_of y) = Some Free" "(v(x \<mapsto> Used)) (right_of y) = Some Free"
    have "y \<noteq> x" "left_of y \<noteq> x" "right_of y \<noteq> x" using y free by (auto split: if_splits)
    moreover from this have "y \<noteq> parent_of x" by (metis is_child[OF lev])
    ultimately show False using c y free by (auto simp: coalesced_but_def)
  qed
qed

lemma mark_free:
  assumes ok: "buddy_map_ok K v" and x: "v x = Some Used" and c: "coalesced v"
  shows "coalesced_but (parent_of x) (v(x \<mapsto> Free))" "used (v(x \<mapsto> Free)) = used v - {x}"
proof -
  show "used (v(x \<mapsto> Free)) = used v - {x}" by (auto simp: used_def)
  show "coalesced_but (parent_of x) (v(x \<mapsto> Free))"
    unfolding coalesced_but_def
  proof (intro allI impI notI; elim conjE)
    fix y assume y: "(v(x \<mapsto> Free)) y = Some Inner" "y \<noteq> parent_of x"
      and free: "(v(x \<mapsto> Free)) (left_of y) = Some Free" "(v(x \<mapsto> Free)) (right_of y) = Some Free"
    have "left_of y \<noteq> x" "right_of y \<noteq> x" using y(2) by auto
    then show False using c y free by (auto simp: coalesced_def split: if_splits)
  qed
qed

lemma merge_map_ok:
  assumes ok: "buddy_map_ok K v" and x: "v x = Some Inner"
    and free: "v (left_of x) = Some Free" "v (right_of x) = Some Free"
  shows "buddy_map_ok K (merge_map x v)"
    and "used (merge_map x v) = used v"
    and "coalesced_but x v \<Longrightarrow> coalesced_but (parent_of x) (merge_map x v)"
proof -
  let ?v = "merge_map x v"
  have dom: "y \<in> dom ?v \<longleftrightarrow> y \<in> dom v \<and> y \<noteq> left_of x \<and> y \<noteq> right_of x" for y
    using x by (auto simp: merge_map_def)
  have inner: "?v y = Some Inner \<longleftrightarrow> v y = Some Inner \<and> y \<noteq> x" for y
    using free by (auto simp: merge_map_def)
  show "buddy_map_ok K ?v"
    unfolding buddy_map_ok_def
  proof (intro conjI ballI allI impI)
    show "(0, 0) \<in> dom ?v"
      unfolding dom using buddy_map_okD(1)[OF ok] child_not_root by metis
  next
    fix y assume y: "y \<in> dom ?v"
    then show "in_level K y" using buddy_map_okD(2)[OF ok, of y] by (auto simp: dom)
    assume "0 < fst y"
    then have "v (parent_of y) = Some Inner" using buddy_map_okD(3)[OF ok, of y] y by (auto simp: dom)
    moreover have "parent_of y \<noteq> x"
    proof
      assume "parent_of y = x"
      then have "y = left_of x \<or> y = right_of x"
        using \<open>0 < fst y\<close> by (cases y rule: pos_cases) auto
      then show False using y by (simp add: dom)
    qed
    ultimately show "?v (parent_of y) = Some Inner" by (simp add: inner)
  next
    fix y assume y: "?v y = Some Inner"
    then show "fst y < K" using buddy_map_okD(4)[OF ok, of y] by (simp add: inner)
    show "left_of y \<in> dom ?v" "right_of y \<in> dom ?v"
      using y buddy_map_okD(4)[OF ok, of y] by (auto simp: inner dom child_eq)
  qed
  show "used ?v = used v"
    using x free by (auto simp: used_def merge_map_def)
  assume c: "coalesced_but x v"
  show "coalesced_but (parent_of x) ?v"
    unfolding coalesced_but_def
  proof (intro allI impI notI; elim conjE)
    fix y assume y: "?v y = Some Inner" "y \<noteq> parent_of x"
      and lr: "?v (left_of y) = Some Free" "?v (right_of y) = Some Free"
    have "left_of y \<noteq> x" "right_of y \<noteq> x" using y(2) by auto
    with lr have "v (left_of y) = Some Free" "v (right_of y) = Some Free"
      by (auto simp: merge_map_def split: if_splits)
    then show False using c y(1) by (auto simp: coalesced_but_def inner)
  qed
qed

section \<open>Every free aligned block can be found\<close>

lemma inner_has_used:
  assumes ok: "buddy_map_ok K v" and c: "coalesced v" and "v x = Some Inner"
  shows "\<exists>y. v y = Some Used \<and> under x y"
  using assms(3)
proof (induction "K - fst x" arbitrary: x rule: less_induct)
  case less
  from buddy_map_okD(4)[OF ok less.prems]
  have d: "fst x < K" "left_of x \<in> dom v" "right_of x \<in> dom v" by auto
  then obtain b1 b2 where b: "v (left_of x) = Some b1" "v (right_of x) = Some b2" by auto
  have "\<not> (b1 = Free \<and> b2 = Free)" using c less.prems b by (auto simp: coalesced_def)
  then have "b1 \<noteq> Free \<or> b2 \<noteq> Free" by blast
  moreover have "b = Used \<or> b = Inner" if "b \<noteq> Free" for b using that by (cases b) auto
  ultimately obtain z where z: "z = left_of x \<or> z = right_of x" "v z = Some Used \<or> v z = Some Inner"
    using b by blast
  have below: "under x y" if "under z y" for y using under_step[of x y] z(1) that by auto
  show ?case
  proof (cases "v z = Some Used")
    case True
    then show ?thesis using below[of z] by auto
  next
    case False
    moreover have "K - fst z < K - fst x" using z(1) d(1) by (auto simp: left_of_def right_of_def)
    ultimately show ?thesis using less.hyps[of z] z(2) below by blast
  qed
qed

lemma present_or_in_leaf:
  assumes ok: "buddy_map_ok K v" and "in_level K x"
  shows "x \<in> dom v \<or> (\<exists>y b. v y = Some b \<and> b \<noteq> Inner \<and> under y x)"
  using assms(2)
proof (induction "fst x" arbitrary: x)
  case 0
  then have "x = (0, 0)" by (simp add: in_level_def prod_eq_iff)
  then show ?case using buddy_map_okD(1)[OF ok] by simp
next
  case (Suc l)
  let ?p = "parent_of x"
  have x: "x = left_of ?p \<or> x = right_of ?p" using Suc.hyps(2) by (cases x rule: pos_cases) auto
  have up: "under y x" if "under y ?p" for y
    using that x
  proof (induction "fst ?p - fst y" arbitrary: y)
    case 0
    then have "y = ?p" by (simp add: under_def prod_eq_iff)
    then show ?case using 0 under_step[of y x] by auto
  next
    case (Suc d)
    then have "y \<noteq> ?p" by auto
    then obtain z where "z = left_of y \<or> z = right_of y" "under z ?p"
      using under_step[of y ?p] Suc.prems(1) by metis
    moreover from this have "d = fst ?p - fst z" using Suc.hyps(2) by (auto simp: left_of_def right_of_def)
    ultimately have "under z x" using Suc.hyps(1)[of z] x by blast
    then show ?case using under_step[of y x] \<open>z = left_of y \<or> z = right_of y\<close> by auto
  qed
  have "l = fst ?p" "in_level K ?p"
    using Suc.hyps(2)[symmetric] Suc.prems by (auto simp: parent_of_def in_level_def less_mult_imp_div_less)
  from Suc.hyps(1)[OF this] show ?case
  proof
    assume "?p \<in> dom v"
    then obtain b where b: "v ?p = Some b" by auto
    show ?thesis
    proof (cases "b = Inner")
      case True
      then show ?thesis using buddy_map_okD(4)[OF ok, of ?p] b x by metis
    qed (use b up[of ?p] in auto)
  qed (use up in blast)
qed

lemma free_block_in_leaf:
  assumes ok: "buddy_map_ok K v" and c: "coalesced v" and x: "in_level K x"
    and free: "block_pages K x \<subseteq> free_pages K v"
  shows "\<exists>y. v y = Some Free \<and> block_size K x \<le> block_size K y"
proof -
  have notin: "\<not> (v y = Some Used \<and> (under y x \<or> under x y))" for y
  proof
    assume y: "v y = Some Used \<and> (under y x \<or> under x y)"
    then have lev: "fst y \<le> K" "fst x \<le> K" using buddy_map_okD(2)[OF ok, of y] x by (auto simp: in_level_def)
    have "block_pages K x \<inter> block_pages K y = {}" using free y by (auto simp: free_pages_def used_def)
    moreover have "block_pages K x \<subseteq> block_pages K y \<or> block_pages K y \<subseteq> block_pages K x"
      using pages_under[of y x K] pages_under[of x y K] y lev by auto
    moreover have "block_pages K z \<noteq> {}" for z by (simp add: block_pages_def)
    ultimately show False by blast
  qed
  from present_or_in_leaf[OF ok x] consider b where "v x = Some b"
    | y b where "v y = Some b" "b \<noteq> Inner" "under y x" by auto
  then show ?thesis
  proof cases
    case (1 b)
    then show ?thesis
      using inner_has_used[OF ok c, of x] notin[of x] notin by (cases b) (auto 0 3)
  next
    case (2 y b)
    have "block_size K x \<le> block_size K y" using 2(3) by (simp add: block_size_def under_def diff_le_mono2)
    then show ?thesis using 2 notin[of y] by (cases b) auto
  qed
qed

end
