(* ===== verification/Buddy_Correct.thy ===== *)
theory Buddy_Correct
  imports Buddy_Spec
begin

text \<open>
  The buddy tree of \<open>Buddy\<close> implements the map of blocks of \<open>Buddy_Spec\<close>: searching, splitting,
  merging, allocating and freeing.
\<close>

section \<open>The representation\<close>

fun flag_of :: "block \<Rightarrow> u8" where
  "flag_of Free = 0"
| "flag_of Inner = HAS_CHILDREN_FLAG"
| "flag_of Used = IS_OCCUPIED_FLAG"

text \<open>The bytes of the positions that are present; all others are irrelevant.\<close>

definition stores :: "nat \<Rightarrow> buddy_tree \<Rightarrow> buddy_map \<Rightarrow> bool" where
  "stores K t v \<longleftrightarrow>
     unat (bt_pages t) = 2 ^ K \<and> 2 * 2 ^ K - 1 \<le> length (bt_children t)
     \<and> (\<forall>x b. v x = Some b \<longrightarrow> in_level K x \<and> bt_children t ! node x = Some (flag_of b))"

definition represents :: "nat \<Rightarrow> buddy_tree \<Rightarrow> buddy_map \<Rightarrow> bool" where
  "represents K t v \<longleftrightarrow> stores K t v \<and> buddy_map_ok K v"

lemma block_flag_bits [simp]:
  "flag_of b AND HAS_CHILDREN_FLAG = 0 \<longleftrightarrow> b \<noteq> Inner"
  "flag_of b AND IS_OCCUPIED_FLAG = 0 \<longleftrightarrow> b \<noteq> Used"
  "flag_of b AND (HAS_CHILDREN_FLAG OR IS_OCCUPIED_FLAG) = 0 \<longleftrightarrow> b = Free"
  by (cases b; simp add: HAS_CHILDREN_FLAG_def IS_OCCUPIED_FLAG_def)+

lemma flag_updates [simp]:
  "flag_of Free OR HAS_CHILDREN_FLAG = flag_of Inner"
  "flag_of Inner AND NOT HAS_CHILDREN_FLAG = flag_of Free"
  "flag_of Free OR IS_OCCUPIED_FLAG = flag_of Used"
  "flag_of Used AND NOT IS_OCCUPIED_FLAG = flag_of Free"
  by (simp_all add: HAS_CHILDREN_FLAG_def IS_OCCUPIED_FLAG_def)

declare flag_of.simps [simp del]

lemma stores_length: "stores K t v \<Longrightarrow> in_level K x \<Longrightarrow> node x < length (bt_children t)"
  using node_bound[of K x] by (auto simp: stores_def)

lemma representsD:
  assumes "represents K t v"
  shows "unat (bt_pages t) = 2 ^ K" "buddy_map_ok K v" "stores K t v"
    and "v x = Some b \<Longrightarrow> node x < length (bt_children t) \<and> bt_children t ! node x = Some (flag_of b)"
    and "in_level K x \<Longrightarrow> node x < length (bt_children t)"
    and "v x = Some b \<Longrightarrow> in_level K x"
  using assms stores_length[of K t v x] by (auto simp: represents_def stores_def)

lemma get_child_represents:
  "represents K t v \<Longrightarrow> v x = Some b \<Longrightarrow> get_child t (node x) = Ret (flag_of b)"
  using representsD(4)[of K t v x b] by (simp add: get_child_Ret)

text \<open>Node numbers of present positions fit into the bytes the tree needs, and into \<open>usize\<close>.\<close>

lemma live_node_bound:
  assumes "represents K t v" "v x = Some b"
  shows "node x < 2 * unat (bt_pages t) - 1 \<and> node x < 2 ^ 64"
proof -
  have n: "node x < 2 * 2 ^ K - 1"
    using node_bound representsD(6)[OF assms] by blast
  have "unat (bt_pages t) < 2 ^ LENGTH(64)" by (rule unsigned_less)
  then have "(2::nat) ^ K < 2 ^ 64" using representsD(1)[OF assms(1)] by simp
  then have "K < 64" by (simp only: power_strict_increasing_iff)
  then have "(2::nat) ^ K \<le> 2 ^ 63" by (intro power_increasing) auto
  with n show ?thesis using representsD(1)[OF assms(1)] by simp
qed

lemma start_and_pages:
  assumes "represents K t v" "in_level K x"
  shows "get_child_start_and_pages t (node x) = (block_start K x, block_size K x)"
proof -
  have "ilog2 (Suc (node x)) = fst x" using assms(2) by (simp add: ilog2_node in_level_def)
  moreover have "(2::nat) ^ K div 2 ^ fst x = 2 ^ (K - fst x)"
    using assms(2) by (simp add: power_diff in_level_def)
  moreover have "node x - (2 ^ fst x - 1) = snd x" by (simp add: node_def)
  ultimately show ?thesis
    using representsD(1)[OF assms(1)]
    by (simp add: get_child_start_and_pages_def Let_def block_start_def block_size_def)
qed

text \<open>Writing the byte of a position changes the map there.\<close>

definition set_child :: "pos \<Rightarrow> block \<Rightarrow> buddy_tree \<Rightarrow> buddy_tree" where
  "set_child x b t = t\<lparr> bt_children := (bt_children t)[node x := Some (flag_of b)] \<rparr>"

lemma set_child_simps [simp]:
  "bt_base (set_child x b t) = bt_base t" "bt_pages (set_child x b t) = bt_pages t"
  "length (bt_children (set_child x b t)) = length (bt_children t)"
  "get_child_start_and_pages (set_child x b t) n = get_child_start_and_pages t n"
  by (simp_all add: set_child_def get_child_start_and_pages_def)

lemma stores_set_child:
  assumes "stores K t v" "in_level K x"
  shows "stores K (set_child x b t) (v(x \<mapsto> b))"
proof -
  have "node x \<noteq> node y" if "v y = Some c" "y \<noteq> x" for y c
    using node_inj[of x y] assms that by (auto simp: in_level_def stores_def)
  then show ?thesis
    using assms stores_length[OF assms] by (auto simp: stores_def set_child_def)
qed

lemma stores_mono: "stores K t v \<Longrightarrow> v' \<subseteq>\<^sub>m v \<Longrightarrow> stores K t v'"
  by (auto simp: stores_def map_le_def dom_def)

lemma write_child_set:
  "node x < length (bt_children t) \<Longrightarrow> f = flag_of b \<Longrightarrow> write_child (node x) f t = Ret (set_child x b t)"
  by (simp add: write_child_def set_child_def)

lemma update_child_set:
  assumes "stores K t v" "v x = Some b" "g (flag_of b) = flag_of c"
  shows "update_child (node x) g t = Ret (set_child x c t)"
  using assms stores_length[OF assms(1), of x]
  by (auto simp: update_child_def get_child_def stores_def set_child_def write_child_def)

section \<open>Searching\<close>

text \<open>A free leaf below a position that is large enough.\<close>

definition block_fits :: "nat \<Rightarrow> buddy_map \<Rightarrow> nat \<Rightarrow> pos \<Rightarrow> pos \<Rightarrow> bool" where
  "block_fits K v pages x y \<longleftrightarrow> under x y \<and> v y = Some Free \<and> pages \<le> block_size K y"

text \<open>The smallest one below the bound, or nothing when there is none.\<close>

definition best_fit :: "nat \<Rightarrow> buddy_map \<Rightarrow> nat \<Rightarrow> pos \<Rightarrow> nat \<Rightarrow> (nat \<times> nat) option \<Rightarrow> bool" where
  "best_fit K v pages x bound r \<longleftrightarrow>
     (case r of
        None \<Rightarrow> \<forall>y. block_fits K v pages x y \<longrightarrow> bound \<le> block_size K y
      | Some (n, m) \<Rightarrow> m < bound
          \<and> (\<exists>y. block_fits K v pages x y \<and> n = node y \<and> m = block_size K y)
          \<and> (\<forall>y. block_fits K v pages x y \<longrightarrow> m \<le> block_size K y))"

lemma block_fits_children:
  assumes "v x = Some Inner"
  shows "block_fits K v pages x y \<longleftrightarrow> block_fits K v pages (left_of x) y \<or> block_fits K v pages (right_of x) y"
  using assms under_step[of x y] by (auto simp: block_fits_def)

lemma find_fitting_leaf_best:
  assumes r: "represents K t v" and "v x = Some b"
  shows "\<exists>res. find_fitting_leaf_from t pages (node x) bound = Ret res \<and> best_fit K v pages x bound res"
  using assms(2)
proof (induction "K - fst x" arbitrary: x b bound rule: less_induct)
  case less
  note child = get_child_represents[OF r less.prems]
  note lev = representsD(6)[OF r less.prems]
  show ?case
  proof (cases "b = Inner")
    case False
    have "block_fits K v pages x y \<longleftrightarrow> y = x \<and> b = Free \<and> pages \<le> block_size K x" for y
      using leaf_alone[OF representsD(2)[OF r] less.prems False, of y] less.prems
      by (auto simp: block_fits_def dom_def)
    with False show ?thesis
      by (subst find_fitting_leaf_from.simps)
        (cases b; auto simp: child start_and_pages[OF r lev] best_fit_def Let_def)
  next
    case True
    have inner: "v x = Some Inner" using less.prems True by simp
    from buddy_map_okD(4)[OF representsD(2)[OF r] inner] obtain bl br
      where d: "fst x < K" "v (left_of x) = Some bl" "v (right_of x) = Some br" by auto
    then have m: "K - fst (left_of x) < K - fst x" "K - fst (right_of x) < K - fst x"
      by (auto simp: left_of_def right_of_def)
    obtain rl where l: "find_fitting_leaf_from t pages (node (left_of x)) bound = Ret rl"
      "best_fit K v pages (left_of x) bound rl"
      using less.hyps[OF m(1) d(2)] by blast
    define beat where "beat = (case rl of None \<Rightarrow> bound | Some (n, m) \<Rightarrow> m)"
    obtain rr where rt: "find_fitting_leaf_from t pages (node (right_of x)) beat = Ret rr"
      "best_fit K v pages (right_of x) beat rr"
      using less.hyps[OF m(2) d(3)] by blast
    define res where "res = (case rr of None \<Rightarrow> rl | Some p \<Rightarrow> Some p)"
    have "find_fitting_leaf_from t pages (node x) bound = Ret res"
      using l(1) rt(1) True
      by (subst find_fitting_leaf_from.simps)
        (auto simp: child Let_def beat_def res_def split: option.splits)
    moreover have "best_fit K v pages x bound res"
      using l(2) rt(2)
      by (auto simp: best_fit_def beat_def res_def block_fits_children[of v x, OF inner] split: option.splits)
    ultimately show ?thesis by blast
  qed
qed

lemma find_node_leaf:
  assumes r: "represents K t v" and "v x = Some b"
    and "block_start K x \<le> start" "start < block_start K x + block_size K x"
  shows "\<exists>y c. v y = Some c \<and> c \<noteq> Inner \<and> under x y \<and> start \<in> block_pages K y
    \<and> find_node_from t start (node x) = Ret (if block_start K y = start then Some (node y) else None)"
  using assms(2-)
proof (induction "K - fst x" arbitrary: x b rule: less_induct)
  case less
  note child = get_child_represents[OF r less.prems(1)]
  note lev = representsD(6)[OF r less.prems(1)]
  show ?case
  proof (cases "b = Inner")
    case False
    have "find_node_from t start (node x) = Ret (if block_start K x = start then Some (node x) else None)"
      using less.prems False
      by (subst find_node_from.simps) (simp add: child start_and_pages[OF r lev])
    then show ?thesis using less.prems False by (auto simp: block_pages_def intro!: exI[where x = x])
  next
    case True
    have inner: "v x = Some Inner" using less.prems True by simp
    from buddy_map_okD(4)[OF representsD(2)[OF r] inner] obtain bl br
      where d: "fst x < K" "v (left_of x) = Some bl" "v (right_of x) = Some br" by auto
    define z where "z = (if start < block_start K x + block_size K x div 2 then left_of x else right_of x)"
    have half: "block_size K x = 2 * block_size K (left_of x)" using block_size_child[OF d(1)] .
    have eq: "find_node_from t start (node x) = find_node_from t start (node z)"
      using less.prems(2,3) True
      by (subst find_node_from.simps) (simp add: child start_and_pages[OF r lev] z_def)
    have "K - fst z < K - fst x" using d(1) by (simp add: z_def left_of_def right_of_def)
    moreover obtain c where "v z = Some c"
      using d(2,3) by (cases "start < block_start K x + block_size K x div 2") (auto simp: z_def)
    moreover have "block_start K z \<le> start" "start < block_start K z + block_size K z"
      using less.prems(2,3) block_start_child[OF d(1)] half by (auto simp: z_def block_size_right)
    ultimately obtain y c' where y: "v y = Some c'" "c' \<noteq> Inner" "under z y" "start \<in> block_pages K y"
      "find_node_from t start (node z) = Ret (if block_start K y = start then Some (node y) else None)"
      using less.hyps[of z] by blast
    moreover have "under x y" using y(3) under_step[of x y] by (auto simp: z_def split: if_splits)
    ultimately show ?thesis unfolding eq by blast
  qed
qed

section \<open>Splitting\<close>

lemma split_node_represents:
  assumes r: "represents K t v" and x: "v x = Some Free" "fst x < K"
  shows "\<exists>t'. split_node (node x) t = Ret ((node (left_of x), node (right_of x)), t')
    \<and> represents K t' (split_map x v) \<and> bt_base t' = bt_base t \<and> bt_pages t' = bt_pages t"
proof -
  have lev: "in_level K x" "in_level K (left_of x)" "in_level K (right_of x)"
    using representsD(6)[OF r x(1)] in_level_children x(2) by auto
  let ?t1 = "set_child x Inner t"
  let ?t2 = "set_child (left_of x) Free ?t1"
  let ?t3 = "set_child (right_of x) Free ?t2"
  have s1: "stores K ?t1 (v(x \<mapsto> Inner))" using stores_set_child[OF representsD(3)[OF r] lev(1)] .
  have s2: "stores K ?t2 (v(x \<mapsto> Inner, left_of x \<mapsto> Free))" using stores_set_child[OF s1 lev(2)] .
  have s3: "stores K ?t3 (split_map x v)"
    using stores_set_child[OF s2 lev(3)] by (simp add: split_map_def)
  have "split_node (node x) t = Ret ((node (left_of x), node (right_of x)), ?t3)"
    using update_child_set[where g = "\<lambda>f. f OR HAS_CHILDREN_FLAG" and c = Inner, OF representsD(3)[OF r] x(1) flag_updates(1)]
      write_child_set[OF stores_length[OF s1 lev(2)], of 0 Free]
      write_child_set[OF stores_length[OF s2 lev(3)], of 0 Free]
    by (simp add: split_node_def flag_of.simps(1))
  moreover have "represents K ?t3 (split_map x v)"
    using s3 split_map_ok(1)[OF representsD(2)[OF r] x] by (simp add: represents_def)
  ultimately show ?thesis by auto
qed

lemma split_down_represents:
  assumes "represents K t v" "v x = Some Free" "coalesced_but (parent_of x) v" "0 < pages" "pages \<le> block_size K x"
  shows "\<exists>y t' v'. split_down pages (node x) t = Ret (node y, t') \<and> represents K t' v'
    \<and> v' y = Some Free \<and> coalesced_but (parent_of y) v' \<and> used v' = used v
    \<and> pages \<le> block_size K y \<and> block_size K y < 2 * pages
    \<and> bt_base t' = bt_base t \<and> bt_pages t' = bt_pages t"
  using assms
proof (induction "K - fst x" arbitrary: x t v rule: less_induct)
  case less
  note r = less.prems(1)
  note lev = representsD(6)[OF r less.prems(2)]
  show ?case
  proof (cases "pages \<le> block_size K x div 2")
    case False
    then have "split_down pages (node x) t = Ret (node x, t)"
      using less.prems(4) by (subst split_down.simps) (simp add: start_and_pages[OF r lev])
    then show ?thesis using less.prems False by (intro exI[where x = x] exI[where x = t] exI[where x = v]) auto
  next
    case True
    have "fst x \<noteq> K" using True less.prems(4) by (auto simp: block_size_def)
    then have d: "fst x < K" using lev by (simp add: in_level_def)
    obtain t1 where t1: "split_node (node x) t = Ret ((node (left_of x), node (right_of x)), t1)"
      "represents K t1 (split_map x v)" "bt_base t1 = bt_base t" "bt_pages t1 = bt_pages t"
      using split_node_represents[OF r less.prems(2) d] by blast
    have eq: "split_down pages (node x) t = split_down pages (node (left_of x)) t1"
      using True less.prems(4) t1(1) by (subst split_down.simps) (simp add: start_and_pages[OF r lev])
    note ok = split_map_ok[OF representsD(2)[OF r] less.prems(2) d]
    have "K - fst (left_of x) < K - fst x" using d by (simp add: left_of_def)
    moreover have "split_map x v (left_of x) = Some Free" by (simp add: split_map_def)
    moreover have "coalesced_but (parent_of (left_of x)) (split_map x v)" using ok(3) less.prems(3) by simp
    moreover have "pages \<le> block_size K (left_of x)" using True block_size_child[OF d] by simp
    ultimately show ?thesis
      using less.hyps[OF _ t1(2), of "left_of x"] less.prems(4) ok(2) t1(3,4) unfolding eq by auto
  qed
qed

section \<open>Merging\<close>

lemma node_parent_sibling:
  "(node (left_of x) - 1) div 2 = node x" "(node (right_of x) - 1) div 2 = node x"
  "node (left_of x) mod 2 = 1" "node (right_of x) mod 2 = 0"
  "node (left_of x) + 1 = node (right_of x)" "node (right_of x) - 1 = node (left_of x)"
  "node (left_of x) \<noteq> 0" "node (right_of x) \<noteq> 0"
proof -
  have l: "node (left_of x) = node x * 2 + 1" and r: "node (right_of x) = node x * 2 + 2"
    using node_children[of x] by simp_all
  show "(node (left_of x) - 1) div 2 = node x" "(node (right_of x) - 1) div 2 = node x"
    "node (left_of x) mod 2 = 1" "node (right_of x) mod 2 = 0"
    "node (left_of x) + 1 = node (right_of x)" "node (right_of x) - 1 = node (left_of x)"
    "node (left_of x) \<noteq> 0" "node (right_of x) \<noteq> 0"
    unfolding l r by presburger+
qed

lemma node_parity: "odd (node (left_of x))" "even (node (right_of x))" "node (left_of x) div 2 = node x"
  using node_parent_sibling[of x] by presburger+

lemma try_merge_represents:
  assumes "represents K t v" "v x = Some Free" "coalesced_but (parent_of x) v"
  shows "\<exists>t' v'. try_merge (node x) t = Ret t' \<and> represents K t' v' \<and> coalesced v' \<and> used v' = used v
    \<and> bt_base t' = bt_base t \<and> bt_pages t' = bt_pages t"
  using assms
proof (induction "fst x" arbitrary: x t v)
  case 0
  then have "x = (0, 0)" using representsD(6)[of K t v x] by (simp add: in_level_def prod_eq_iff)
  then have "try_merge (node x) t = Ret t" "coalesced v"
    using 0 by (auto simp: node_def try_merge.simps coalesced_but_def coalesced_def parent_of_def)
  then show ?case using 0 by auto
next
  case (Suc l)
  note r = Suc.prems(1) and ok = representsD(2)[OF Suc.prems(1)]
  define p where "p = parent_of x"
  have p: "v p = Some Inner" using buddy_map_okD(3)[OF ok Suc.prems(2)] Suc.hyps(2) by (simp add: p_def)
  have but: "coalesced_but p v" using Suc.prems(3) by (simp add: p_def)
  have l: "l = fst p" using Suc.hyps(2) by (simp add: p_def parent_of_def)
  have "x = left_of p \<or> x = right_of p"
    using Suc.hyps(2) unfolding p_def by (cases x rule: pos_cases) auto
  then obtain s where s: "x = left_of p \<and> s = right_of p \<or> x = right_of p \<and> s = left_of p" by blast
  from buddy_map_okD(4)[OF ok p] s obtain c where c: "v s = Some c" by auto
  have step: "try_merge (node x) t =
      (if c = Free then bind_exec (update_child (node p) (\<lambda>f. f AND NOT HAS_CHILDREN_FLAG) t) (try_merge (node p))
       else Ret t)"
    using s get_child_represents[OF r Suc.prems(2)] get_child_represents[OF r c]
    by (subst try_merge.simps) (auto simp: node_parent_sibling(1,2,5-8)[unfolded One_nat_def] node_parity Let_def)
  show ?case
  proof (cases "c = Free")
    case False
    have "coalesced v"
      unfolding coalesced_def
    proof (intro allI impI)
      fix y assume y: "v y = Some Inner"
      show "\<not> (v (left_of y) = Some Free \<and> v (right_of y) = Some Free)"
      proof (cases "y = p")
        case True
        then show ?thesis using s c False by auto
      next
        case False
        then show ?thesis using but y unfolding coalesced_but_def by blast
      qed
    qed
    then show ?thesis using step False r by auto
  next
    case True
    let ?t1 = "set_child p Free t" and ?v1 = "merge_map p v"
    have free: "v (left_of p) = Some Free" "v (right_of p) = Some Free"
      using s c True Suc.prems(2) by auto
    have "stores K ?t1 (v(p \<mapsto> Free))"
      using stores_set_child[OF representsD(3)[OF r]] representsD(6)[OF r p] by blast
    then have "stores K ?t1 ?v1"
      by (rule stores_mono) (auto simp: merge_map_def map_le_def)
    then have r1: "represents K ?t1 ?v1"
      using merge_map_ok(1)[OF ok p free] by (simp add: represents_def)
    have "try_merge (node x) t = try_merge (node p) ?t1"
      using step True update_child_set[where g = "\<lambda>f. f AND NOT HAS_CHILDREN_FLAG" and c = Free,
          OF representsD(3)[OF r] p] by simp
    moreover have "?v1 p = Some Free" by (simp add: merge_map_def)
    ultimately show ?thesis
      using Suc.hyps(1)[OF l r1] merge_map_ok(2,3)[OF ok p free] but by auto
  qed
qed

section \<open>Allocating and freeing\<close>

text \<open>A tree in use: its pages end before the last byte of the address space.\<close>

definition buddy_inv :: "nat \<Rightarrow> buddy_tree \<Rightarrow> buddy_map \<Rightarrow> bool" where
  "buddy_inv K t v \<longleftrightarrow> represents K t v \<and> coalesced v \<and> unat (bt_base t) + 2 ^ K * 4096 < 2 ^ 64"

definition block_address :: "nat \<Rightarrow> buddy_tree \<Rightarrow> pos \<Rightarrow> usize" where
  "block_address K t x = bt_base t + of_nat (block_start K x) * PAGE_SIZE"

lemma block_start_less: "in_level K x \<Longrightarrow> block_start K x < 2 ^ K"
  using block_within[of K x] by (auto simp: block_pages_def) (meson atLeastLessThan_iff block_size_pos le_refl less_add_same_cancel1 lessThan_iff subsetD)

lemma unat_block_address:
  assumes "buddy_inv K t v" "in_level K x"
  shows "unat (block_address K t x) = unat (bt_base t) + block_start K x * 4096"
proof -
  have "block_start K x * 4096 < 2 ^ K * 4096" using block_start_less[OF assms(2)] by simp
  then have "unat (bt_base t) + block_start K x * 4096 < 2 ^ 64"
    using assms(1) unfolding buddy_inv_def by linarith
  then show ?thesis
    by (simp add: block_address_def PAGE_SIZE_def unat_word_ariths unat_of_nat)
qed

lemma buddy_alloc_spec:
  assumes inv: "buddy_inv K t v" and "pages \<noteq> 0"
  shows "(\<exists>x t' v'. buddy_alloc pages t = Ret (Some (block_address K t x), t') \<and> buddy_inv K t' v'
            \<and> in_level K x \<and> used v' = insert x (used v) \<and> x \<notin> used v
            \<and> unat pages \<le> block_size K x \<and> block_size K x < 2 * unat pages
            \<and> bt_base t' = bt_base t \<and> bt_pages t' = bt_pages t)
    \<or> (buddy_alloc pages t = Ret (None, t) \<and> (\<forall>x. v x = Some Free \<longrightarrow> block_size K x < unat pages))"
proof -
  have r: "represents K t v" and c: "coalesced v" using inv by (auto simp: buddy_inv_def)
  note ok = representsD(2)[OF r]
  obtain b where root: "v (0, 0) = Some b" using buddy_map_okD(1)[OF ok] by auto
  obtain res where res: "find_fitting_leaf_from t (unat pages) (node (0, 0)) (2 ^ 64 - 1) = Ret res"
    "best_fit K v (unat pages) (0, 0) (2 ^ 64 - 1) res"
    using find_fitting_leaf_best[OF r root] by blast
  have pos: "0 < unat pages" using assms(2) by (simp add: unat_gt_0)
  have "node (0, 0) = 0" by (simp add: node_def)
  then have find: "find_fitting_leaf t (unat pages) = Ret (map_option fst res)"
    using res(1) by (simp add: find_fitting_leaf_def)
  show ?thesis
  proof (cases res)
    case None
    have "2 ^ K \<le> (2::nat) ^ 63"
    proof -
      have "unat (bt_pages t) < 2 ^ LENGTH(64)" by (rule unsigned_less)
      then have "(2::nat) ^ K < 2 ^ 64" using representsD(1)[OF r] by simp
      then have "K < 64" by (simp only: power_strict_increasing_iff)
      then show ?thesis by (intro power_increasing) auto
    qed
    moreover have "block_size K x \<le> 2 ^ K" for x
      unfolding block_size_def by (intro power_increasing) auto
    ultimately have "block_size K x \<le> 2 ^ 63" for x using le_trans by blast
    then have "block_size K x < 2 ^ 64 - 1" for x
      by (rule le_less_trans) simp
    then have "block_size K x < unat pages" if "v x = Some Free" for x
      using res(2) None that under_root[OF representsD(6)[OF r that]]
      by (auto simp: best_fit_def block_fits_def not_le[symmetric])
    moreover have "buddy_alloc pages t = Ret (None, t)"
      using find None assms(2) by (simp add: buddy_alloc_def)
    ultimately show ?thesis by blast
  next
    case (Some nm)
    then obtain x where x: "v x = Some Free" "unat pages \<le> block_size K x" "fst nm = node x"
      using res(2) by (cases nm) (auto simp: best_fit_def block_fits_def)
    have "coalesced_but (parent_of x) v" using c by (auto simp: coalesced_def coalesced_but_def)
    from split_down_represents[OF r x(1) this pos x(2)] obtain y t1 v1
      where y: "split_down (unat pages) (node x) t = Ret (node y, t1)" "represents K t1 v1" "v1 y = Some Free"
        "coalesced_but (parent_of y) v1" "used v1 = used v" "unat pages \<le> block_size K y"
        "block_size K y < 2 * unat pages" "bt_base t1 = bt_base t" "bt_pages t1 = bt_pages t"
      by blast
    note ok1 = representsD(2)[OF y(2)] and lev = representsD(6)[OF y(2,3)]
    let ?t2 = "set_child y Used t1" and ?v2 = "v1(y \<mapsto> Used)"
    have upd: "update_child (node y) (\<lambda>f. f OR IS_OCCUPIED_FLAG) t1 = Ret ?t2"
      using update_child_set[where g = "\<lambda>f. f OR IS_OCCUPIED_FLAG" and c = Used, OF representsD(3)[OF y(2)] y(3) flag_updates(3)] .
    have "buddy_alloc pages t = Ret (Some (block_address K t y), ?t2)"
      using find Some x(3) assms(2) y(1) upd start_and_pages[OF y(2) lev] y(8)
      by (simp add: buddy_alloc_def block_address_def add.commute)
    moreover have "represents K ?t2 ?v2"
      using stores_set_child[OF representsD(3)[OF y(2)] lev] mark_map_ok[OF ok1 y(3)]
      by (simp add: represents_def)
    then have "buddy_inv K ?t2 ?v2"
      using inv mark_used(1)[OF ok1 y(3,4)] y(8) by (simp add: buddy_inv_def)
    moreover have "y \<notin> used v" unfolding y(5)[symmetric] using y(3) by (simp add: used_def)
    ultimately show ?thesis using mark_used(2)[OF ok1 y(3,4)] y(5-9) lev by auto
  qed
qed

lemma used_by_start:
  assumes "buddy_map_ok K v" "x \<in> used v" "y \<in> used v" "block_start K x = block_start K y"
  shows "x = y"
proof (rule ccontr)
  assume "x \<noteq> y"
  then have "block_pages K x \<inter> block_pages K y = {}"
    using leaves_disjoint[OF assms(1), of x Used y Used] assms(2,3) by (auto simp: used_def)
  moreover have "block_start K x \<in> block_pages K x \<inter> block_pages K y"
    using assms(4) by (simp add: block_pages_def)
  ultimately show False by blast
qed

lemma buddy_free_spec:
  assumes inv: "buddy_inv K t v"
  shows "(\<exists>x t' v'. x \<in> used v \<and> unat (page - bt_base t) div 4096 = block_start K x \<and> bt_base t \<le> page
            \<and> buddy_free page t = Ret (Inr (), t') \<and> buddy_inv K t' v' \<and> used v' = used v - {x}
            \<and> bt_base t' = bt_base t \<and> bt_pages t' = bt_pages t)
    \<or> (buddy_free page t = Ret (Inl (), t)
        \<and> \<not> (\<exists>x \<in> used v. bt_base t \<le> page \<and> unat (page - bt_base t) div 4096 = block_start K x))"
proof -
  have r: "represents K t v" and c: "coalesced v" using inv by (auto simp: buddy_inv_def)
  note ok = representsD(2)[OF r]
  let ?start = "unat (page - bt_base t) div 4096"
  have fits: "unat (bt_base t) + 2 ^ K * 4096 < 2 ^ 64" using inv by (simp add: buddy_inv_def)
  then have "unat (bt_pages t * PAGE_SIZE) = 2 ^ K * 4096"
    by (simp add: unat_word_ariths representsD(1)[OF r] PAGE_SIZE_def)
  then have top: "unat (bt_base t + bt_pages t * PAGE_SIZE) = unat (bt_base t) + 2 ^ K * 4096"
    using fits by (simp add: unat_word_ariths)
  have start: "unat ((page - bt_base t) div PAGE_SIZE) = ?start"
    by (simp add: PAGE_SIZE_def unat_div_distrib)
  show ?thesis
  proof (cases "page < bt_base t \<or> bt_base t + bt_pages t * PAGE_SIZE \<le> page")
    case True
    then have "2 ^ K \<le> ?start" if "bt_base t \<le> page"
      using that top by (auto simp: word_less_nat_alt word_le_nat_alt unat_sub less_eq_div_iff_mult_less_eq)
    moreover have "block_start K x < 2 ^ K" if "x \<in> used v" for x
      using block_start_less representsD(6)[OF r, of x Used] that by (auto simp: used_def)
    ultimately have "\<not> (\<exists>x \<in> used v. bt_base t \<le> page \<and> ?start = block_start K x)"
      using leD by metis
    moreover have "buddy_free page t = Ret (Inl (), t)" using True by (simp add: buddy_free_def)
    ultimately show ?thesis by blast
  next
    case False
    then have le: "bt_base t \<le> page" "unat page < unat (bt_base t) + 2 ^ K * 4096"
      using top by (auto simp: word_less_nat_alt word_le_nat_alt not_le)
    then have "unat (page - bt_base t) < 2 ^ K * 4096" by (simp add: unat_sub word_le_nat_alt)
    then have s: "?start < 2 ^ K" by (simp add: less_mult_imp_div_less)
    obtain b where root: "v (0, 0) = Some b" using buddy_map_okD(1)[OF ok] by auto
    have "block_start K (0, 0) \<le> ?start" "?start < block_start K (0, 0) + block_size K (0, 0)"
      using s by (simp_all add: block_start_def block_size_def)
    from find_node_leaf[OF r root this] obtain y d
      where y: "v y = Some d" "d \<noteq> Inner" "?start \<in> block_pages K y"
        "find_node_from t ?start (node (0, 0)) = Ret (if block_start K y = ?start then Some (node y) else None)"
      by blast
    have find: "find_node t ?start = Ret (if block_start K y = ?start then Some (node y) else None)"
      using y(4) by (simp add: find_node_def node_def)
    show ?thesis
    proof (cases "block_start K y = ?start \<and> d = Used")
      case True
      note lev = representsD(6)[OF r y(1)]
      let ?t1 = "set_child y Free t" and ?v1 = "v(y \<mapsto> Free)"
      have vy: "v y = Some Used" using True y(1) by simp
      have upd: "update_child (node y) (\<lambda>f. f AND NOT IS_OCCUPIED_FLAG) t = Ret ?t1"
        using update_child_set[where g = "\<lambda>f. f AND NOT IS_OCCUPIED_FLAG" and c = Free, OF representsD(3)[OF r] vy flag_updates(4)] .
      have r1: "represents K ?t1 ?v1"
        using stores_set_child[OF representsD(3)[OF r] lev] mark_map_ok[OF ok vy] by (simp add: represents_def)
      obtain t2 v2 where t2: "try_merge (node y) ?t1 = Ret t2" "represents K t2 v2" "coalesced v2"
        "used v2 = used ?v1" "bt_base t2 = bt_base t" "bt_pages t2 = bt_pages t"
        using try_merge_represents[OF r1 _ mark_free(1)[OF ok vy c]] by auto
      have "buddy_free page t = Ret (Inr (), t2)"
        using False find True get_child_represents[OF r vy] upd t2(1)
        by (simp add: buddy_free_def start)
      moreover have "buddy_inv K t2 v2" using t2 inv by (simp add: buddy_inv_def)
      moreover have "used v2 = used v - {y}" "y \<in> used v" using t2(4) vy by (auto simp: used_def)
      ultimately show ?thesis using True le(1) t2(5,6) by metis
    next
      case no: False
      have "buddy_free page t = Ret (Inl (), t)"
        using False find no y(2) get_child_represents[OF r y(1)]
        by (cases d) (auto simp: buddy_free_def start)
      moreover have "?start \<noteq> block_start K x" if x: "x \<in> used v" for x
      proof
        assume sx: "?start = block_start K x"
        have vx: "v x = Some Used" using x by (simp add: used_def)
        have "?start \<in> block_pages K x" using sx by (simp add: block_pages_def)
        then have "y = x"
          using leaves_disjoint[OF ok y(1,2) vx, of] y(3) by blast
        then show False using no sx y(1) vx by simp
      qed
      ultimately show ?thesis by blast
    qed
  qed
qed

end
