(* ===== verification/Alloc_Laws.thy ===== *)
theory Alloc_Laws
  imports Page_Entries
begin

text \<open>
  What a client may rely on when it takes pages from an allocator and gives them back: the laws
  of the interface as locales, and what follows from them for every sequence of calls. The
  interface is met by the buddy tree (\<open>Buddy_Laws\<close>), its allocating half also by the allocator
  over several trees (\<open>Page_Alloc\<close>).
\<close>

section \<open>Sequences of calls\<close>

datatype alloc_op = Alloc_Op usize | Free_Op usize
datatype alloc_reply = Allocated "usize option" | Freed "unit + unit"

fun alloc_step ::
  "(usize \<Rightarrow> 's \<Rightarrow> (usize option \<times> 's) exec) \<Rightarrow> (usize \<Rightarrow> 's \<Rightarrow> ((unit + unit) \<times> 's) exec) \<Rightarrow>
   alloc_op \<Rightarrow> 's \<Rightarrow> (alloc_reply \<times> 's) exec" where
  "alloc_step alloc free (Alloc_Op p) s = bind_exec (alloc p s) (\<lambda>(r, s'). Ret (Allocated r, s'))"
| "alloc_step alloc free (Free_Op a) s = bind_exec (free a s) (\<lambda>(r, s'). Ret (Freed r, s'))"

fun alloc_run ::
  "(usize \<Rightarrow> 's \<Rightarrow> (usize option \<times> 's) exec) \<Rightarrow> (usize \<Rightarrow> 's \<Rightarrow> ((unit + unit) \<times> 's) exec) \<Rightarrow>
   alloc_op list \<Rightarrow> 's \<Rightarrow> (alloc_reply list \<times> 's) exec" where
  "alloc_run alloc free [] s = Ret ([], s)"
| "alloc_run alloc free (x # xs) s =
     bind_exec (alloc_step alloc free x s) (\<lambda>(r, s').
     bind_exec (alloc_run alloc free xs s') (\<lambda>(rs, s''). Ret (r # rs, s'')))"

text \<open>
  What the client holds after a call, read off the call and its answer alone: the addresses it
  was given, each with the number of pages it asked for.
\<close>

definition in_first_page :: "usize \<Rightarrow> usize \<Rightarrow> bool" where
  "in_first_page c a \<longleftrightarrow> unat c \<le> unat a \<and> unat a < unat c + 4096"

fun track :: "alloc_op \<times> alloc_reply \<Rightarrow> (usize \<times> usize) list \<Rightarrow> (usize \<times> usize) list" where
  "track (Alloc_Op p, Allocated (Some a)) B = (a, p) # B"
| "track (Free_Op a, Freed (Inr _)) B = filter (\<lambda>b. \<not> in_first_page (fst b) a) B"
| "track _ B = B"

definition held :: "alloc_op list \<Rightarrow> alloc_reply list \<Rightarrow> (usize \<times> usize) list" where
  "held ops rs = fold track (zip ops rs) []"

definition block_bytes :: "nat \<times> nat \<Rightarrow> nat set" where
  "block_bytes b = {fst b ..< fst b + snd b * 4096}"

definition held_bytes :: "usize \<times> usize \<Rightarrow> nat set" where
  "held_bytes b = block_bytes (unat (fst b), unat (snd b))"

text \<open>The allocator's outstanding blocks are the client's, possibly with more pages.\<close>

definition claims :: "(nat \<times> nat) set \<Rightarrow> (usize \<times> usize) list \<Rightarrow> bool" where
  "claims U B \<longleftrightarrow> distinct (map fst B)
     \<and> (\<forall>b \<in> set B. \<exists>n. (unat (fst b), n) \<in> U \<and> unat (snd b) \<le> n)
     \<and> (\<forall>u \<in> U. \<exists>b \<in> set B. unat (fst b) = fst u)"

lemma claims_empty [simp]: "claims {} []" "claims U [] \<longleftrightarrow> U = {}"
  by (auto simp: claims_def)

lemma claimsD:
  assumes "claims U B"
  shows "distinct (map fst B)"
    and "b \<in> set B \<Longrightarrow> \<exists>n. (unat (fst b), n) \<in> U \<and> unat (snd b) \<le> n"
    and "u \<in> U \<Longrightarrow> \<exists>b \<in> set B. unat (fst b) = fst u"
  using assms unfolding claims_def by blast+

lemma block_bytes_mono: "n \<le> m \<Longrightarrow> block_bytes (a, n) \<subseteq> block_bytes (a, m)"
  by (auto simp: block_bytes_def)

lemma sorted_wrt_distinct:
  "distinct xs \<Longrightarrow> (\<And>x y. x \<in> set xs \<Longrightarrow> y \<in> set xs \<Longrightarrow> x \<noteq> y \<Longrightarrow> R x y) \<Longrightarrow> sorted_wrt R xs"
  by (induction xs) auto

section \<open>The interface\<close>

locale page_source =
  fixes holds :: "'s \<Rightarrow> (nat \<times> nat) set \<Rightarrow> bool"
    and region :: "nat set"
    and alloc :: "usize \<Rightarrow> 's \<Rightarrow> (usize option \<times> 's) exec"
  assumes inside: "holds s U \<Longrightarrow> b \<in> U \<Longrightarrow> 0 < snd b \<and> block_bytes b \<subseteq> region"
    and apart: "holds s U \<Longrightarrow> b \<in> U \<Longrightarrow> c \<in> U \<Longrightarrow> b \<noteq> c \<Longrightarrow> block_bytes b \<inter> block_bytes c = {}"
    and alloc_law: "holds s U \<Longrightarrow>
      (\<exists>a n s'. alloc p s = Ret (Some a, s') \<and> holds s' (insert (unat a, n) U)
         \<and> (unat a, n) \<notin> U \<and> unat p \<le> n)
      \<or> alloc p s = Ret (None, s)"
begin

lemma first_page:
  assumes "holds s U" "b \<in> U" "fst b \<le> a" "a < fst b + 4096"
  shows "a \<in> block_bytes b"
proof -
  have "4096 \<le> snd b * 4096" using inside[OF assms(1,2)] by simp
  then show ?thesis using assms(3,4) by (auto simp: block_bytes_def)
qed

lemma same_start: "holds s U \<Longrightarrow> b \<in> U \<Longrightarrow> c \<in> U \<Longrightarrow> fst b = fst c \<Longrightarrow> b = c"
  using apart[of s U b c] first_page[of s U b "fst b"] first_page[of s U c "fst b"] by auto

lemma claims_alloc:
  assumes "holds s (insert (unat a, n) U)" "(unat a, n) \<notin> U" "unat p \<le> n" "claims U B"
  shows "claims (insert (unat a, n) U) ((a, p) # B)"
proof -
  have "fst b \<noteq> a" if "b \<in> set B" for b
  proof
    assume "fst b = a"
    then obtain m where "(unat a, m) \<in> U" using claimsD(2)[OF assms(4), of b] \<open>b \<in> set B\<close> by blast
    then show False using same_start[OF assms(1), of "(unat a, m)" "(unat a, n)"] assms(2) by auto
  qed
  then show ?thesis using assms(3,4) unfolding claims_def by fastforce
qed

lemma alloc_step_safe:
  assumes h: "holds s U" and c: "claims U B"
  shows "\<exists>r s' U'. alloc_step alloc f (Alloc_Op p) s = Ret (r, s') \<and> holds s' U'
     \<and> claims U' (track (Alloc_Op p, r) B)"
proof -
  consider (some) a n s' where "alloc p s = Ret (Some a, s')" "holds s' (insert (unat a, n) U)"
      "(unat a, n) \<notin> U" "unat p \<le> n"
    | (none) "alloc p s = Ret (None, s)"
    using alloc_law[OF h] by metis
  then show ?thesis
  proof cases
    case some
    then show ?thesis using claims_alloc[OF some(2-4) c] by auto
  next
    case none
    then show ?thesis using h c by auto
  qed
qed

lemma claims_apart:
  assumes h: "holds s U" and c: "claims U B"
  shows "sorted_wrt (\<lambda>b d. held_bytes b \<inter> held_bytes d = {}) B \<and> (\<forall>b \<in> set B. held_bytes b \<subseteq> region)"
proof
  have part: "\<exists>u \<in> U. fst u = unat (fst b) \<and> held_bytes b \<subseteq> block_bytes u" if "b \<in> set B" for b
  proof -
    obtain n where n: "(unat (fst b), n) \<in> U" "unat (snd b) \<le> n" using claimsD(2)[OF c, of b] \<open>b \<in> set B\<close> by blast
    then show ?thesis
      using block_bytes_mono[OF n(2), of "unat (fst b)"] by (intro bexI[OF _ n(1)]) (simp add: held_bytes_def)
  qed
  show "sorted_wrt (\<lambda>b d. held_bytes b \<inter> held_bytes d = {}) B"
  proof (rule sorted_wrt_distinct)
    have dist: "distinct (map fst B)" using c by (simp add: claims_def)
    then show "distinct B" by (simp add: distinct_map)
    fix b d assume bd: "b \<in> set B" "d \<in> set B" "b \<noteq> d"
    then have "fst b \<noteq> fst d" using dist by (auto simp: distinct_map inj_on_def)
    then have ne: "unat (fst b) \<noteq> unat (fst d)" using unsigned_word_eqI by blast
    obtain u w where uw: "u \<in> U" "fst u = unat (fst b)" "held_bytes b \<subseteq> block_bytes u"
      "w \<in> U" "fst w = unat (fst d)" "held_bytes d \<subseteq> block_bytes w" using part bd by metis
    then have "u \<noteq> w" using ne by metis
    then show "held_bytes b \<inter> held_bytes d = {}" using apart[OF h uw(1,4)] uw(3,6) by blast
  qed
  show "\<forall>b \<in> set B. held_bytes b \<subseteq> region" using part inside[OF h] by blast
qed

lemma allocs_safe:
  assumes "holds s U" "claims U B"
  shows "\<exists>rs s' U'. alloc_run alloc f (map Alloc_Op ps) s = Ret (rs, s') \<and> length rs = length ps
     \<and> holds s' U' \<and> claims U' (fold track (zip (map Alloc_Op ps) rs) B)"
  using assms
proof (induction ps arbitrary: s U B)
  case (Cons p ps)
  from alloc_step_safe[OF Cons.prems, of f p] obtain r s1 U1
    where 1: "alloc_step alloc f (Alloc_Op p) s = Ret (r, s1)" "holds s1 U1"
      "claims U1 (track (Alloc_Op p, r) B)" by blast
  from Cons.IH[OF 1(2,3)] obtain rs s' U' where 2: "alloc_run alloc f (map Alloc_Op ps) s1 = Ret (rs, s')"
    "length rs = length ps" "holds s' U'"
    "claims U' (fold track (zip (map Alloc_Op ps) rs) (track (Alloc_Op p, r) B))" by blast
  then have "alloc_run alloc f (map Alloc_Op (p # ps)) s = Ret (r # rs, s')" using 1(1) by simp
  then show ?case using 2 by (intro exI[of _ "r # rs"]) auto
qed auto

end

locale page_allocator = page_source +
  fixes free :: "usize \<Rightarrow> 'a \<Rightarrow> ((unit + unit) \<times> 'a) exec"
  assumes free_law: "holds s U \<Longrightarrow>
      (\<exists>b s'. b \<in> U \<and> fst b \<le> unat a \<and> unat a < fst b + 4096
         \<and> free a s = Ret (Inr (), s') \<and> holds s' (U - {b}))
      \<or> (free a s = Ret (Inl (), s) \<and> \<not> (\<exists>b \<in> U. fst b \<le> unat a \<and> unat a < fst b + 4096))"
begin

lemma claims_free:
  assumes h: "holds s U" and b: "b \<in> U" "fst b \<le> unat a" "unat a < fst b + 4096" and c: "claims U B"
  shows "claims (U - {b}) (filter (\<lambda>d. \<not> in_first_page (fst d) a) B)"
  unfolding claims_def
proof (intro conjI ballI)
  show "distinct (map fst (filter (\<lambda>d. \<not> in_first_page (fst d) a) B))"
    using c by (simp add: claims_def distinct_map_filter)
next
  fix d assume "d \<in> set (filter (\<lambda>d. \<not> in_first_page (fst d) a) B)"
  then have d: "d \<in> set B" "\<not> in_first_page (fst d) a" by auto
  from c d(1) obtain n where "(unat (fst d), n) \<in> U" "unat (snd d) \<le> n" by (auto simp: claims_def)
  then show "\<exists>n. (unat (fst d), n) \<in> U - {b} \<and> unat (snd d) \<le> n"
    using d(2) b by (auto simp: in_first_page_def)
next
  fix u assume u: "u \<in> U - {b}"
  with c obtain d where d: "d \<in> set B" "unat (fst d) = fst u" by (auto simp: claims_def)
  have "\<not> in_first_page (fst d) a"
  proof
    assume "in_first_page (fst d) a"
    then have "unat a \<in> block_bytes u" "unat a \<in> block_bytes b"
      using first_page[OF h, of u "unat a"] first_page[OF h b] u d by (auto simp: in_first_page_def)
    then show False using apart[OF h, of b u] b(1) u by auto
  qed
  then have "d \<in> set (filter (\<lambda>d. \<not> in_first_page (fst d) a) B)" using d(1) by simp
  then show "\<exists>d \<in> set (filter (\<lambda>d. \<not> in_first_page (fst d) a) B). unat (fst d) = fst u"
    using d(2) by blast
qed

lemma step_safe:
  assumes h: "holds s U" and c: "claims U B"
  shows "\<exists>r s' U'. alloc_step alloc free x s = Ret (r, s') \<and> holds s' U' \<and> claims U' (track (x, r) B)"
proof (cases x)
  case (Alloc_Op p)
  then show ?thesis using alloc_step_safe[OF h c] by simp
next
  case (Free_Op a)
  consider (ok) b s' where "b \<in> U" "fst b \<le> unat a" "unat a < fst b + 4096"
      "free a s = Ret (Inr (), s')" "holds s' (U - {b})"
    | (err) "free a s = Ret (Inl (), s)"
    using free_law[OF h, of a] by metis
  then show ?thesis
  proof cases
    case ok
    then show ?thesis using Free_Op claims_free[OF h ok(1-3) c] by auto
  next
    case err
    then show ?thesis using Free_Op h c by auto
  qed
qed

lemma run_safe:
  assumes "holds s U" "claims U B"
  shows "\<exists>rs s' U'. alloc_run alloc free ops s = Ret (rs, s') \<and> length rs = length ops
     \<and> holds s' U' \<and> claims U' (fold track (zip ops rs) B)"
  using assms
proof (induction ops arbitrary: s U B)
  case (Cons x ops)
  from step_safe[OF Cons.prems] obtain r s1 U1
    where 1: "alloc_step alloc free x s = Ret (r, s1)" "holds s1 U1" "claims U1 (track (x, r) B)" by blast
  from Cons.IH[OF 1(2,3)] obtain rs s' U' where 2: "alloc_run alloc free ops s1 = Ret (rs, s')"
    "length rs = length ops" "holds s' U'" "claims U' (fold track (zip ops rs) (track (x, r) B))"
    by blast
  then have "alloc_run alloc free (x # ops) s = Ret (r # rs, s')" using 1(1) by simp
  then show ?case using 2 by (intro exI[of _ "r # rs"]) auto
qed auto

lemma free_iff_claimed:
  assumes h: "holds s U" and c: "claims U B"
  shows "(\<exists>s'. free a s = Ret (Inr (), s')) \<longleftrightarrow> (\<exists>b \<in> set B. in_first_page (fst b) a)"
proof -
  let ?hit = "\<lambda>u. fst u \<le> unat a \<and> unat a < fst u + 4096"
  have "(\<exists>u \<in> U. ?hit u) \<longleftrightarrow> (\<exists>b \<in> set B. in_first_page (fst b) a)"
    unfolding in_first_page_def using claimsD(2,3)[OF c] by (metis fst_conv)
  moreover have "(\<exists>s'. free a s = Ret (Inr (), s')) \<longleftrightarrow> (\<exists>u \<in> U. ?hit u)"
    using free_law[OF h, of a] by (metis Inl_Inr_False exec.inject(1) prod.inject)
  ultimately show ?thesis by simp
qed

end

text \<open>An allocator that is as good as new when nothing is outstanding.\<close>

locale coalescing_allocator = page_allocator +
  fixes capacity :: nat
  assumes empty_law: "holds s {} \<Longrightarrow> 0 < unat p \<Longrightarrow> unat p \<le> capacity \<Longrightarrow> \<exists>a s'. alloc p s = Ret (Some a, s')"
begin

lemma no_fragmentation:
  assumes "holds s {}" "alloc_run alloc free ops s = Ret (rs, s')" "held ops rs = []"
    "0 < unat p" "unat p \<le> capacity"
  shows "\<exists>a s''. alloc p s' = Ret (Some a, s'')"
proof -
  from run_safe[OF assms(1) claims_empty(1), of ops] obtain U' where "holds s' U'" "claims U' (held ops rs)"
    using assms(2) by (auto simp: held_def)
  then show ?thesis using empty_law assms(3-5) by auto
qed

end

end
