(* ===== verification/Buddy_Laws.thy ===== *)
theory Buddy_Laws
  imports Buddy_Correct Alloc_Laws
begin

text \<open>
  The buddy tree meets the interface of an allocator of pages, so that every sequence of calls
  on a tree made by \<open>buddy_new\<close> is safe; and what a single allocation promises.
\<close>

section \<open>A new tree\<close>

lemma is_pow2_iff: "is_pow2 n \<longleftrightarrow> (\<exists>K. n = 2 ^ K)"
proof (induction n rule: is_pow2.induct)
  case (1 n)
  show ?case
  proof (cases "n < 2")
    case True
    then have "n = 0 \<or> n = 1" by auto
    then show ?thesis by (auto simp: is_pow2.simps[of n] intro: exI[of _ 0])
  next
    case False
    have "(even n \<and> (\<exists>K. n div 2 = 2 ^ K)) \<longleftrightarrow> (\<exists>K. n = 2 ^ K)"
    proof
      assume "even n \<and> (\<exists>K. n div 2 = 2 ^ K)"
      then obtain K where "n = 2 ^ Suc K" by (auto elim!: evenE)
      then show "\<exists>K. n = 2 ^ K" by blast
    next
      assume "\<exists>K. n = 2 ^ K"
      then obtain K where K: "n = 2 ^ K" by blast
      with False obtain j where "K = Suc j" by (cases K) auto
      with K show "even n \<and> (\<exists>K. n div 2 = 2 ^ K)" by auto
    qed
    then show ?thesis using False 1 by (simp add: is_pow2.simps[of n])
  qed
qed

text \<open>The pages computed for a tree hold its header and one byte for every node.\<close>

lemma required_pages_suffice:
  "2 * pages - 1 + offset_of_children \<le> required_pages_for_tree pages * 4096"
proof -
  have "m \<le> (m + 4095) div 4096 * 4096" for m :: nat
    using div_mult_mod_eq[of "m + 4095" 4096] mod_less_divisor[of 4096 "m + 4095"] by linarith
  from this[of "size_of_tree + (pages * 2 - 1)"] show ?thesis
    by (simp add: required_pages_for_tree_def PAGE_SIZE_def size_of_tree_def offset_of_children_def Let_def)
qed

lemma buddy_new_inv:
  assumes new: "buddy_new tree_base base pages loader storage = Ret (Some t)"
    and room: "required_pages_for_tree (unat pages) * 4096 \<le> length storage + offset_of_children"
    and top: "unat base + unat pages * 4096 < 2 ^ 64"
  shows "\<exists>K. unat pages = 2 ^ K \<and> buddy_inv K t [(0, 0) \<mapsto> Free] \<and> bt_base t = base"
proof -
  have pow: "is_pow2 (unat pages)" and t: "0 < length storage"
    "t = \<lparr> bt_self = tree_base, bt_base = base, bt_pages = pages, loader_memory = loader, bt_children = storage[0 := Some 0] \<rparr>"
    using new by (auto simp: buddy_new_def bind_exec_Ret_iff write_child_Ret split: if_splits)
  from pow obtain K where K: "unat pages = 2 ^ K" by (auto simp: is_pow2_iff)
  have len: "2 * 2 ^ K - 1 \<le> length storage"
    using required_pages_suffice[of "unat pages"] room by (simp add: K)
  have "stores K t [(0, 0) \<mapsto> Free]"
    using K len t(1) by (auto simp: stores_def t(2) node_def flag_of.simps)
  moreover have "buddy_map_ok K [(0, 0) \<mapsto> Free]"
    by (auto simp: buddy_map_ok_def left_of_def right_of_def split: if_splits)
  moreover have "coalesced [(0, 0) \<mapsto> Free]" by (simp add: coalesced_def)
  ultimately show ?thesis using K top t(2) by (auto simp: buddy_inv_def represents_def)
qed

section \<open>The tree meets the interface\<close>

definition block_of :: "nat \<Rightarrow> usize \<Rightarrow> pos \<Rightarrow> nat \<times> nat" where
  "block_of K base x = (unat base + block_start K x * 4096, block_size K x)"

definition buddy_holds :: "nat \<Rightarrow> usize \<Rightarrow> buddy_tree \<Rightarrow> (nat \<times> nat) set \<Rightarrow> bool" where
  "buddy_holds K base t U \<longleftrightarrow>
     (\<exists>v. buddy_inv K t v \<and> bt_base t = base \<and> U = block_of K base ` used v)"

lemma buddy_used_level: "buddy_inv K t v \<Longrightarrow> x \<in> used v \<Longrightarrow> in_level K x"
  using representsD(6)[of K t v x Used] by (auto simp: buddy_inv_def used_def)

lemma block_bytes_block_of:
  "a \<in> block_bytes (block_of K base x) \<longleftrightarrow> unat base \<le> a \<and> (a - unat base) div 4096 \<in> block_pages K x"
  by (auto simp: block_bytes_def block_of_def block_pages_def less_mult_imp_div_less
      less_eq_div_iff_mult_less_eq div_less_iff_less_mult algebra_simps)

lemma block_of_apart:
  assumes "buddy_inv K t v" "x \<in> used v" "y \<in> used v" "x \<noteq> y"
  shows "block_bytes (block_of K base x) \<inter> block_bytes (block_of K base y) = {}"
proof -
  have "buddy_map_ok K v" using assms(1) representsD(2) by (auto simp: buddy_inv_def)
  from leaves_disjoint[OF this, of x Used y Used] have "block_pages K x \<inter> block_pages K y = {}"
    using assms(2-4) by (auto simp: used_def)
  then show ?thesis by (auto simp: block_bytes_block_of)
qed

lemma block_of_inside:
  assumes "in_level K x"
  shows "block_bytes (block_of K base x) \<subseteq> {unat base ..< unat base + 2 ^ K * 4096}"
proof
  fix a assume "a \<in> block_bytes (block_of K base x)"
  then have a: "unat base \<le> a" "(a - unat base) div 4096 < 2 ^ K"
    using block_within[OF assms] by (auto simp: block_bytes_block_of)
  then show "a \<in> {unat base ..< unat base + 2 ^ K * 4096}"
    by (auto simp: div_less_iff_less_mult)
qed

lemma block_of_address:
  "buddy_inv K t v \<Longrightarrow> in_level K x \<Longrightarrow> bt_base t = base \<Longrightarrow>
     block_of K base x = (unat (block_address K t x), block_size K x)"
  by (simp add: block_of_def unat_block_address)

lemma block_of_start: "unat base + block_start K x * 4096 \<in> block_bytes (block_of K base x)"
  by (simp add: block_bytes_block_of block_pages_def)

lemma block_of_inj_on: "buddy_inv K t v \<Longrightarrow> inj_on (block_of K base) (used v)"
  using block_of_apart[of K t v _ _ base] block_of_start[of base K] by (fastforce intro!: inj_onI)

lemma block_of_first_page:
  "fst (block_of K base x) \<le> unat a \<and> unat a < fst (block_of K base x) + 4096
     \<longleftrightarrow> base \<le> a \<and> unat (a - base) div 4096 = block_start K x"
proof (cases "base \<le> a")
  case True
  then have le: "unat base \<le> unat a" by (simp add: word_le_nat_alt)
  have "n div 4096 = m \<longleftrightarrow> m * 4096 \<le> n \<and> n < m * 4096 + 4096" for n m :: nat
    by (metis Suc_eq_plus1 div_nat_eqI div_times_less_eq_dividend dividend_less_div_times mult.commute mult_Suc
        nat_less_le zero_less_numeral add.commute)
  then show ?thesis using True le by (auto simp: block_of_def unat_sub)
next
  case False
  then show ?thesis by (auto simp: block_of_def word_le_nat_alt)
qed

lemma buddy_holds_alloc:
  assumes h: "buddy_holds K base t U"
  shows "(\<exists>a n t'. buddy_alloc p t = Ret (Some a, t') \<and> buddy_holds K base t' (insert (unat a, n) U)
            \<and> (unat a, n) \<notin> U \<and> unat p \<le> n)
         \<or> buddy_alloc p t = Ret (None, t)"
proof (cases "p = 0")
  case True
  then show ?thesis by (simp add: buddy_alloc_def)
next
  case False
  obtain v where v: "buddy_inv K t v" "bt_base t = base" "U = block_of K base ` used v"
    using h by (auto simp: buddy_holds_def)
  from buddy_alloc_spec[OF v(1) False] show ?thesis
  proof (elim disjE exE conjE)
    fix x t' v'
    assume x: "buddy_alloc p t = Ret (Some (block_address K t x), t')" "buddy_inv K t' v'" "in_level K x"
      "used v' = insert x (used v)" "x \<notin> used v" "unat p \<le> block_size K x" "bt_base t' = bt_base t"
    have b: "block_of K base x = (unat (block_address K t x), block_size K x)"
      using block_of_address[OF v(1) x(3) v(2)] .
    have "block_of K base x \<notin> U"
      using block_of_inj_on[OF x(2), of base] x(4,5) by (auto simp: v(3) inj_on_def)
    moreover have "buddy_holds K base t' (insert (block_of K base x) U)"
      unfolding buddy_holds_def using x(2,4,7) v(2,3) by (intro exI[of _ v']) simp
    ultimately show ?thesis using x(1,6) unfolding b by blast
  qed simp
qed

lemma buddy_holds_free:
  assumes h: "buddy_holds K base t U"
  shows "(\<exists>b t'. b \<in> U \<and> fst b \<le> unat a \<and> unat a < fst b + 4096
            \<and> buddy_free a t = Ret (Inr (), t') \<and> buddy_holds K base t' (U - {b}))
         \<or> (buddy_free a t = Ret (Inl (), t) \<and> \<not> (\<exists>b \<in> U. fst b \<le> unat a \<and> unat a < fst b + 4096))"
proof -
  obtain v where v: "buddy_inv K t v" "bt_base t = base" "U = block_of K base ` used v"
    using h by (auto simp: buddy_holds_def)
  from buddy_free_spec[OF v(1), of a] show ?thesis
  proof (elim disjE exE conjE)
    fix x t' v'
    assume x: "x \<in> used v" "unat (a - bt_base t) div 4096 = block_start K x" "bt_base t \<le> a"
      "buddy_free a t = Ret (Inr (), t')" "buddy_inv K t' v'" "used v' = used v - {x}" "bt_base t' = bt_base t"
    have "block_of K base ` used v' = U - {block_of K base x}"
      using block_of_inj_on[OF v(1), of base] x(1,6) by (auto simp: v(3) inj_on_def)
    then have "buddy_holds K base t' (U - {block_of K base x})"
      unfolding buddy_holds_def using x(5,7) v(2) by (intro exI[of _ v']) simp
    moreover have "block_of K base x \<in> U" using x(1) v(3) by simp
    ultimately show ?thesis using x(2-4) v(2) block_of_first_page[of K base x a] by blast
  next
    assume n: "buddy_free a t = Ret (Inl (), t)"
      "\<not> (\<exists>x\<in>used v. bt_base t \<le> a \<and> unat (a - bt_base t) div 4096 = block_start K x)"
    then show ?thesis using block_of_first_page[of K base _ a] v(2,3) by blast
  qed
qed

lemma unused_root:
  assumes "buddy_inv K t v" "used v = {}"
  shows "v (0, 0) = Some Free"
proof -
  have ok: "buddy_map_ok K v" "coalesced v" using assms(1) representsD(2) by (auto simp: buddy_inv_def)
  obtain b where "v (0, 0) = Some b" using buddy_map_okD(1)[OF ok(1)] by auto
  then show ?thesis using inner_has_used[OF ok, of "(0, 0)"] assms(2) by (cases b) (auto simp: used_def)
qed

lemma buddy_holds_empty:
  assumes h: "buddy_holds K base t {}" and p: "0 < unat p" "unat p \<le> 2 ^ K"
  shows "\<exists>a t'. buddy_alloc p t = Ret (Some a, t')"
proof -
  obtain v where v: "buddy_inv K t v" "used v = {}" using h by (auto simp: buddy_holds_def)
  have "v (0, 0) = Some Free" "\<not> block_size K (0, 0) < unat p"
    using unused_root[OF v] p(2) by (simp_all add: block_size_def)
  moreover have "p \<noteq> 0" using p(1) by auto
  ultimately show ?thesis using buddy_alloc_spec[OF v(1), of p] by blast
qed

interpretation buddy: coalescing_allocator "buddy_holds K base" "{unat base ..< unat base + 2 ^ K * 4096}"
    buddy_alloc buddy_free "2 ^ K" for K base
proof unfold_locales
  fix t U b assume h: "buddy_holds K base t U" and b: "b \<in> U"
  then obtain v where v: "buddy_inv K t v" "U = block_of K base ` used v" by (auto simp: buddy_holds_def)
  with b obtain x where x: "x \<in> used v" "b = block_of K base x" by auto
  show "0 < snd b \<and> block_bytes b \<subseteq> {unat base ..< unat base + 2 ^ K * 4096}"
    using block_of_inside[OF buddy_used_level[OF v(1) x(1)]] by (simp add: x(2)) (simp add: block_of_def)
  fix c assume "c \<in> U" "b \<noteq> c"
  then obtain y where y: "y \<in> used v" "c = block_of K base y" "x \<noteq> y" using v(2) x(2) by blast
  show "block_bytes b \<inter> block_bytes c = {}"
    unfolding x(2) y(2) by (rule block_of_apart[OF v(1) x(1) y(1,3)])
qed (use buddy_holds_alloc buddy_holds_free buddy_holds_empty in blast)+

lemma buddy_new_holds:
  assumes "buddy_new tree_base base pages loader storage = Ret (Some t)"
    "required_pages_for_tree (unat pages) * 4096 \<le> length storage + offset_of_children"
    "unat base + unat pages * 4096 < 2 ^ 64"
  shows "\<exists>K. unat pages = 2 ^ K \<and> buddy_holds K base t {}"
proof -
  obtain K where K: "unat pages = 2 ^ K" "buddy_inv K t [(0, 0) \<mapsto> Free]" "bt_base t = base"
    using buddy_new_inv[OF assms] by blast
  have "{} = block_of K base ` used [(0, 0) \<mapsto> Free]" by (simp add: used_def)
  then have "buddy_holds K base t {}" unfolding buddy_holds_def using K(2,3) by blast
  with K(1) show ?thesis by blast
qed

section \<open>Properties\<close>

text \<open>
  C12: Whatever sequence of allocations and frees a client performs on a tree made by \<open>buddy_new\<close>
  in the pages that \<open>required_pages_for_tree\<close> asks for: no call reads a byte that nobody wrote or
  one outside the tree, every call returns, the blocks the client holds are pairwise disjoint, and
  all of them lie inside the pages the tree keeps track of.
\<close>

theorem buddy_runs_are_safe:
  assumes "buddy_new tree_base base pages loader storage = Ret (Some t)"
    "required_pages_for_tree (unat pages) * 4096 \<le> length storage + offset_of_children"
    "unat base + unat pages * 4096 < 2 ^ 64"
  shows "\<exists>rs t'. alloc_run buddy_alloc buddy_free ops t = Ret (rs, t') \<and> length rs = length ops
    \<and> sorted_wrt (\<lambda>b c. held_bytes b \<inter> held_bytes c = {}) (held ops rs)
    \<and> (\<forall>b \<in> set (held ops rs). held_bytes b \<subseteq> {unat base ..< unat base + unat pages * 4096})"
proof -
  obtain K where K: "unat pages = 2 ^ K" "buddy_holds K base t {}" using buddy_new_holds[OF assms] by blast
  from buddy.run_safe[OF K(2) claims_empty(1), of ops] obtain rs t' U where
    "alloc_run buddy_alloc buddy_free ops t = Ret (rs, t')" "length rs = length ops"
    "buddy_holds K base t' U" "claims U (held ops rs)" by (auto simp: held_def)
  then show ?thesis using buddy.claims_apart[of K base t' U "held ops rs"] K(1) by auto
qed

lemma small_tree: "\<exists>t. buddy_new 4096 8192 4 False (replicate 4079 None) = Ret (Some t)"
proof -
  have "is_pow2 4" unfolding is_pow2_iff by (rule exI[of _ 2]) simp
  then show ?thesis by (simp add: buddy_new_def write_child_def)
qed

lemma small_tree_fits:
  "required_pages_for_tree (unat (4 :: usize)) * 4096
     \<le> length (replicate 4079 (None :: u8 option)) + offset_of_children"
  "unat (8192 :: usize) + unat (4 :: usize) * 4096 < 2 ^ 64"
  by (simp_all add: required_pages_for_tree_def size_of_tree_def PAGE_SIZE_def offset_of_children_def)

theorem buddy_runs_are_safe_witness:
  "\<exists>t. buddy_new 4096 8192 4 False (replicate 4079 None) = Ret (Some t) \<and>
     (\<exists>rs t'. alloc_run buddy_alloc buddy_free [Alloc_Op 1, Alloc_Op 2, Free_Op 8192] t = Ret (rs, t')
       \<and> length rs = 3
       \<and> sorted_wrt (\<lambda>b c. held_bytes b \<inter> held_bytes c = {}) (held [Alloc_Op 1, Alloc_Op 2, Free_Op 8192] rs)
       \<and> (\<forall>b \<in> set (held [Alloc_Op 1, Alloc_Op 2, Free_Op 8192] rs). held_bytes b \<subseteq> {8192 ..< 24576}))"
proof -
  obtain t where t: "buddy_new 4096 8192 4 False (replicate 4079 None) = Ret (Some t)" using small_tree by blast
  have "length [Alloc_Op 1, Alloc_Op 2, Free_Op 8192] = 3"
    "{unat (8192 :: usize) ..< unat (8192 :: usize) + unat (4 :: usize) * 4096} = {8192 ..< 24576}" by simp_all
  with buddy_runs_are_safe[OF t small_tree_fits, of "[Alloc_Op 1, Alloc_Op 2, Free_Op 8192]"] t
  show ?thesis by metis
qed

text \<open>
  A release build does not look at the alignment: it takes any address in the first page of a
  block for the block.
\<close>

lemma buddy_free_first_page:
  assumes "buddy_holds K base t U" and "claims U B"
  shows "if \<exists>b \<in> set B. in_first_page (fst b) a
         then \<exists>t'. buddy_free a t = Ret (Inr (), t') else buddy_free a t = Ret (Inl (), t)"
  using buddy.free_iff_claimed[OF assms, of a] buddy_holds_free[OF assms(1), of a] by auto

lemma held_aligned:
  assumes "buddy_holds K base t U" and "claims U B" and "4096 dvd unat base" and "b \<in> set B"
  shows "4096 dvd unat (fst b)"
proof -
  obtain v n where v: "buddy_inv K t v" "U = block_of K base ` used v" "(unat (fst b), n) \<in> U"
    using assms(1) claimsD(2)[OF assms(2,4)] by (auto simp: buddy_holds_def)
  then obtain x where "unat (fst b) = unat base + block_start K x * 4096" by (auto simp: block_of_def)
  then show ?thesis using assms(3) by simp
qed

lemma buddy_holds_region: "buddy_holds K base t U \<Longrightarrow> unat base + unat (bt_pages t) * 4096 < 2 ^ 64"
  using representsD(1) by (auto simp: buddy_holds_def buddy_inv_def)

lemma page_mod_PAGE_SIZE: "a mod PAGE_SIZE = 0 \<longleftrightarrow> 4096 dvd unat a"
proof -
  have "unat (a mod PAGE_SIZE) = unat a mod 4096" by (simp add: PAGE_SIZE_def unat_mod)
  then show ?thesis by (metis dvd_eq_mod_eq_0 unat_eq_zero)
qed

lemma aligned_first_page:
  assumes "4096 dvd unat c" "4096 dvd unat a"
  shows "in_first_page c a \<longleftrightarrow> c = a"
proof
  assume h: "in_first_page c a"
  obtain i j where ij: "unat c = 4096 * i" "unat a = 4096 * j" using assms by (auto elim!: dvdE)
  with h have "i = j" by (auto simp: in_first_page_def)
  with ij have "unat c = unat a" by simp
  then show "c = a" by (simp only: word_unat_eq_iff)
qed (simp add: in_first_page_def)

text \<open>
  C26: After any sequence of calls on a tree whose region starts at a page, \<open>free\<close> accepts exactly
  the addresses of the blocks the client holds, in debug and in release builds. Any other address
  of a page is refused and leaves the tree as it is (in a debug build one below the region panics,
  because it is subtracted before it is compared); in particular a second free of the same block is
  an error, not a corruption. An address inside a page panics in a debug build.
\<close>

theorem buddy_free_accepts:
  assumes "buddy_new tree_base base pages loader storage = Ret (Some t)"
    "required_pages_for_tree (unat pages) * 4096 \<le> length storage + offset_of_children"
    "unat base + unat pages * 4096 < 2 ^ 64" and "4096 dvd unat base"
    and run: "alloc_run buddy_alloc buddy_free ops t = Ret (rs, t')"
  shows "if a \<in> fst ` set (held ops rs)
         then \<exists>t''. buddy_free a t' = Ret (Inr (), t'') \<and> buddy_free_debug a t' = Ret (Inr (), t'')
         else if 4096 dvd unat a
         then buddy_free a t' = Ret (Inl (), t') \<and>
           buddy_free_debug a t' =
             (if a < base then Panic ''attempt to subtract with overflow'' else Ret (Inl (), t'))
         else buddy_free_debug a t' = Panic ''assertion `left == right` failed''"
proof -
  obtain K where K: "buddy_holds K base t {}" using buddy_new_holds[OF assms(1-3)] by blast
  from buddy.run_safe[OF K claims_empty(1), of ops] run obtain U where
    U: "buddy_holds K base t' U" "claims U (held ops rs)" by (auto simp: held_def)
  note aligned = held_aligned[OF U assms(4)]
  have base: "bt_base t' = base" using U(1) by (auto simp: buddy_holds_def)
  have above: "\<not> a < base" if "a \<in> fst ` set (held ops rs)"
  proof -
    from that obtain n where n: "(unat a, n) \<in> U" using claimsD(2)[OF U(2)] by fastforce
    have "unat base \<le> unat a"
      using buddy.inside[OF U(1) n] by (auto simp: block_bytes_def)
    then show ?thesis by (simp add: word_less_nat_alt)
  qed
  have "(\<exists>b \<in> set (held ops rs). in_first_page (fst b) a) \<longleftrightarrow> a \<in> fst ` set (held ops rs)"
    if "4096 dvd unat a"
    using aligned_first_page[OF aligned that] by (auto intro: rev_image_eqI)
  moreover have "4096 dvd unat a" if "a \<in> fst ` set (held ops rs)" using aligned that by auto
  ultimately show ?thesis
    using buddy_free_first_page[OF U, of a] above buddy_holds_region[OF U(1)]
    by (auto simp: buddy_free_debug_def page_mod_PAGE_SIZE base split: if_splits)
qed

lemma small_tree_run:
  "\<exists>t rs t'. buddy_new 4096 8192 4 False (replicate 4079 None) = Ret (Some t)
     \<and> alloc_run buddy_alloc buddy_free ops t = Ret (rs, t')"
proof -
  obtain t where t: "buddy_new 4096 8192 4 False (replicate 4079 None) = Ret (Some t)" using small_tree by blast
  then obtain K where "buddy_holds K 8192 t {}"
    using buddy_new_holds[OF t small_tree_fits] by blast
  from buddy.run_safe[OF this claims_empty(1), of ops] t show ?thesis by blast
qed

theorem buddy_free_accepts_witness:
  "\<exists>t a t' t''. buddy_new 4096 8192 4 False (replicate 4079 None) = Ret (Some t)
     \<and> alloc_run buddy_alloc buddy_free [Alloc_Op 4] t = Ret ([Allocated (Some a)], t')
     \<and> buddy_free a t' = Ret (Inr (), t'') \<and> buddy_free_debug a t' = Ret (Inr (), t'')
     \<and> buddy_free 8192 t = Ret (Inl (), t) \<and> buddy_free_debug 8192 t = Ret (Inl (), t)
     \<and> buddy_free_debug 8200 t = Panic ''assertion `left == right` failed''
     \<and> buddy_free_debug 4096 t = Panic ''attempt to subtract with overflow''"
proof -
  obtain t where t: "buddy_new 4096 8192 4 False (replicate 4079 None) = Ret (Some t)" using small_tree by blast
  have dvd: "4096 dvd unat (8192 :: usize)" by simp
  note acc = buddy_free_accepts[OF t small_tree_fits dvd]
  obtain K where K: "unat (4 :: usize) = 2 ^ K" "buddy_holds K 8192 t {}"
    using buddy_new_holds[OF t small_tree_fits] by blast
  have none: "alloc_run buddy_alloc buddy_free [] t = Ret ([], t)" "held [] [] = []"
    by (simp_all add: held_def)
  from buddy.no_fragmentation[OF K(2) none, of 4] K(1)
  obtain a t' where a: "buddy_alloc 4 t = Ret (Some a, t')" by auto
  then have run: "alloc_run buddy_alloc buddy_free [Alloc_Op 4] t = Ret ([Allocated (Some a)], t')" by simp
  have "held [Alloc_Op 4] [Allocated (Some a)] = [(a, 4)]" by (simp add: held_def)
  with acc[OF run, of a] obtain t'' where
    "buddy_free a t' = Ret (Inr (), t'')" "buddy_free_debug a t' = Ret (Inr (), t'')" by auto
  with acc[OF none(1), of 8192] acc[OF none(1), of 8200] acc[OF none(1), of 4096] none(2) t run
  show ?thesis by auto
qed

text \<open>
  C28: No memory stays fragmented: when the client has given back everything it was given, the next
  request of any size up to the whole region succeeds.
\<close>

theorem buddy_coalesces:
  assumes "buddy_new tree_base base pages loader storage = Ret (Some t)"
    "required_pages_for_tree (unat pages) * 4096 \<le> length storage + offset_of_children"
    "unat base + unat pages * 4096 < 2 ^ 64"
    and run: "alloc_run buddy_alloc buddy_free ops t = Ret (rs, t')"
    and "held ops rs = []" "0 < p" "p \<le> pages"
  shows "\<exists>a t''. buddy_alloc p t' = Ret (Some a, t'')"
proof -
  obtain K where K: "unat pages = 2 ^ K" "buddy_holds K base t {}" using buddy_new_holds[OF assms(1-3)] by blast
  have "0 < unat p" "unat p \<le> 2 ^ K"
    using assms(6,7) K(1) by (auto simp: word_less_nat_alt word_le_nat_alt)
  from buddy.no_fragmentation[OF K(2) run assms(5) this] show ?thesis .
qed

theorem buddy_coalesces_witness:
  "\<exists>t a t'. buddy_new 4096 8192 4 False (replicate 4079 None) = Ret (Some t)
     \<and> alloc_run buddy_alloc buddy_free [] t = Ret ([], t) \<and> buddy_alloc 4 t = Ret (Some a, t')"
proof -
  obtain t where t: "buddy_new 4096 8192 4 False (replicate 4079 None) = Ret (Some t)" using small_tree by blast
  have "alloc_run buddy_alloc buddy_free [] t = Ret ([], t)" by simp
  from buddy_coalesces[OF t small_tree_fits this, of 4] t show ?thesis by (auto simp: held_def)
qed

text \<open>
  C21: An allocation implements the abstract buddy system. It takes a naturally aligned block of
  free pages with fewer than twice the pages asked for and marks it, or it fails; it fails only
  when no naturally aligned block of sufficient size is free.
\<close>

theorem buddy_alloc_refines:
  assumes inv: "buddy_inv K t v" and p: "pages \<noteq> 0"
  shows "(\<exists>x t' v'. buddy_alloc pages t = Ret (Some (block_address K t x), t') \<and> buddy_inv K t' v'
            \<and> in_level K x \<and> block_pages K x \<subseteq> free_pages K v \<and> used v' = insert x (used v)
            \<and> unat pages \<le> block_size K x \<and> block_size K x < 2 * unat pages)
    \<or> (buddy_alloc pages t = Ret (None, t)
        \<and> (\<forall>x. in_level K x \<and> unat pages \<le> block_size K x \<longrightarrow> \<not> block_pages K x \<subseteq> free_pages K v))"
proof -
  have ok: "buddy_map_ok K v" "coalesced v" using inv representsD(2) by (auto simp: buddy_inv_def)
  from buddy_alloc_spec[OF inv p] show ?thesis
  proof (elim disjE exE conjE)
    fix x t' v'
    assume x: "buddy_alloc pages t = Ret (Some (block_address K t x), t')" "buddy_inv K t' v'" "in_level K x"
      "used v' = insert x (used v)" "x \<notin> used v" "unat pages \<le> block_size K x"
      "block_size K x < 2 * unat pages"
    have ok': "buddy_map_ok K v'" using x(2) representsD(2) by (auto simp: buddy_inv_def)
    have "block_pages K x \<inter> block_pages K y = {}" if "y \<in> used v" for y
      using leaves_disjoint[OF ok', of x Used y Used] that x(4,5) by (auto simp: used_def)
    then have "block_pages K x \<subseteq> free_pages K v"
      using block_within[OF x(3)] by (auto simp: free_pages_def)
    with x show ?thesis by blast
  next
    assume n: "buddy_alloc pages t = Ret (None, t)" "\<forall>x. v x = Some Free \<longrightarrow> block_size K x < unat pages"
    have "\<not> block_pages K x \<subseteq> free_pages K v" if x: "in_level K x" "unat pages \<le> block_size K x" for x
    proof
      assume "block_pages K x \<subseteq> free_pages K v"
      from free_block_in_leaf[OF ok x(1) this] n(2) x(2) show False using not_le le_trans by metis
    qed
    with n(1) show ?thesis by blast
  qed
qed

lemma small_tree_inv: "\<exists>K t. buddy_inv K t [(0, 0) \<mapsto> Free] \<and> unat (bt_pages t) = 4"
proof -
  obtain t where t: "buddy_new 4096 8192 4 False (replicate 4079 None) = Ret (Some t)" using small_tree by blast
  then obtain K where K: "buddy_inv K t [(0, 0) \<mapsto> Free]" "unat (4 :: usize) = 2 ^ K"
    using buddy_new_inv[OF t small_tree_fits] by blast
  then have "unat (bt_pages t) = 4" using representsD(1)[of K t "[(0, 0) \<mapsto> Free]"] by (simp add: buddy_inv_def)
  with K(1) show ?thesis by blast
qed

theorem buddy_alloc_refines_witness:
  "\<exists>K t. buddy_inv K t [(0, 0) \<mapsto> Free] \<and> unat (bt_pages t) = 4 \<and>
    ((\<exists>x t' v'. buddy_alloc 1 t = Ret (Some (block_address K t x), t') \<and> buddy_inv K t' v'
            \<and> in_level K x \<and> block_pages K x \<subseteq> free_pages K [(0, 0) \<mapsto> Free] \<and> used v' = {x}
            \<and> 1 \<le> block_size K x \<and> block_size K x < 2)
    \<or> (buddy_alloc 1 t = Ret (None, t)
        \<and> (\<forall>x. in_level K x \<and> 1 \<le> block_size K x \<longrightarrow> \<not> block_pages K x \<subseteq> free_pages K [(0, 0) \<mapsto> Free])))"
proof -
  obtain K t where t: "buddy_inv K t [(0, 0) \<mapsto> Free]" "unat (bt_pages t) = 4" using small_tree_inv by blast
  have u: "used [(0, 0) \<mapsto> Free] = {}" by (simp add: used_def)
  from buddy_alloc_refines[OF t(1), of 1] t show ?thesis
    unfolding u by (intro exI[of _ K] exI[of _ t] conjI) simp_all
qed

end
