(* ===== verification/Page_Alloc.thy ===== *)
theory Page_Alloc
  imports Buddy_Laws Boot_Memory
begin

text \<open>
  The allocator of physical pages over several buddy trees (\<open>kernel/src/page_alloc.rs\<close>; like the
  tree it stands in a block comment of the repository). It keeps an array of pointers to the
  trees in the first two pages it manages; a tree lies in front of the pages it keeps track of.
  The array is the list of the trees, each of which knows where it lies; that the trees, the array
  and the pages handed out do not overlap, so that they may be kept apart in the model, is part
  of what is proved. A push behind the two pages is undefined. Page counts are
  natural numbers, addresses are words.
\<close>

section \<open>The array of trees\<close>

definition MINIMUM_PAGES_TO_MANAGE :: nat where "MINIMUM_PAGES_TO_MANAGE = 4"
definition PAGES_RESERVED_FOR_TREE_POINTERS :: nat where "PAGES_RESERVED_FOR_TREE_POINTERS = 2"

text \<open>\<open>pa_self\<close> is where the allocator lies.\<close>

record phys_allocator =
  pa_self :: usize
  pa_trees :: "buddy_tree list"

text \<open>The pointers of eight bytes that fit behind the \<open>size\<close> field into the reserved pages.\<close>

definition tree_slots :: nat where
  "tree_slots = (PAGES_RESERVED_FOR_TREE_POINTERS * unat PAGE_SIZE - 8) div 8"

definition push_tree :: "buddy_tree \<Rightarrow> phys_allocator \<Rightarrow> phys_allocator exec" where
  "push_tree t a =
     (if length (pa_trees a) < tree_slots then Ret (a\<lparr> pa_trees := pa_trees a @ [t] \<rparr>) else Undefined)"

definition get_tree :: "phys_allocator \<Rightarrow> nat \<Rightarrow> buddy_tree exec" where
  "get_tree a n = (if n < length (pa_trees a) then Ret (pa_trees a ! n) else Undefined)"

section \<open>Making the trees\<close>

text \<open>The loop that halves the region until its tree fits into the pages left over.\<close>

function shrink_region :: "nat \<Rightarrow> nat \<Rightarrow> (nat \<times> nat) option" where
  "shrink_region free region =
     (let required = required_pages_for_tree region in
      if required \<le> free then Some (region, required)
      else if region div 2 < MINIMUM_PAGES_TO_MANAGE then None
      else shrink_region free (region div 2))"
  by pat_completeness auto
termination
  by (relation "measure snd") (auto simp: MINIMUM_PAGES_TO_MANAGE_def)

declare shrink_region.simps [simp del]

text \<open>The bytes of the pages in front of a region, behind the header of the tree.\<close>

definition tree_storage :: "nat \<Rightarrow> u8 option list" where
  "tree_storage required = replicate (required * unat PAGE_SIZE - offset_of_children) None"

lemma required_pages_pos: "0 < required_pages_for_tree n"
  by (simp add: required_pages_for_tree_def size_of_tree_def PAGE_SIZE_def Let_def div_greater_zero_iff)

lemma shrink_region_props:
  "shrink_region free region = Some (r, q) \<Longrightarrow> q = required_pages_for_tree r \<and> q \<le> free \<and> r \<le> region
     \<and> (4 \<le> region \<longrightarrow> 4 \<le> r) \<and> (\<exists>k. r = region div 2 ^ k)"
proof (induction free region rule: shrink_region.induct)
  case (1 free region)
  show ?case
  proof (cases "required_pages_for_tree region \<le> free")
    case True
    then show ?thesis using 1(2) by (auto simp: shrink_region.simps[of free region] intro: exI[of _ 0])
  next
    case False
    then have big: "\<not> region div 2 < MINIMUM_PAGES_TO_MANAGE" "shrink_region free (region div 2) = Some (r, q)"
      using 1(2) by (auto simp: shrink_region.simps[of free region] Let_def split: if_splits)
    from 1(1)[OF refl False big] obtain k where k: "q = required_pages_for_tree r" "q \<le> free" "r \<le> region div 2"
      "4 \<le> region div 2 \<longrightarrow> 4 \<le> r" "r = region div 2 div 2 ^ k" by blast
    then have "r = region div 2 ^ Suc k" by (simp add: div_mult2_eq)
    then have ex: "\<exists>k. r = region div 2 ^ k" by blast
    show ?thesis using k(1-4) big(1) by (intro conjI ex) (auto simp: MINIMUM_PAGES_TO_MANAGE_def)
  qed
qed

lemma ilog2_bounds: "0 < n \<Longrightarrow> 2 ^ ilog2 n \<le> n \<and> n < 2 * 2 ^ ilog2 n"
proof (induction n rule: ilog2.induct)
  case (1 n)
  show ?case
  proof (cases "n < 2")
    case True
    then show ?thesis using 1(2) by (simp add: ilog2.simps[of n])
  next
    case False
    then have "2 ^ ilog2 (n div 2) \<le> n div 2 \<and> n div 2 < 2 * 2 ^ ilog2 (n div 2)"
      using 1(1)[OF False] by simp
    then have "2 * 2 ^ ilog2 (n div 2) \<le> n \<and> n < 4 * 2 ^ ilog2 (n div 2)"
      by (auto simp: less_eq_div_iff_mult_less_eq div_less_iff_less_mult)
    then show ?thesis using False by (simp add: ilog2.simps[of n])
  qed
qed

text \<open>The region chosen for the first tree is a power of two, and its pages are there.\<close>

lemma first_region:
  assumes "4 \<le> pages" "shrink_region (pages - 2 ^ ilog2 pages) (2 ^ ilog2 pages) = Some (r, q)"
  shows "q = required_pages_for_tree r \<and> 0 < q \<and> 4 \<le> r \<and> r + q \<le> pages \<and> (\<exists>k. r = 2 ^ k)"
proof -
  have b: "2 ^ ilog2 pages \<le> pages" "pages < 2 * 2 ^ ilog2 pages" using ilog2_bounds[of pages] assms(1) by auto
  have big: "4 \<le> (2::nat) ^ ilog2 pages"
  proof -
    have "2 < (2::nat) ^ ilog2 pages" using b(2) assms(1) by linarith
    then have "1 < ilog2 pages" using power_less_imp_less_exp[of "2::nat" 1] by simp
    then have "(2::nat) ^ 2 \<le> 2 ^ ilog2 pages" by (intro power_increasing) auto
    then show ?thesis by simp
  qed
  from shrink_region_props[OF assms(2)] big obtain k where
    k: "q = required_pages_for_tree r" "q \<le> pages - 2 ^ ilog2 pages" "r \<le> 2 ^ ilog2 pages" "4 \<le> r"
      "r = 2 ^ ilog2 pages div 2 ^ k" by blast
  have "k \<le> ilog2 pages" using k(4,5) by (cases "k \<le> ilog2 pages") (auto simp: not_le)
  then have "r = 2 ^ (ilog2 pages - k)" using k(5) by (simp add: power_diff)
  then have "\<exists>k. r = 2 ^ k" by blast
  moreover have "r + q \<le> pages" using k(2,3) b(1) by linarith
  ultimately show ?thesis using k(1,4) required_pages_pos[of r] by simp
qed

function create_trees ::
  "usize \<Rightarrow> nat \<Rightarrow> bool \<Rightarrow> phys_allocator \<Rightarrow> ((unit + unit) \<times> phys_allocator) exec" where
  "create_trees start pages loader a =
     (if pages < MINIMUM_PAGES_TO_MANAGE then Ret (Inl (), a)
      else case shrink_region (pages - 2 ^ ilog2 pages) (2 ^ ilog2 pages) of
        None \<Rightarrow> Ret (Inl (), a)
      | Some (region_size, required) \<Rightarrow>
          (let memory_start = start + of_nat required * PAGE_SIZE in
           bind_exec (buddy_new start memory_start (of_nat region_size) loader (tree_storage required)) (\<lambda>new.
             case new of
               None \<Rightarrow> Ret (Inl (), a)
             | Some t \<Rightarrow>
                 bind_exec (push_tree t a) (\<lambda>a1.
                 bind_exec (create_trees (memory_start + of_nat region_size * PAGE_SIZE)
                              (pages - region_size - required) loader a1) (\<lambda>(r, a2).
                   Ret (case r of Inr _ \<Rightarrow> Inr () | Inl _ \<Rightarrow> Inl (), a2))))))"
  by pat_completeness auto
termination
  by (relation "measure (\<lambda>(start, pages, loader, a). pages)")
     (auto simp: MINIMUM_PAGES_TO_MANAGE_def dest!: first_region[rotated])

declare create_trees.simps [simp del]

section \<open>The allocator\<close>

text \<open>\<open>MemoryType::PERSISTENT_MEMORY\<close> is 14 in the UEFI specification.\<close>

fun tree_memory :: "memory_type \<Rightarrow> bool" where
  "tree_memory CONVENTIONAL = True"
| "tree_memory (OtherMemory n) = (n = 14)"
| "tree_memory _ = False"

text \<open>
  One entry of the memory map. The first entry of exactly two pages becomes the array of trees;
  entries before it are lost.
\<close>

definition add_entry :: "memory_descriptor \<Rightarrow> phys_allocator option \<Rightarrow> phys_allocator option exec" where
  "add_entry e allocator =
     (if \<not> tree_memory (ty e) then Ret allocator
      else
        let (allocator, start, size) =
              (if allocator = None \<and> unat (phys_start e) mod 8 = 0
                  \<and> unat (page_count e) = PAGES_RESERVED_FOR_TREE_POINTERS
               then (Some \<lparr> pa_self = phys_start e, pa_trees = [] \<rparr>,
                     phys_start e + PAGE_SIZE * of_nat PAGES_RESERVED_FOR_TREE_POINTERS,
                     unat (page_count e) - PAGES_RESERVED_FOR_TREE_POINTERS)
               else (allocator, phys_start e, unat (page_count e)))
        in case allocator of
             Some a \<Rightarrow>
               if MINIMUM_PAGES_TO_MANAGE \<le> size
               then bind_exec (create_trees start size False a) (\<lambda>(_, a'). Ret (Some a')) else Ret allocator
           | None \<Rightarrow> Ret allocator)"

definition phys_new :: "memory_descriptor list \<Rightarrow> (unit + phys_allocator) exec" where
  "phys_new entries =
     bind_exec (fold_exec add_entry entries None) (\<lambda>allocator.
       Ret (case allocator of None \<Rightarrow> Inl () | Some a \<Rightarrow> Inr a))"

text \<open>The loop over the trees, from tree \<open>i\<close> on.\<close>

function phys_alloc_from :: "nat \<Rightarrow> usize \<Rightarrow> phys_allocator \<Rightarrow> (usize option \<times> phys_allocator) exec" where
  "phys_alloc_from i pages a =
     (if length (pa_trees a) \<le> i then Ret (None, a)
      else bind_exec (get_tree a i) (\<lambda>t.
           bind_exec (buddy_alloc pages t) (\<lambda>(r, t').
             let a' = a\<lparr> pa_trees := (pa_trees a)[i := t'] \<rparr> in
             case r of Some address \<Rightarrow> Ret (Some address, a') | None \<Rightarrow> phys_alloc_from (Suc i) pages a')))"
  by pat_completeness auto
termination
  by (relation "measure (\<lambda>(i, pages, a). length (pa_trees a) - i)") auto

declare phys_alloc_from.simps [simp del]

definition phys_alloc :: "usize \<Rightarrow> phys_allocator \<Rightarrow> (usize option \<times> phys_allocator) exec" where
  "phys_alloc pages a = phys_alloc_from 0 pages a"

definition phys_free :: "usize \<Rightarrow> phys_allocator \<Rightarrow> ((unit + unit) \<times> phys_allocator) exec" where
  "phys_free page a = Ret (Inr (), a)"

section \<open>The pages of the trees\<close>

definition tree_bytes :: "buddy_tree \<Rightarrow> nat set" where
  "tree_bytes t = {unat (bt_base t) ..< unat (bt_base t) + unat (bt_pages t) * 4096}"

definition tree_holds :: "buddy_tree \<Rightarrow> (nat \<times> nat) set \<Rightarrow> bool" where
  "tree_holds t U \<longleftrightarrow> (\<exists>K. buddy_holds K (bt_base t) t U)"

lemma tree_holds_pages: "buddy_holds K base t U \<Longrightarrow> unat (bt_pages t) = 2 ^ K \<and> bt_base t = base"
  using representsD(1) by (auto simp: buddy_holds_def buddy_inv_def)

lemma tree_holds_bytes:
  "buddy_holds K (bt_base t) t U \<Longrightarrow> tree_bytes t = {unat (bt_base t) ..< unat (bt_base t) + 2 ^ K * 4096}"
  using tree_holds_pages[of K "bt_base t" t U] by (simp add: tree_bytes_def)

text \<open>The memory a tree itself takes: its header and the bytes of its nodes.\<close>

definition tree_area :: "buddy_tree \<Rightarrow> nat set" where
  "tree_area t = {unat (bt_self t) ..< unat (bt_self t) + (offset_of_children + length (bt_children t))}"

definition tree_extent :: "buddy_tree \<Rightarrow> nat set" where
  "tree_extent t = tree_area t \<union> tree_bytes t"

definition pool_ok :: "buddy_tree list \<Rightarrow> nat set \<Rightarrow> bool" where
  "pool_ok ts R \<longleftrightarrow> (\<forall>t \<in> set ts. tree_holds t {} \<and> tree_extent t \<subseteq> R \<and> tree_area t \<inter> tree_bytes t = {})
     \<and> sorted_wrt (\<lambda>t u. tree_extent t \<inter> tree_extent u = {}) ts"

lemma pool_ok_Nil [simp]: "pool_ok [] R"
  by (simp add: pool_ok_def)

lemma pool_ok_mono: "pool_ok ts R \<Longrightarrow> R \<subseteq> S \<Longrightarrow> pool_ok ts S"
  by (auto simp: pool_ok_def)

lemma pool_ok_append: "pool_ok ts R \<Longrightarrow> pool_ok us S \<Longrightarrow> R \<inter> S = {} \<Longrightarrow> pool_ok (ts @ us) (R \<union> S)"
  unfolding pool_ok_def sorted_wrt_append set_append by blast

lemma pool_ok_Cons:
  "tree_holds t {} \<Longrightarrow> tree_extent t \<subseteq> R \<Longrightarrow> tree_area t \<inter> tree_bytes t = {} \<Longrightarrow> pool_ok us S \<Longrightarrow> R \<inter> S = {} \<Longrightarrow> pool_ok (t # us) (R \<union> S)"
  using pool_ok_append[of "[t]" R us S] by (simp add: pool_ok_def)

text \<open>The tree in front of a region is made and is empty.\<close>

lemma fresh_tree:
  assumes r: "r = 2 ^ k" and top: "unat base + r * 4096 < 2 ^ 64"
    and new: "buddy_new start base (of_nat r) loader (tree_storage (required_pages_for_tree r)) = Ret (Some t)"
  shows "tree_holds t {} \<and> tree_bytes t = {unat base ..< unat base + r * 4096}
    \<and> tree_area t = {unat start ..< unat start + required_pages_for_tree r * 4096}"
proof -
  have "r < 2 ^ LENGTH(64)" using top by simp
  then have u: "unat (of_nat r :: usize) = r" by (rule of_nat_inverse[OF refl])
  have "required_pages_for_tree (unat (of_nat r :: usize)) * 4096
      \<le> length (tree_storage (required_pages_for_tree r)) + offset_of_children"
    using u by (simp add: tree_storage_def PAGE_SIZE_def)
  from buddy_new_holds[OF new this] obtain K where K: "buddy_holds K base t {}" "r = 2 ^ K"
    using u top by auto
  have "bt_base t = base" using tree_holds_pages[OF K(1)] by simp
  moreover have "tree_area t = {unat start ..< unat start + required_pages_for_tree r * 4096}"
  proof -
    have "bt_self t = start" "length (bt_children t) = required_pages_for_tree r * 4096 - offset_of_children"
      using new by (auto simp: buddy_new_def write_child_def tree_storage_def PAGE_SIZE_def
          bind_exec_Ret_iff split: if_splits)
    moreover have "offset_of_children \<le> required_pages_for_tree r * 4096"
      using required_pages_pos[of r] by (simp add: offset_of_children_def)
    ultimately show ?thesis by (simp add: tree_area_def)
  qed
  ultimately show ?thesis using K tree_holds_bytes[of K t "{}"] by (auto simp: tree_holds_def)
qed

lemma fresh_tree_cases:
  "buddy_new start base (of_nat r) loader (tree_storage (required_pages_for_tree r)) = Ret None
   \<or> (\<exists>t. buddy_new start base (of_nat r) loader (tree_storage (required_pages_for_tree r)) = Ret (Some t))"
proof -
  have "0 < length (tree_storage (required_pages_for_tree r))"
    using required_pages_pos[of r] by (simp add: tree_storage_def PAGE_SIZE_def offset_of_children_def)
  then show ?thesis by (auto simp: buddy_new_def write_child_def)
qed

text \<open>
  \<open>create_trees\<close> puts trees with disjoint pages into the range it is given, or runs out of
  slots; in every case its answer is an error.
\<close>

lemma create_trees_pool:
  assumes "unat start + pages * 4096 < 2 ^ 64"
  shows "(\<exists>new. create_trees start pages loader a = Ret (Inl (), a\<lparr> pa_trees := pa_trees a @ new \<rparr>)
            \<and> pool_ok new {unat start ..< unat start + pages * 4096})
         \<or> (create_trees start pages loader a = Undefined \<and> 5 * (tree_slots - length (pa_trees a)) < pages)"
  using assms
proof (induction start pages loader a rule: create_trees.induct)
  case (1 start pages loader a)
  note eq = create_trees.simps[of start pages loader a]
  show ?case
  proof (cases "pages < MINIMUM_PAGES_TO_MANAGE
      \<or> shrink_region (pages - 2 ^ ilog2 pages) (2 ^ ilog2 pages) = None")
    case True
    then have "create_trees start pages loader a = Ret (Inl (), a\<lparr> pa_trees := pa_trees a @ [] \<rparr>)"
      by (subst eq) auto
    then show ?thesis using pool_ok_Nil by blast
  next
    case False
    then obtain r q where sh: "\<not> pages < MINIMUM_PAGES_TO_MANAGE"
      "shrink_region (pages - 2 ^ ilog2 pages) (2 ^ ilog2 pages) = Some (r, q)" by auto
    have big: "4 \<le> pages" using sh(1) by (simp add: MINIMUM_PAGES_TO_MANAGE_def)
    from first_region[OF big sh(2)] obtain k where r: "q = required_pages_for_tree r" "0 < q" "4 \<le> r"
      "r + q \<le> pages" "r = 2 ^ k" by blast
    let ?m = "start + of_nat q * PAGE_SIZE"
    let ?e = "?m + of_nat r * PAGE_SIZE"
    have um: "unat ?m = unat start + q * 4096" using 1(2) r(4) by (intro unat_add_pages) linarith
    moreover have "unat ?e = unat ?m + r * 4096" using 1(2) r(4) um by (intro unat_add_pages) linarith
    ultimately have ue: "unat ?e = unat start + (q + r) * 4096" by simp
    have top: "unat ?m + r * 4096 < 2 ^ 64" using um 1(2) r(4) by linarith
    have ends: "unat ?e + (pages - r - q) * 4096 = unat start + pages * 4096"
    proof -
      have "pages - r - q + (q + r) = pages" using r(4) by simp
      from arg_cong[OF this, of "\<lambda>n. n * 4096"] show ?thesis unfolding ue by (simp only: distrib_right)
    qed
    show ?thesis
    proof (cases "buddy_new start ?m (of_nat r) loader (tree_storage q) = Ret None")
      case True
      then have "create_trees start pages loader a = Ret (Inl (), a\<lparr> pa_trees := pa_trees a @ [] \<rparr>)"
        using sh by (subst eq) (simp add: Let_def)
      then show ?thesis using pool_ok_Nil by blast
    next
      case False
      then obtain t where t: "buddy_new start ?m (of_nat r) loader (tree_storage q) = Ret (Some t)"
        using fresh_tree_cases[of start ?m r loader] r(1) by auto
      have fresh: "tree_holds t {}" "tree_bytes t = {unat ?m ..< unat ?m + r * 4096}"
        "tree_area t = {unat start ..< unat ?m}"
        using fresh_tree[OF r(5) top] t r(1) um by auto
      show ?thesis
      proof (cases "length (pa_trees a) < tree_slots")
        case full: False
        then have "create_trees start pages loader a = Undefined"
          using sh t by (subst eq) (simp add: Let_def push_tree_def)
        then show ?thesis using full big by auto
      next
        case room: True
        let ?a = "a\<lparr> pa_trees := pa_trees a @ [t] \<rparr>"
        have step: "create_trees start pages loader a
            = bind_exec (create_trees ?e (pages - r - q) loader ?a)
                (\<lambda>(x, a2). Ret (case x of Inr _ \<Rightarrow> Inr () | Inl _ \<Rightarrow> Inl (), a2))"
          using sh t room by (subst eq) (simp add: Let_def push_tree_def)
        have ih: "(\<exists>new. create_trees ?e (pages - r - q) loader ?a
                     = Ret (Inl (), ?a\<lparr> pa_trees := pa_trees ?a @ new \<rparr>)
                     \<and> pool_ok new {unat ?e ..< unat ?e + (pages - r - q) * 4096})
            \<or> (create_trees ?e (pages - r - q) loader ?a = Undefined
                 \<and> 5 * (tree_slots - length (pa_trees ?a)) < pages - r - q)"
          using 1(1)[OF sh(1) sh(2) refl refl t refl] room ends 1(2) by (simp add: push_tree_def)
        from ih show ?thesis
        proof (elim disjE exE conjE)
          fix new assume new: "create_trees ?e (pages - r - q) loader ?a
              = Ret (Inl (), ?a\<lparr> pa_trees := pa_trees ?a @ new \<rparr>)"
            "pool_ok new {unat ?e ..< unat ?e + (pages - r - q) * 4096}"
          have "tree_extent t \<subseteq> {unat start ..< unat ?e}" "tree_area t \<inter> tree_bytes t = {}"
            unfolding tree_extent_def fresh(2,3) um ue by auto
          from pool_ok_Cons[OF fresh(1) this new(2)] have "pool_ok (t # new)
              ({unat start ..< unat ?e} \<union> {unat ?e ..< unat ?e + (pages - r - q) * 4096})" by auto
          then have "pool_ok (t # new) {unat start ..< unat start + pages * 4096}"
            by (rule pool_ok_mono) (unfold ends, use ue r(4) in auto)
          moreover have "create_trees start pages loader a = Ret (Inl (), a\<lparr> pa_trees := pa_trees a @ (t # new) \<rparr>)"
            unfolding step new(1) by simp
          ultimately show ?thesis by blast
        next
          assume "create_trees ?e (pages - r - q) loader ?a = Undefined"
            "5 * (tree_slots - length (pa_trees ?a)) < pages - r - q"
          then show ?thesis using step room r(2,3,4) by auto
        qed
      qed
    qed
  qed
qed

section \<open>The allocator hands out disjoint pages\<close>

text \<open>The bytes of the entries that trees are made from.\<close>

definition descriptor_bytes :: "memory_descriptor \<Rightarrow> nat set" where
  "descriptor_bytes e = {unat (phys_start e) ..< unat (phys_start e) + unat (page_count e) * 4096}"

definition tree_memory_bytes :: "memory_descriptor list \<Rightarrow> nat set" where
  "tree_memory_bytes es = (\<Union>e \<in> {e \<in> set es. tree_memory (ty e)}. descriptor_bytes e)"

definition memory_map_ok :: "memory_descriptor list \<Rightarrow> bool" where
  "memory_map_ok es \<longleftrightarrow> (\<forall>e \<in> set es. unat (phys_start e) + unat (page_count e) * 4096 < 2 ^ 64)
     \<and> sorted_wrt (\<lambda>d e. descriptor_bytes d \<inter> descriptor_bytes e = {}) es"

definition trees_of :: "phys_allocator option \<Rightarrow> buddy_tree list" where
  "trees_of al = (case al of None \<Rightarrow> [] | Some a \<Rightarrow> pa_trees a)"

lemma trees_of_simps [simp]: "trees_of None = []" "trees_of (Some a) = pa_trees a"
  by (simp_all add: trees_of_def)

text \<open>The two pages of the array, and all memory the allocator takes for itself.\<close>

definition array_bytes :: "phys_allocator \<Rightarrow> nat set" where
  "array_bytes a =
     {unat (pa_self a) ..< unat (pa_self a) + PAGES_RESERVED_FOR_TREE_POINTERS * unat PAGE_SIZE}"

definition allocator_bytes :: "phys_allocator \<Rightarrow> nat set" where
  "allocator_bytes a = array_bytes a \<union> (\<Union>t \<in> set (pa_trees a). tree_area t)"

text \<open>An allocator in the making, in the memory \<open>R\<close>.\<close>

definition allocator_ok :: "phys_allocator option \<Rightarrow> nat set \<Rightarrow> bool" where
  "allocator_ok al R \<longleftrightarrow>
     (case al of None \<Rightarrow> True
      | Some a \<Rightarrow> array_bytes a \<subseteq> R \<and> pool_ok (pa_trees a) (R - array_bytes a))"

lemma allocator_ok_mono: "allocator_ok al R \<Longrightarrow> R \<subseteq> S \<Longrightarrow> allocator_ok al S"
  by (auto simp: allocator_ok_def intro: pool_ok_mono split: option.splits)

lemma allocator_ok_extend:
  assumes ok: "allocator_ok (Some a) R" and new: "pool_ok new E" and R: "R \<inter> E = {}"
  shows "allocator_ok (Some (a\<lparr> pa_trees := pa_trees a @ new \<rparr>)) (R \<union> E)"
proof -
  have "pool_ok (pa_trees a @ new) (R - array_bytes a \<union> E)"
    by (rule pool_ok_append) (use ok new R in \<open>auto simp: allocator_ok_def\<close>)
  then have "pool_ok (pa_trees a @ new) (R \<union> E - array_bytes a)"
    by (rule pool_ok_mono) (use ok R in \<open>auto simp: allocator_ok_def\<close>)
  moreover have "array_bytes (a\<lparr> pa_trees := pa_trees a @ new \<rparr>) = array_bytes a"
    by (simp add: array_bytes_def)
  ultimately show ?thesis using ok by (auto simp: allocator_ok_def)
qed

lemma add_entry_ok:
  assumes fits: "unat (phys_start e) + unat (page_count e) * 4096 < 2 ^ 64"
    and step: "add_entry e al = Ret al'"
    and ok: "allocator_ok al R" and R: "R \<inter> descriptor_bytes e = {}"
  shows "allocator_ok al' (R \<union> (if tree_memory (ty e) then descriptor_bytes e else {}))"
proof (cases "tree_memory (ty e)")
  case False
  then show ?thesis using step ok by (simp add: add_entry_def)
next
  case mem: True
  show ?thesis
  proof (cases al)
    case None
    show ?thesis
    proof (cases "unat (phys_start e) mod 8 = 0 \<and> unat (page_count e) = PAGES_RESERVED_FOR_TREE_POINTERS")
      case True
      then have "al' = Some \<lparr> pa_self = phys_start e, pa_trees = [] \<rparr>"
        using step mem None by (simp add: add_entry_def MINIMUM_PAGES_TO_MANAGE_def)
      moreover have "array_bytes \<lparr> pa_self = phys_start e, pa_trees = [] \<rparr> = descriptor_bytes e"
        using True by (simp add: array_bytes_def descriptor_bytes_def PAGE_SIZE_def)
      ultimately show ?thesis using mem by (simp add: allocator_ok_def)
    next
      case False
      then have "al' = None" using step mem None by (auto simp: add_entry_def split: if_splits)
      then show ?thesis by (simp add: allocator_ok_def)
    qed
  next
    case (Some a)
    show ?thesis
    proof (cases "MINIMUM_PAGES_TO_MANAGE \<le> unat (page_count e)")
      case False
      then have "al' = al" using step mem Some by (simp add: add_entry_def)
      then show ?thesis using allocator_ok_mono[OF ok] by auto
    next
      case True
      then obtain r a' where a': "create_trees (phys_start e) (unat (page_count e)) False a = Ret (r, a')"
        "al' = Some a'"
        using step mem Some by (auto simp: add_entry_def bind_exec_Ret_iff split: prod.splits)
      from create_trees_pool[OF fits, of False a] a'(1)
      obtain new where new: "a' = a\<lparr> pa_trees := pa_trees a @ new \<rparr>" "pool_ok new (descriptor_bytes e)"
        by (auto simp: descriptor_bytes_def)
      from allocator_ok_extend[OF ok[unfolded Some] new(2) R] show ?thesis using mem a'(2) new(1) by simp
    qed
  qed
qed

lemma add_entries_ok:
  assumes "fold_exec add_entry es al = Ret al'" "memory_map_ok es" "allocator_ok al R"
    "\<forall>e \<in> set es. R \<inter> descriptor_bytes e = {}"
  shows "allocator_ok al' (R \<union> tree_memory_bytes es)"
  using assms
proof (induction es arbitrary: al R)
  case Nil
  then show ?case by (auto simp: tree_memory_bytes_def)
next
  case (Cons e es)
  from Cons.prems(1) obtain al1 where 1: "add_entry e al = Ret al1" "fold_exec add_entry es al1 = Ret al'"
    by (auto simp: bind_exec_Ret_iff)
  let ?E = "if tree_memory (ty e) then descriptor_bytes e else {}"
  have fits: "unat (phys_start e) + unat (page_count e) * 4096 < 2 ^ 64"
    and rest: "memory_map_ok es" "\<forall>d \<in> set es. descriptor_bytes e \<inter> descriptor_bytes d = {}"
    using Cons.prems(2) by (auto simp: memory_map_ok_def)
  have ok: "allocator_ok al1 (R \<union> ?E)"
    by (rule add_entry_ok[OF fits 1(1) Cons.prems(3)]) (use Cons.prems(4) in auto)
  have "\<forall>d \<in> set es. (R \<union> ?E) \<inter> descriptor_bytes d = {}" using Cons.prems(4) rest(2) by auto
  from Cons.IH[OF 1(2) rest(1) ok this]
  have "allocator_ok al' (R \<union> ?E \<union> tree_memory_bytes es)" .
  moreover have "R \<union> ?E \<union> tree_memory_bytes es = R \<union> tree_memory_bytes (e # es)"
    by (auto simp: tree_memory_bytes_def)
  ultimately show ?case by simp
qed

lemma phys_new_ok:
  assumes "phys_new entries = Ret (Inr a)" "memory_map_ok entries"
  shows "array_bytes a \<subseteq> tree_memory_bytes entries"
    and "pool_ok (pa_trees a) (tree_memory_bytes entries - array_bytes a)"
proof -
  have "fold_exec add_entry entries None = Ret (Some a)"
    using assms(1) by (auto simp: phys_new_def bind_exec_Ret_iff split: option.splits)
  from add_entries_ok[OF this assms(2), of "{}"]
  show "array_bytes a \<subseteq> tree_memory_bytes entries"
    "pool_ok (pa_trees a) (tree_memory_bytes entries - array_bytes a)"
    by (simp_all add: allocator_ok_def)
qed

text \<open>The pages a tree keeps track of are outside every tree.\<close>

lemma pool_ok_outside:
  assumes "pool_ok ts R" "t \<in> set ts" "u \<in> set ts"
  shows "tree_bytes t \<inter> tree_area u = {}"
proof (cases "t = u")
  case True
  then show ?thesis using assms by (auto simp: pool_ok_def)
next
  case False
  obtain i j where ij: "i < length ts" "ts ! i = t" "j < length ts" "ts ! j = u"
    using assms(2,3) by (auto simp: in_set_conv_nth)
  then have "i \<noteq> j" using False by auto
  with ij assms(1) have "tree_extent t \<inter> tree_extent u = {}"
    unfolding pool_ok_def sorted_wrt_iff_nth_less by (metis Int_commute nat_neq_iff)
  then show ?thesis by (auto simp: tree_extent_def)
qed

text \<open>The trees and the blocks outstanding from each of them.\<close>

definition tree_blocks :: "nat set \<Rightarrow> buddy_tree list \<Rightarrow> (nat \<Rightarrow> (nat \<times> nat) set) \<Rightarrow> bool" where
  "tree_blocks R ts V \<longleftrightarrow> (\<forall>i < length ts. tree_holds (ts ! i) (V i) \<and> tree_bytes (ts ! i) \<subseteq> R)
     \<and> (\<forall>i < length ts. \<forall>j < length ts. i \<noteq> j \<longrightarrow> tree_bytes (ts ! i) \<inter> tree_bytes (ts ! j) = {})"

definition phys_holds :: "nat set \<Rightarrow> phys_allocator \<Rightarrow> (nat \<times> nat) set \<Rightarrow> bool" where
  "phys_holds R a U \<longleftrightarrow>
     (\<exists>V. tree_blocks R (pa_trees a) V \<and> U = (\<Union>i < length (pa_trees a). V i))"

lemma pool_ok_blocks:
  assumes pool: "pool_ok (pa_trees a) R"
  shows "phys_holds (R - (\<Union>t \<in> set (pa_trees a). tree_area t)) a {}"
proof -
  let ?B = "\<lambda>i. tree_bytes (pa_trees a ! i)" and ?R = "R - (\<Union>t \<in> set (pa_trees a). tree_area t)"
  have less: "?B i \<inter> ?B j = {}" if "i < j" "j < length (pa_trees a)" for i j
    using pool that unfolding pool_ok_def sorted_wrt_iff_nth_less tree_extent_def by blast
  have apart: "?B i \<inter> ?B j = {}" if "i < length (pa_trees a)" "j < length (pa_trees a)" "i \<noteq> j" for i j
    using less[of i j] less[of j i] that by (metis Int_commute nat_neq_iff)
  have inside: "tree_holds (pa_trees a ! i) {} \<and> ?B i \<subseteq> ?R" if "i < length (pa_trees a)" for i
  proof -
    have i: "pa_trees a ! i \<in> set (pa_trees a)" using that by simp
    then have "tree_holds (pa_trees a ! i) {}" "?B i \<subseteq> R"
      using pool by (auto simp: pool_ok_def tree_extent_def)
    with pool_ok_outside[OF pool i] show ?thesis by blast
  qed
  have "tree_blocks ?R (pa_trees a) (\<lambda>_. {})" using apart inside by (simp add: tree_blocks_def)
  then show ?thesis unfolding phys_holds_def by (intro exI[of _ "\<lambda>_. {}"]) simp
qed

lemma tree_holds_inside:
  assumes "tree_holds t U" "b \<in> U"
  shows "0 < snd b \<and> block_bytes b \<subseteq> tree_bytes t"
proof -
  obtain K where K: "buddy_holds K (bt_base t) t U" using assms(1) by (auto simp: tree_holds_def)
  from buddy.inside[OF this assms(2)] tree_holds_bytes[OF K] show ?thesis by simp
qed

lemma tree_holds_apart:
  assumes "tree_holds t U" "b \<in> U" "c \<in> U" "b \<noteq> c"
  shows "block_bytes b \<inter> block_bytes c = {}"
proof -
  obtain K where "buddy_holds K (bt_base t) t U" using assms(1) by (auto simp: tree_holds_def)
  from buddy.apart[OF this assms(2-4)] show ?thesis .
qed

lemma tree_holds_alloc:
  assumes "tree_holds t U"
  shows "(\<exists>a n t'. buddy_alloc p t = Ret (Some a, t') \<and> tree_holds t' (insert (unat a, n) U)
            \<and> (unat a, n) \<notin> U \<and> unat p \<le> n \<and> tree_bytes t' = tree_bytes t)
         \<or> buddy_alloc p t = Ret (None, t)"
proof -
  obtain K where K: "buddy_holds K (bt_base t) t U" using assms by (auto simp: tree_holds_def)
  from buddy_holds_alloc[OF K, of p] show ?thesis
  proof (elim disjE exE conjE)
    fix a n t'
    assume h: "buddy_alloc p t = Ret (Some a, t')" "buddy_holds K (bt_base t) t' (insert (unat a, n) U)"
      "(unat a, n) \<notin> U" "unat p \<le> n"
    then have base: "bt_base t' = bt_base t" using tree_holds_pages[OF h(2)] by simp
    then have "tree_bytes t' = tree_bytes t" using tree_holds_bytes[of K t'] tree_holds_bytes[OF K] h(2) by simp
    then show ?thesis using h base by (auto simp: tree_holds_def)
  qed simp
qed

lemma block_bytes_nonempty: "0 < snd b \<Longrightarrow> fst b \<in> block_bytes b"
  by (simp add: block_bytes_def)

lemma phys_alloc_from_law:
  assumes "tree_blocks R (pa_trees a) V"
  shows "(\<exists>x n a' V'. phys_alloc_from i p a = Ret (Some x, a') \<and> tree_blocks R (pa_trees a') V'
            \<and> (\<Union>j < length (pa_trees a'). V' j) = insert (unat x, n) (\<Union>j < length (pa_trees a). V j)
            \<and> (unat x, n) \<notin> (\<Union>j < length (pa_trees a). V j) \<and> unat p \<le> n)
         \<or> phys_alloc_from i p a = Ret (None, a)"
  using assms
proof (induction "length (pa_trees a) - i" arbitrary: i)
  case 0
  then show ?case by (simp add: phys_alloc_from.simps[of i])
next
  case (Suc d)
  let ?ts = "pa_trees a"
  let ?t = "?ts ! i"
  from Suc.hyps(2) have i: "i < length ?ts" by simp
  have t: "tree_holds ?t (V i)" using Suc.prems i by (simp add: tree_blocks_def)
  have run: "phys_alloc_from i p a = bind_exec (buddy_alloc p ?t) (\<lambda>(r, t').
      let a' = a\<lparr> pa_trees := ?ts[i := t'] \<rparr> in
      case r of Some address \<Rightarrow> Ret (Some address, a') | None \<Rightarrow> phys_alloc_from (Suc i) p a')"
    using i by (subst phys_alloc_from.simps) (simp add: get_tree_def)
  from tree_holds_alloc[OF t, of p] show ?case
  proof (elim disjE exE conjE)
    assume "buddy_alloc p ?t = Ret (None, ?t)"
    then have "phys_alloc_from i p a = phys_alloc_from (Suc i) p a" unfolding run by simp
    moreover have "d = length ?ts - Suc i" using Suc.hyps(2) by simp
    ultimately show ?case using Suc.hyps(1)[of "Suc i"] Suc.prems by simp
  next
    fix x n t'
    assume h: "buddy_alloc p ?t = Ret (Some x, t')" "tree_holds t' (insert (unat x, n) (V i))"
      "(unat x, n) \<notin> V i" "unat p \<le> n" "tree_bytes t' = tree_bytes ?t"
    let ?a = "a\<lparr> pa_trees := ?ts[i := t'] \<rparr>" and ?V = "V(i := insert (unat x, n) (V i))"
    have bytes: "tree_bytes (?ts[i := t'] ! j) = tree_bytes (?ts ! j)" for j
      using h(5) i by (cases "j = i") auto
    have "tree_blocks R (pa_trees ?a) ?V"
      using Suc.prems h(2) i bytes unfolding tree_blocks_def by (auto simp: nth_list_update)
    moreover have "(\<Union>j < length ?ts. ?V j) = insert (unat x, n) (\<Union>j < length ?ts. V j)"
      using i by (auto split: if_splits)
    moreover have "(unat x, n) \<notin> V j" if j: "j < length ?ts" for j
    proof
      assume x: "(unat x, n) \<in> V j"
      then have "j \<noteq> i" using h(3) by auto
      then have "tree_bytes ?t \<inter> tree_bytes (?ts ! j) = {}" using Suc.prems i j by (auto simp: tree_blocks_def)
      moreover have "unat x \<in> tree_bytes ?t"
        using tree_holds_inside[OF h(2), of "(unat x, n)"] block_bytes_nonempty[of "(unat x, n)"] h(5) by auto
      moreover have "tree_holds (?ts ! j) (V j)" using Suc.prems j by (simp add: tree_blocks_def)
      then have "unat x \<in> tree_bytes (?ts ! j)"
        using tree_holds_inside[of "?ts ! j" "V j" "(unat x, n)"] x block_bytes_nonempty[of "(unat x, n)"] by auto
      ultimately show False by blast
    qed
    moreover have "phys_alloc_from i p a = Ret (Some x, ?a)" unfolding run by (simp add: h(1))
    ultimately show ?case using h(4) by (intro disjI1 exI[of _ x] exI[of _ n] exI[of _ ?a] exI[of _ ?V]) auto
  qed
qed

interpretation phys: page_source "phys_holds R" R phys_alloc for R
proof unfold_locales
  fix a U b assume h: "phys_holds R a U" and b: "b \<in> U"
  then obtain V i where V: "tree_blocks R (pa_trees a) V" "U = (\<Union>i < length (pa_trees a). V i)"
    "i < length (pa_trees a)" "b \<in> V i" by (auto simp: phys_holds_def)
  then have i: "tree_holds (pa_trees a ! i) (V i)" "tree_bytes (pa_trees a ! i) \<subseteq> R" by (auto simp: tree_blocks_def)
  note bi = tree_holds_inside[OF i(1) V(4)]
  show "0 < snd b \<and> block_bytes b \<subseteq> R" using bi i(2) by blast
  fix c assume c: "c \<in> U" "b \<noteq> c"
  then obtain j where j: "j < length (pa_trees a)" "c \<in> V j" using V(2) by auto
  then have tj: "tree_holds (pa_trees a ! j) (V j)" using V(1) by (simp add: tree_blocks_def)
  show "block_bytes b \<inter> block_bytes c = {}"
  proof (cases "i = j")
    case True
    then show ?thesis using tree_holds_apart[OF i(1) V(4), of c] j(2) c(2) by simp
  next
    case False
    then have "tree_bytes (pa_trees a ! i) \<inter> tree_bytes (pa_trees a ! j) = {}"
      using V(1,3) j(1) by (auto simp: tree_blocks_def)
    then show ?thesis using bi tree_holds_inside[OF tj j(2)] by blast
  qed
next
  fix a U p assume "phys_holds R a U"
  then obtain V where V: "tree_blocks R (pa_trees a) V" "U = (\<Union>i < length (pa_trees a). V i)"
    by (auto simp: phys_holds_def)
  from phys_alloc_from_law[OF V(1), of 0 p] V(2)
  show "(\<exists>x n a'. phys_alloc p a = Ret (Some x, a') \<and> phys_holds R a' (insert (unat x, n) U)
      \<and> (unat x, n) \<notin> U \<and> unat p \<le> n) \<or> phys_alloc p a = Ret (None, a)"
    unfolding phys_alloc_def phys_holds_def by metis
qed

text \<open>A tree nothing was taken from serves every request up to its size.\<close>

lemma empty_tree_serves:
  assumes "tree_holds t {}" "0 < unat p" "unat p \<le> unat (bt_pages t)"
  shows "\<exists>x t'. buddy_alloc p t = Ret (Some x, t')"
proof -
  obtain K where K: "buddy_holds K (bt_base t) t {}" using assms(1) by (auto simp: tree_holds_def)
  show ?thesis using buddy.empty_law[OF K assms(2)] tree_holds_pages[OF K] assms(3) by simp
qed

lemma phys_alloc_serves:
  assumes "pool_ok (pa_trees a) R" "i \<le> j" "j < length (pa_trees a)"
    "0 < unat p" "unat p \<le> unat (bt_pages (pa_trees a ! j))"
  shows "\<exists>x a'. phys_alloc_from i p a = Ret (Some x, a')"
  using assms(2)
proof (induction "j - i" arbitrary: i)
  case 0
  then have "tree_holds (pa_trees a ! i) {}" using assms(1,3) by (simp add: pool_ok_def)
  with 0 assms(3-5) empty_tree_serves[of "pa_trees a ! i" p] show ?case
    by (subst phys_alloc_from.simps) (auto simp: get_tree_def Let_def)
next
  case (Suc n)
  then have i: "i < length (pa_trees a)" using assms(3) by simp
  then have "tree_holds (pa_trees a ! i) {}" using assms(1) by (simp add: pool_ok_def)
  from tree_holds_alloc[OF this, of p] show ?case
  proof (elim disjE exE conjE)
    fix x n t' assume "buddy_alloc p (pa_trees a ! i) = Ret (Some x, t')"
    with i show ?thesis by (subst phys_alloc_from.simps) (auto simp: get_tree_def Let_def)
  next
    assume "buddy_alloc p (pa_trees a ! i) = Ret (None, pa_trees a ! i)"
    with i have "phys_alloc_from i p a = phys_alloc_from (Suc i) p a"
      by (subst phys_alloc_from.simps) (auto simp: get_tree_def Let_def)
    with Suc show ?thesis by simp
  qed
qed

text \<open>
  C29: On a memory map whose entries do not overlap, the allocator over all trees never reads a byte
  that nobody wrote, and every block it hands out lies in conventional or persistent memory,
  overlaps no other block it handed out, whichever trees they come from, and overlaps neither the
  array of trees nor the memory of any tree. The array and the trees lie in such memory
  themselves, apart from each other. A first request that does not exceed the pages of some tree
  is served.
\<close>

theorem phys_allocs_are_safe:
  assumes "phys_new entries = Ret (Inr a)" "memory_map_ok entries"
  shows "\<exists>rs a'. alloc_run phys_alloc phys_free (map Alloc_Op ps) a = Ret (rs, a') \<and> length rs = length ps
    \<and> sorted_wrt (\<lambda>b c. held_bytes b \<inter> held_bytes c = {}) (held (map Alloc_Op ps) rs)
    \<and> (\<forall>b \<in> set (held (map Alloc_Op ps) rs).
         held_bytes b \<subseteq> tree_memory_bytes entries \<and> held_bytes b \<inter> allocator_bytes a = {})
    \<and> allocator_bytes a \<subseteq> tree_memory_bytes entries
    \<and> sorted_wrt (\<lambda>t u. tree_area t \<inter> tree_area u = {}) (pa_trees a)
    \<and> (\<forall>t \<in> set (pa_trees a). array_bytes a \<inter> tree_area t = {})
    \<and> (\<forall>p t. t \<in> set (pa_trees a) \<and> 0 < unat p \<and> unat p \<le> unat (bt_pages t) \<longrightarrow>
         (\<exists>x a'. phys_alloc p a = Ret (Some x, a')))"
proof -
  note ok = phys_new_ok[OF assms]
  let ?R = "tree_memory_bytes entries - array_bytes a - (\<Union>t \<in> set (pa_trees a). tree_area t)"
  have "phys_holds ?R a {}" by (rule pool_ok_blocks[OF ok(2)])
  from phys.allocs_safe[OF this claims_empty(1), of phys_free ps] obtain rs a' U where
    run: "alloc_run phys_alloc phys_free (map Alloc_Op ps) a = Ret (rs, a')" "length rs = length ps"
    "phys_holds ?R a' U" "claims U (held (map Alloc_Op ps) rs)"
    by (auto simp: held_def)
  have areas: "tree_area t \<subseteq> tree_memory_bytes entries - array_bytes a" if "t \<in> set (pa_trees a)" for t
    using ok(2) that by (auto simp: pool_ok_def tree_extent_def)
  have "sorted_wrt (\<lambda>t u. tree_extent t \<inter> tree_extent u = {}) (pa_trees a)"
    using ok(2) by (simp add: pool_ok_def)
  then have "sorted_wrt (\<lambda>t u. tree_area t \<inter> tree_area u = {}) (pa_trees a)"
    by (rule sorted_wrt_mono_rel[rotated]) (auto simp: tree_extent_def)
  moreover have "allocator_bytes a \<subseteq> tree_memory_bytes entries"
    "\<forall>t \<in> set (pa_trees a). array_bytes a \<inter> tree_area t = {}"
    using areas ok(1) by (auto simp: allocator_bytes_def)
  moreover have "sorted_wrt (\<lambda>b c. held_bytes b \<inter> held_bytes c = {}) (held (map Alloc_Op ps) rs)"
    and within: "\<forall>b \<in> set (held (map Alloc_Op ps) rs). held_bytes b \<subseteq> ?R"
    using phys.claims_apart[OF run(3,4)] by simp_all
  moreover have "?R = tree_memory_bytes entries - allocator_bytes a" by (auto simp: allocator_bytes_def)
  with within have "\<forall>b \<in> set (held (map Alloc_Op ps) rs).
      held_bytes b \<subseteq> tree_memory_bytes entries \<and> held_bytes b \<inter> allocator_bytes a = {}"
    by (simp only:) blast
  moreover have "\<forall>p t. t \<in> set (pa_trees a) \<and> 0 < unat p \<and> unat p \<le> unat (bt_pages t) \<longrightarrow>
      (\<exists>x a'. phys_alloc p a = Ret (Some x, a'))"
    unfolding phys_alloc_def using phys_alloc_serves[OF ok(2), of 0] by (auto simp: in_set_conv_nth)
  ultimately show ?thesis using run(1,2) by (intro exI conjI)
qed

text \<open>Two reserved pages and one region of five pages.\<close>

abbreviation small_map :: "memory_descriptor list" where
  "small_map \<equiv> [\<lparr> ty = CONVENTIONAL, phys_start = 4096, page_count = 2 \<rparr>,
                 \<lparr> ty = CONVENTIONAL, phys_start = 65536, page_count = 5 \<rparr>]"

lemma small_map_new: "\<exists>a. phys_new small_map = Ret (Inr a)" "memory_map_ok small_map"
proof -
  have "\<exists>r a. create_trees 65536 5 False \<lparr> pa_self = 4096, pa_trees = [] \<rparr> = Ret (r, a)"
    using create_trees_pool[of 65536 5 False "\<lparr> pa_self = 4096, pa_trees = [] \<rparr>"]
    by (auto simp: tree_slots_def PAGES_RESERVED_FOR_TREE_POINTERS_def PAGE_SIZE_def)
  then show "\<exists>a. phys_new small_map = Ret (Inr a)"
    by (auto simp: phys_new_def add_entry_def PAGES_RESERVED_FOR_TREE_POINTERS_def MINIMUM_PAGES_TO_MANAGE_def)
  show "memory_map_ok small_map" by (auto simp: memory_map_ok_def descriptor_bytes_def)
qed

theorem phys_allocs_are_safe_witness:
  "\<exists>a rs a'. phys_new small_map = Ret (Inr a)
    \<and> alloc_run phys_alloc phys_free (map Alloc_Op [1, 2]) a = Ret (rs, a') \<and> length rs = length [1 :: usize, 2]
    \<and> sorted_wrt (\<lambda>b c. held_bytes b \<inter> held_bytes c = {}) (held (map Alloc_Op [1, 2]) rs)
    \<and> (\<forall>b \<in> set (held (map Alloc_Op [1, 2]) rs).
         held_bytes b \<subseteq> tree_memory_bytes small_map \<and> held_bytes b \<inter> allocator_bytes a = {})"
proof -
  obtain a where a: "phys_new small_map = Ret (Inr a)" using small_map_new(1) by blast
  from phys_allocs_are_safe[OF a small_map_new(2), of "[1, 2]"] a show ?thesis by blast
qed

section \<open>What the code does not do\<close>

text \<open>
  The recursion of \<open>create_trees\<close> ends in an error on every path, so its answer is never \<open>Ok\<close>;
  the caller ignores it.
\<close>

lemma create_trees_never_ok: "create_trees start pages loader a = Ret (r, a') \<Longrightarrow> r = Inl ()"
proof (induction start pages loader a arbitrary: r a' rule: create_trees.induct)
  case (1 start pages loader a)
  note ret = 1(2)[unfolded create_trees.simps[of start pages loader a]]
  show ?case
  proof (cases "pages < MINIMUM_PAGES_TO_MANAGE
      \<or> shrink_region (pages - 2 ^ ilog2 pages) (2 ^ ilog2 pages) = None")
    case True
    then show ?thesis using ret by (auto split: if_splits)
  next
    case False
    then obtain n q where sh: "\<not> pages < MINIMUM_PAGES_TO_MANAGE"
      "shrink_region (pages - 2 ^ ilog2 pages) (2 ^ ilog2 pages) = Some (n, q)" by auto
    let ?m = "start + of_nat q * PAGE_SIZE"
    from ret sh obtain new where new: "buddy_new start ?m (of_nat n) loader (tree_storage q) = Ret new"
      by (auto simp: Let_def bind_exec_Ret_iff)
    show ?thesis
    proof (cases new)
      case None
      then show ?thesis using ret sh new by auto
    next
      case (Some t)
      with ret sh new obtain a1 x a2 where x: "push_tree t a = Ret a1"
        "create_trees (?m + of_nat n * PAGE_SIZE) (pages - n - q) loader a1 = Ret (x, a2)"
        "r = (case x of Inr _ \<Rightarrow> Inr () | Inl _ \<Rightarrow> Inl ())"
        by (auto simp: Let_def bind_exec_Ret_iff)
      have "x = Inl ()" by (rule 1(1)[OF sh refl refl new Some x(1,2)])
      then show ?thesis using x(3) by simp
    qed
  qed
qed

text \<open>
  \<open>free_pages\<close> is not computed again when the region is halved: a range of \<open>2 ^ k\<close> pages has no
  free pages at first, so no smaller region is ever good enough, and none of its pages is managed.
\<close>

lemma shrink_region_none: "shrink_region 0 region = None"
proof (induction region rule: less_induct)
  case (less region)
  show ?case
    using less[of "region div 2"] required_pages_pos[of region]
    by (subst shrink_region.simps) (auto simp: Let_def MINIMUM_PAGES_TO_MANAGE_def)
qed

lemma power_of_two_range_is_lost: "create_trees start (2 ^ k) loader a = Ret (Inl (), a)"
proof -
  have "ilog2 (2 ^ k) = k"
  proof -
    have "(2::nat) ^ ilog2 (2 ^ k) \<le> 2 ^ k" "(2::nat) ^ k < 2 ^ Suc (ilog2 (2 ^ k))"
      using ilog2_bounds[of "2 ^ k"] by simp_all
    then have "ilog2 (2 ^ k) \<le> k" "k < Suc (ilog2 (2 ^ k))"
      using power_less_imp_less_exp[of "2::nat" k "Suc (ilog2 (2 ^ k))"] by auto
    then show ?thesis by simp
  qed
  then show ?thesis by (subst create_trees.simps) (simp add: shrink_region_none)
qed

text \<open>Without an entry of exactly two pages there is no allocator, however much memory there is.\<close>

lemma no_reserved_entry:
  "\<forall>e \<in> set entries. unat (page_count e) \<noteq> PAGES_RESERVED_FOR_TREE_POINTERS \<Longrightarrow> phys_new entries = Ret (Inl ())"
proof -
  assume e: "\<forall>e \<in> set entries. unat (page_count e) \<noteq> PAGES_RESERVED_FOR_TREE_POINTERS"
  then have "fold_exec add_entry entries None = Ret None"
    by (induction entries) (auto simp: add_entry_def)
  then show "phys_new entries = Ret (Inl ())" by (simp add: phys_new_def)
qed

end
