(* ===== verification/Boot_Setup.thy ===== *)
theory Boot_Setup
  imports Boot_Correct Boot_Display Kernel_Main
begin

text \<open>
  The whole run of the bootloader (\<open>setup_uefi_and_exit\<close> and \<open>entry\<close> of
  \<open>bootloader/src/main.rs\<close>), from the firmware it finds to the kernel it jumps to, and the boot
  information as the kernel reads it (\<open>bootinfo/src/lib.rs\<close>). The calls of the firmware are the
  fields of a record; the constants computed from the kernel binary are arguments.
\<close>

section \<open>The constants\<close>

text \<open>
  \<open>KERNEL_BINARY\<close>, and the constants computed from it when the bootloader is compiled: a panic
  is a compile error, and \<open>None\<close> an evaluation that does not end.
\<close>

definition kernel_binary :: "u8 list \<Rightarrow> elf64 exec" where
  "kernel_binary bs =
     bind_exec (elf_from_bytes bs) (\<lambda>r.
       case r of Inl e \<Rightarrow> Panic ''ELF error'' | Inr (N64 elf) \<Rightarrow> Ret elf)"

record boot_constants =
  bc_segments :: "elf_segment64 list"
  bc_bootinfo :: usize
  bc_virtual_base :: usize
  bc_next_v_addr :: usize
  bc_kernel_entry :: vaddr

definition compile_bootloader :: "u8 list \<Rightarrow> boot_constants exec option" where
  "compile_bootloader bs =
     (case bind_exec (kernel_binary bs) (\<lambda>elf.
             bind_exec (kernel_segments elf) (\<lambda>segments.
             bind_exec (kernel_bootinfo_address elf) (\<lambda>bootinfo.
               Ret (segments, bootinfo, program_entry elf)))) of
        Ret (segments, bootinfo, entry) \<Rightarrow>
          map_option (\<lambda>r. bind_exec r (\<lambda>(base, next_v_addr).
              Ret \<lparr> bc_segments = segments, bc_bootinfo = bootinfo, bc_virtual_base = base,
                    bc_next_v_addr = next_v_addr, bc_kernel_entry = entry \<rparr>))
            (kernel_virtual_addresses segments)
      | Panic e \<Rightarrow> Some (Panic e)
      | Undefined \<Rightarrow> Some Undefined)"

section \<open>The boot information\<close>

text \<open>
  \<open>BootInfo\<close> with its array of regions that may not be initialised. Its fields take 2136 bytes,
  its alignment makes that one page.
\<close>

record boot_block =
  bb_graphics_info :: graphics_info
  bb_virtual_map :: recursive_mapper
  bb_switcher_map :: vaddr
  bb_regions_base :: "memory_region option list"
  bb_regions_size :: nat
  bb_v_addr_start :: vaddr
  bb_v_addr_end :: vaddr

definition size_of_boot_info :: nat where "size_of_boot_info = 4096"

text \<open>\<open>BootInfo::memory_regions\<close>: the first \<open>memory_regions_size\<close> elements of the array.\<close>

definition boot_regions :: "boot_block \<Rightarrow> memory_region list exec" where
  "boot_regions b =
     (let rs = take (bb_regions_size b) (bb_regions_base b) in
      if length (bb_regions_base b) < bb_regions_size b \<or> None \<in> set rs then Undefined
      else Ret (map the rs))"

text \<open>What the entry point of the kernel reads.\<close>

definition kernel_boot_info :: "boot_block \<Rightarrow> boot_info exec" where
  "kernel_boot_info b =
     bind_exec (boot_regions b) (\<lambda>rs.
       Ret \<lparr> bi_graphics = bb_graphics_info b, bi_memory_regions = rs,
             bi_v_addr_start = bb_v_addr_start b, bi_v_addr_end = bb_v_addr_end b \<rparr>)"

text \<open>
  The regions written into the array, one after the other, and their number; sorting the slice
  does not touch the rest of the array.
\<close>

definition write_regions :: "memory_region list \<Rightarrow> boot_block \<Rightarrow> boot_block" where
  "write_regions rs b =
     b\<lparr> bb_regions_base := map Some rs @ drop (length rs) (bb_regions_base b), bb_regions_size := length rs \<rparr>"

section \<open>The firmware\<close>

record 'a firmware =
  fw_init :: bool
  fw_gop_handle :: bool
  fw_gop_open :: bool
  fw_modes :: "mode_info list"
  fw_set_mode :: "mode_info \<Rightarrow> bool"
  fw_frame_buffer :: "mode_info \<Rightarrow> usize \<times> usize"
  fw_allocate_pages :: "usize \<Rightarrow> 'a \<Rightarrow> paddr option \<times> 'a"
  fw_page_bytes :: "paddr \<Rightarrow> usize \<Rightarrow> u8 list"
  fw_switcher :: usize
  fw_memory_map :: "'a \<Rightarrow> memory_descriptor list"

text \<open>\<open>boot::allocate_pages(...).unwrap()\<close>\<close>

definition take_pages :: "'a firmware \<Rightarrow> usize \<Rightarrow> 'a machine \<Rightarrow> (paddr \<times> 'a machine) exec" where
  "take_pages fw n m =
     (case fw_allocate_pages fw n (pool m) of
        (None, s) \<Rightarrow> Panic ''called `Result::unwrap()` on an `Err` value''
      | (Some p, s) \<Rightarrow> Ret (p, m\<lparr> pool := s \<rparr>))"

section \<open>The set-up\<close>

record uefi_info =
  ui_memory_map :: "memory_descriptor list"
  ui_pml4_phys :: paddr
  ui_kernel_stack_base :: vaddr
  ui_kernel_entry :: vaddr

text \<open>
  The page that holds the boot information is kept as a record of its own, next to the bytes of
  the kernel's pages.

  The loop over the segments: each is copied and mapped before the next.\<close>

fun place_segments ::
  "usize \<Rightarrow> usize \<Rightarrow> elf_segment64 list \<Rightarrow> allocation \<Rightarrow> 'a virtual_map_builder \<Rightarrow> 'a machine \<Rightarrow>
   (allocation \<times> 'a virtual_map_builder \<times> 'a machine) exec" where
  "place_segments kernel_ptr virtual_base [] mem b m = Ret (mem, b, m)"
| "place_segments kernel_ptr virtual_base (s # ss) mem b m =
     (if \<not> segment_type_eq (segment_type s) SegLoad then place_segments kernel_ptr virtual_base ss mem b m
      else
        bind_exec (load_segment virtual_base s mem) (\<lambda>mem1.
        bind_exec (builder_maps b (segment_requests kernel_ptr virtual_base s) m) (\<lambda>(b1, m1).
          place_segments kernel_ptr virtual_base ss mem1 b1 m1)))"

definition setup_uefi_and_exit ::
  "elf_segment64 list \<Rightarrow> usize \<Rightarrow> usize \<Rightarrow> usize \<Rightarrow> vaddr \<Rightarrow> 'a firmware \<Rightarrow> 'a machine \<Rightarrow>
   (uefi_info \<times> boot_block \<times> allocation \<times> 'a machine) exec" where
  "setup_uefi_and_exit segments virtual_base next_v_addr bootinfo_address kernel_entry fw m =
     (if \<not> fw_init fw then Panic ''called `Result::unwrap()` on an `Err` value''
      else if \<not> fw_gop_handle fw then Panic ''No Graphics Output Protocol''
      else if \<not> fw_gop_open fw then Panic ''Error opening Graphics Output Protocol''
      else
        bind_exec (choose_mode (fw_modes fw)) (\<lambda>info.
        if \<not> fw_set_mode fw info then Panic ''called `Result::unwrap()` on an `Err` value''
        else
          let (fb_phys, fb_size) = fw_frame_buffer fw info;
              b0 = builder_new boot_recursion_index (boot_page_table (fw_allocate_pages fw 1)) (\<lambda>p. p);
              kernel_pages = (next_v_addr - virtual_base) div PAGE_SIZE
          in
          bind_exec (take_pages fw kernel_pages m) (\<lambda>(kernel_ptr, m1).
          bind_exec (place_segments kernel_ptr virtual_base segments (fw_page_bytes fw kernel_ptr kernel_pages) b0 m1)
            (\<lambda>(mem, b1, m2).
          if fw_switcher fw mod PAGE_SIZE \<noteq> 0 then Panic ''`switch_to_kernel` must be page-aligned''
          else
          bind_exec (builder_maps b1 [(fw_switcher fw, fw_switcher fw, 0)] m2) (\<lambda>(b2, m3).
          bind_exec (take_pages fw KERNEL_STACK_PAGES m3) (\<lambda>(stack_ptr, m4).
          let (stack, next1, stack_map) = next_free_page next_v_addr stack_ptr KERNEL_STACK_PAGES VF_WRITABLE in
          bind_exec (builder_maps b2 stack_map m4) (\<lambda>(b3, m5).
          let (fb, next2, fb_map) =
                next_free_page next1 fb_phys (frame_buffer_pages fb_phys fb_size)
                  (VF_WRITABLE OR VF_WRITE_THROUGH OR VF_CACHE_DISABLED) in
          bind_exec (builder_maps b3 fb_map m5) (\<lambda>(b4, m6).
          bind_exec (builder_finish b4 m6) (\<lambda>(res, m7).
            case res of
              Inl _ \<Rightarrow> Panic ''called `Result::unwrap()` on an `Err` value''
            | Inr (pml4_phys, vmap) \<Rightarrow>
                if length mem < unat (bootinfo_address - virtual_base) + size_of_boot_info then Undefined
                else
                  let entries = fw_memory_map fw (pool m7);
                      block = \<lparr> bb_graphics_info = boot_graphics_info info fb fb_size,
                                bb_virtual_map = vmap, bb_switcher_map = fw_switcher fw,
                                bb_regions_base = replicate MAX_MEMORY_REGIONS None, bb_regions_size = 0,
                                bb_v_addr_start = next2, bb_v_addr_end = - 1 \<rparr>
                  in Ret (\<lparr> ui_memory_map = entries, ui_pml4_phys = pml4_phys,
                            ui_kernel_stack_base = stack + KERNEL_STACK_PAGES * PAGE_SIZE,
                            ui_kernel_entry = kernel_entry \<rparr>,
                          write_regions (memory_regions entries) block, mem, m7))))))))))"

text \<open>
  \<open>entry\<close>: the assembly loads \<open>cr3\<close>, puts the stack pointer below the base it is given and jumps
  to the kernel; the registers are the pair.
\<close>

record jump =
  jump_rsp :: usize
  jump_rip :: usize

definition enter_kernel :: "uefi_info \<Rightarrow> 'a machine \<Rightarrow> jump \<times> 'a machine" where
  "enter_kernel u m =
     (\<lparr> jump_rsp = ui_kernel_stack_base u - 8, jump_rip = ui_kernel_entry u \<rparr>,
      switch_to_kernel (ui_pml4_phys u) m)"

section \<open>The regions\<close>

lemma boot_regions_write:
  assumes "length rs \<le> length (bb_regions_base b)"
  shows "boot_regions (write_regions rs b) = Ret rs"
proof -
  have "take (length rs) (map Some rs @ drop (length rs) (bb_regions_base b)) = map Some rs" by simp
  then show ?thesis using assms by (auto simp: boot_regions_def write_regions_def Let_def comp_def)
qed

lemma length_group_entries:
  "length out < MAX_MEMORY_REGIONS \<Longrightarrow> length (fst (group_entries es out region)) \<le> MAX_MEMORY_REGIONS"
  by (induction es out region rule: group_entries.induct) (auto simp: Let_def split: option.splits)

lemma length_memory_regions: "length (memory_regions es) \<le> MAX_MEMORY_REGIONS"
proof -
  obtain out region where g: "group_entries es [] None = (out, region)" by (cases "group_entries es [] None")
  then have "length out \<le> MAX_MEMORY_REGIONS"
    using length_group_entries[of "[]" es None] by (simp add: MAX_MEMORY_REGIONS_def)
  then show ?thesis using g by (auto simp: memory_regions_def sort_regions_def split: option.splits)
qed

section \<open>The mappings made so far\<close>

lemma place_segments_Ret:
  "place_segments kernel_ptr base ss mem b m = Ret (mem', b', m') \<longleftrightarrow>
     load_segments base ss mem = Ret mem' \<and> builder_maps b (kernel_requests kernel_ptr base ss) m = Ret (b', m')"
proof (induction ss arbitrary: mem b m)
  case Nil
  then show ?case by (auto simp: kernel_requests_def)
next
  case (Cons s ss)
  show ?case
  proof (cases "segment_type_eq (segment_type s) SegLoad")
    case False
    then show ?thesis using Cons.IH by (simp add: kernel_requests_def)
  next
    case True
    then have req: "kernel_requests kernel_ptr base (s # ss)
        = segment_requests kernel_ptr base s @ kernel_requests kernel_ptr base ss"
      by (simp add: kernel_requests_def)
    show ?thesis using True Cons.IH unfolding req builder_maps_append
      by (auto simp: bind_exec_Ret_iff split: prod.splits)
  qed
qed

section \<open>The hand-over\<close>

lemma take_pages_Ret:
  "take_pages fw n m = Ret (p, m') \<longleftrightarrow>
     (\<exists>s. fw_allocate_pages fw n (pool m) = (Some p, s) \<and> m' = m\<lparr> pool := s \<rparr>)"
  by (auto simp: take_pages_def split: prod.splits option.splits)

text \<open>
  What the bootloader relies on: single pages are frames nobody owns, and no allocation gives
  frames back.
\<close>

definition firmware_ok :: "('a \<Rightarrow> paddr set) \<Rightarrow> 'a firmware \<Rightarrow> bool" where
  "firmware_ok taken fw \<longleftrightarrow> fresh_allocator taken (fw_allocate_pages fw 1)
     \<and> (\<forall>n s. taken s \<subseteq> taken (snd (fw_allocate_pages fw n s)))"

lemma mapped_so_far_take:
  assumes "firmware_ok taken fw" "mapped_so_far taken rs b m" "take_pages fw n m = Ret (p, m')"
  shows "mapped_so_far taken rs b m'"
proof -
  obtain s where s: "fw_allocate_pages fw n (pool m) = (Some p, s)" "m' = m\<lparr> pool := s \<rparr>"
    using assms(3) by (auto simp: take_pages_Ret)
  then have "taken (pool m) \<subseteq> taken s" using assms(1) by (metis firmware_ok_def snd_conv)
  then show ?thesis using mapped_so_far_pool[OF assms(2)] s(2) by simp
qed

lemma setup_run:
  assumes fw: "firmware_ok taken fw" and cr3: "cr3 m = None"
    and run: "setup_uefi_and_exit segments virtual_base next_v_addr bootinfo_address kernel_entry fw m
      = Ret (u, block, mem, m')"
  obtains info fb_phys fb_size kernel_ptr stack_ptr requests stack_base fb where
    "choose_mode (fw_modes fw) = Ret info" "fw_frame_buffer fw info = (fb_phys, fb_size)"
    "boot_requests segments virtual_base next_v_addr kernel_ptr (fw_switcher fw) stack_ptr fb_phys fb_size
       = (requests, stack_base, fb, bb_v_addr_start block)"
    "load_segments virtual_base segments
       (fw_page_bytes fw kernel_ptr ((next_v_addr - virtual_base) div PAGE_SIZE)) = Ret mem"
    "unat (bootinfo_address - virtual_base) + size_of_boot_info \<le> length mem"
    "u = \<lparr> ui_memory_map = ui_memory_map u, ui_pml4_phys = ui_pml4_phys u,
           ui_kernel_stack_base = stack_base, ui_kernel_entry = kernel_entry \<rparr>"
    "kernel_inv taken (bb_virtual_map block) (switch_to_kernel (ui_pml4_phys u) m')"
    "\<And>v. canonical v \<Longrightarrow> pml4_index (vaddr_info v) \<noteq> boot_recursion_index \<Longrightarrow>
       mmu_frame (frames (switch_to_kernel (ui_pml4_phys u) m')) (ui_pml4_phys u) v =
         map_option (\<lambda>(p, v, flags). p AND NODE_ADDRESS_MASK) (requested requests v)"
    "kernel_boot_info block = Ret \<lparr> bi_graphics = boot_graphics_info info fb fb_size,
       bi_memory_regions = memory_regions (ui_memory_map u),
       bi_v_addr_start = bb_v_addr_start block, bi_v_addr_end = - 1 \<rparr>"
proof -
  let ?b0 = "builder_new boot_recursion_index (boot_page_table (fw_allocate_pages fw 1)) (\<lambda>p. p)"
  let ?pages = "(next_v_addr - virtual_base) div PAGE_SIZE"
  let ?sw = "fw_switcher fw"
  obtain info where info: "choose_mode (fw_modes fw) = Ret info"
    using run by (auto simp: setup_uefi_and_exit_def bind_exec_Ret_iff split: if_splits)
  obtain fb_phys fb_size where fbuf: "fw_frame_buffer fw info = (fb_phys, fb_size)" by fastforce
  obtain stack next1 stack_map where st: "\<And>p. next_free_page next_v_addr p KERNEL_STACK_PAGES VF_WRITABLE
      = (stack, next1, stack_map p)"
    by (simp add: next_free_page_def)
  obtain fb next2 fb_map where fbm: "next_free_page next1 fb_phys (frame_buffer_pages fb_phys fb_size)
      (VF_WRITABLE OR VF_WRITE_THROUGH OR VF_CACHE_DISABLED) = (fb, next2, fb_map)"
    by (metis prod_cases3)
  note run' = run[unfolded setup_uefi_and_exit_def Let_def info bind_exec.simps fbuf prod.case]
  obtain kernel_ptr m1 mem1 b1 m2 b2 m3 stack_ptr m4 b3 m5 b4 m6 m7 pml4 vmap where r:
    "take_pages fw ?pages m = Ret (kernel_ptr, m1)"
    "place_segments kernel_ptr virtual_base segments (fw_page_bytes fw kernel_ptr ?pages) ?b0 m1 = Ret (mem1, b1, m2)"
    "builder_maps b1 [(?sw, ?sw, 0)] m2 = Ret (b2, m3)"
    "take_pages fw KERNEL_STACK_PAGES m3 = Ret (stack_ptr, m4)"
    "builder_maps b2 (stack_map stack_ptr) m4 = Ret (b3, m5)"
    "builder_maps b3 fb_map m5 = Ret (b4, m6)"
    "builder_finish b4 m6 = Ret (Inr (pml4, vmap), m7)"
    and out: "\<not> length mem1 < unat (bootinfo_address - virtual_base) + size_of_boot_info"
    "(u, block, mem, m') = (\<lparr> ui_memory_map = fw_memory_map fw (pool m7), ui_pml4_phys = pml4,
        ui_kernel_stack_base = stack + KERNEL_STACK_PAGES * PAGE_SIZE, ui_kernel_entry = kernel_entry \<rparr>,
      write_regions (memory_regions (fw_memory_map fw (pool m7)))
        \<lparr> bb_graphics_info = boot_graphics_info info fb fb_size, bb_virtual_map = vmap, bb_switcher_map = ?sw,
          bb_regions_base = replicate MAX_MEMORY_REGIONS None, bb_regions_size = 0,
          bb_v_addr_start = next2, bb_v_addr_end = - 1 \<rparr>, mem1, m7)"
    using run'
    by (auto simp: bind_exec_Ret_iff case_sum_Panic_Ret st fbm simp del: builder_maps.simps
        split: if_splits prod.splits)
  from r(2) have place: "load_segments virtual_base segments (fw_page_bytes fw kernel_ptr ?pages) = Ret mem1"
    "builder_maps ?b0 (kernel_requests kernel_ptr virtual_base segments) m1 = Ret (b1, m2)"
    by (auto simp: place_segments_Ret)
  have "fresh_allocator taken (fw_allocate_pages fw 1)" using fw by (simp add: firmware_ok_def)
  note s0 = mapped_so_far_take[OF fw mapped_so_far_new[OF this cr3] r(1)]
  note s1 = mapped_so_far_maps[OF mapped_so_far_take[OF fw
      mapped_so_far_maps[OF mapped_so_far_maps[OF s0 place(2)] r(3)] r(4)] r(5)]
  note s2 = mapped_so_far_maps[OF s1 r(6)]
  let ?requests = "kernel_requests kernel_ptr virtual_base segments @ [(?sw, ?sw, 0)] @ stack_map stack_ptr @ fb_map"
  have s: "mapped_so_far taken ?requests b4 m6" using s2 by simp
  note outs = out(2)[unfolded prod.inject]
  have block: "bb_v_addr_start block = next2" "bb_virtual_map block = vmap" using outs by (auto simp: write_regions_def)
  have reqs: "boot_requests segments virtual_base next_v_addr kernel_ptr ?sw stack_ptr fb_phys fb_size
       = (?requests, stack + KERNEL_STACK_PAGES * PAGE_SIZE, fb, bb_v_addr_start block)"
    using st fbm block(1) by (simp add: boot_requests_def Let_def)
  have view: "kernel_boot_info block = Ret \<lparr> bi_graphics = boot_graphics_info info fb fb_size,
       bi_memory_regions = memory_regions (ui_memory_map u),
       bi_v_addr_start = bb_v_addr_start block, bi_v_addr_end = - 1 \<rparr>"
    using outs length_memory_regions[of "fw_memory_map fw (pool m7)"]
    by (auto simp: kernel_boot_info_def boot_regions_write) (auto simp: write_regions_def)
  show thesis
    by (rule that[OF info fbuf reqs _ _ _ _ _ view])
      (use place(1) out(1) outs block(2) mapped_so_far_finish[OF s r(7)] in auto)
qed

text \<open>
  C6: When the bootloader reaches its jump, then with the page tables it switches to: the
  processor translates the pages of the segments, the switcher, the stack and the frame buffer to
  the frames they were given and faults everywhere else; the map handed to the kernel is
  well-formed, so that the kernel can go on mapping through its recursive slot; the stack pointer
  lies one word below the top of the mapped stack; the segments are loaded; and the boot
  information the kernel reads holds the display, the regions of the firmware's memory map and
  the first virtual address that was not handed out.
\<close>

theorem bootloader_hands_over:
  assumes "firmware_ok taken fw" and "cr3 m = None"
    and "setup_uefi_and_exit segments virtual_base next_v_addr bootinfo_address kernel_entry fw m
      = Ret (u, block, mem, m1)"
    and "enter_kernel u m1 = (j, m2)"
  shows "\<exists>info fb_phys fb_size kernel_ptr stack_ptr requests stack_base fb.
    choose_mode (fw_modes fw) = Ret info \<and> fw_frame_buffer fw info = (fb_phys, fb_size)
    \<and> boot_requests segments virtual_base next_v_addr kernel_ptr (fw_switcher fw) stack_ptr fb_phys fb_size
        = (requests, stack_base, fb, bb_v_addr_start block)
    \<and> load_segments virtual_base segments
        (fw_page_bytes fw kernel_ptr ((next_v_addr - virtual_base) div PAGE_SIZE)) = Ret mem
    \<and> j = \<lparr> jump_rsp = stack_base - 8, jump_rip = kernel_entry \<rparr>
    \<and> kernel_inv taken (bb_virtual_map block) m2
    \<and> (\<forall>v. canonical v \<and> pml4_index (vaddr_info v) \<noteq> boot_recursion_index \<longrightarrow>
         mmu_frame (frames m2) (ui_pml4_phys u) v =
           map_option (\<lambda>(p, v, flags). p AND NODE_ADDRESS_MASK) (requested requests v))
    \<and> kernel_boot_info block = Ret \<lparr> bi_graphics = boot_graphics_info info fb fb_size,
         bi_memory_regions = memory_regions (ui_memory_map u),
         bi_v_addr_start = bb_v_addr_start block, bi_v_addr_end = - 1 \<rparr>"
proof -
  have enter: "j = \<lparr> jump_rsp = ui_kernel_stack_base u - 8, jump_rip = ui_kernel_entry u \<rparr>"
    "m2 = switch_to_kernel (ui_pml4_phys u) m1"
    using assms(4) by (auto simp: enter_kernel_def)
  from setup_run[OF assms(1-3)] obtain info fb_phys fb_size kernel_ptr stack_ptr requests stack_base fb where r:
    "choose_mode (fw_modes fw) = Ret info" "fw_frame_buffer fw info = (fb_phys, fb_size)"
    "boot_requests segments virtual_base next_v_addr kernel_ptr (fw_switcher fw) stack_ptr fb_phys fb_size
       = (requests, stack_base, fb, bb_v_addr_start block)"
    "load_segments virtual_base segments
       (fw_page_bytes fw kernel_ptr ((next_v_addr - virtual_base) div PAGE_SIZE)) = Ret mem"
    "u = \<lparr> ui_memory_map = ui_memory_map u, ui_pml4_phys = ui_pml4_phys u,
           ui_kernel_stack_base = stack_base, ui_kernel_entry = kernel_entry \<rparr>"
    "kernel_inv taken (bb_virtual_map block) m2"
    "\<And>v. canonical v \<Longrightarrow> pml4_index (vaddr_info v) \<noteq> boot_recursion_index \<Longrightarrow>
       mmu_frame (frames m2) (ui_pml4_phys u) v =
         map_option (\<lambda>(p, v, flags). p AND NODE_ADDRESS_MASK) (requested requests v)"
    "kernel_boot_info block = Ret \<lparr> bi_graphics = boot_graphics_info info fb fb_size,
       bi_memory_regions = memory_regions (ui_memory_map u),
       bi_v_addr_start = bb_v_addr_start block, bi_v_addr_end = - 1 \<rparr>"
    unfolding enter(2)[symmetric] by metis
  have "ui_kernel_stack_base u = stack_base" "ui_kernel_entry u = kernel_entry"
    using r(5) by (metis uefi_info.select_convs(3), metis uefi_info.select_convs(4))
  then show ?thesis using r(1-4,6-8) enter(1) by blast
qed

end
