(* ===== verification/Boot_Range.thy ===== *)
theory Boot_Range
  imports Boot_Setup
begin

text \<open>
  The range of virtual addresses that the boot information reports as available: nothing in it is
  mapped. The kernel lies in the upper half of the address space and the bootloader hands out
  the pages behind it in order.
\<close>

section \<open>Pages of the upper half\<close>

definition upper_half :: "vaddr \<Rightarrow> bool" where
  "upper_half v \<longleftrightarrow> 0xFFFF800000000000 \<le> v"

lemma upper_half_bits: "upper_half v \<Longrightarrow> 47 \<le> n \<Longrightarrow> n < 64 \<Longrightarrow> bit v n"
proof -
  assume v: "upper_half v" and n: "47 \<le> n" "n < 64"
  have "unat v < 2 ^ 64" using unsigned_less[of v] by simp
  moreover have "0xFFFF800000000000 \<le> unat v" using v by (simp add: upper_half_def word_le_nat_alt)
  ultimately have "unat v div 2 ^ 47 = 2 ^ 17 - 1" by (intro div_nat_eqI) auto
  then have "drop_bit 47 (unat v) = mask 17" by (simp add: drop_bit_eq_div mask_eq_exp_minus_1)
  then have "bit (drop_bit 47 (unat v)) (n - 47)" using n by (simp add: bit_mask_iff)
  then show ?thesis using n by (simp add: bit_drop_bit_eq bit_unsigned_iff)
qed

lemma upper_half_canonical: "upper_half v \<Longrightarrow> canonical v"
  using upper_half_bits[of v] by (auto simp: canonical_def)

lemma same_page_bits:
  assumes "same_page u w" "12 \<le> n" "n < 48"
  shows "bit u n = bit w n"
proof -
  have idx: "bit (pt_index (vaddr_info u)) k = bit (pt_index (vaddr_info w)) k"
    "bit (pd_index (vaddr_info u)) k = bit (pd_index (vaddr_info w)) k"
    "bit (pdpt_index (vaddr_info u)) k = bit (pdpt_index (vaddr_info w)) k"
    "bit (pml4_index (vaddr_info u)) k = bit (pml4_index (vaddr_info w)) k" for k
    using assms(1) by (simp_all add: same_page_def)
  consider "n < 21" | "21 \<le> n" "n < 30" | "30 \<le> n" "n < 39" | "39 \<le> n" using assms(2,3) by linarith
  then show ?thesis
    using idx(1)[of "n - 12"] idx(2)[of "n - 21"] idx(3)[of "n - 30"] idx(4)[of "n - 39"] assms(2,3)
    by cases (simp_all add: bit_info less_diff_conv2)
qed

lemma same_page_upper:
  assumes "same_page u w" "upper_half u" "upper_half w"
  shows "unat u div 4096 = unat w div 4096"
proof -
  have "drop_bit 12 u = drop_bit 12 w"
  proof (rule bit_word_eqI)
    fix n assume "n < LENGTH(64)"
    show "bit (drop_bit 12 u) n = bit (drop_bit 12 w) n"
    proof (cases "12 + n < 48")
      case True
      then show ?thesis using same_page_bits[OF assms(1), of "12 + n"] by (simp add: bit_drop_bit_eq)
    next
      case False
      then show ?thesis using upper_half_bits[OF assms(2), of "12 + n"] upper_half_bits[OF assms(3), of "12 + n"]
        by (cases "12 + n < 64") (auto simp: bit_drop_bit_eq not_less dest: bit_imp_le_length)
    qed
  qed
  from arg_cong[OF this, of unat] show ?thesis by (simp add: unat_drop_bit_eq drop_bit_eq_div unat_div_distrib)
qed

lemma same_page_lower:
  assumes "same_page u w" "upper_half u" "unat w < 2 ^ 47"
  shows False
proof -
  have "bit w 47" using same_page_bits[OF assms(1), of 47] upper_half_bits[OF assms(2), of 47] by simp
  then have "bit (unat w) 47" by (simp add: bit_unsigned_iff)
  then have "odd (unat w div 2 ^ 47)" by (simp add: bit_iff_odd)
  then show False using assms(3) by simp
qed

section \<open>The range of the kernel\<close>

lemma virtual_range_bounds:
  assumes "virtual_range ss i lo hi = Some (Ret (lo', hi'))"
  shows "lo' \<le> lo \<and> hi \<le> hi' \<and> (\<forall>s \<in> set (drop i ss). loads s
    \<and> lo' \<le> virtual_address s \<and> unat (virtual_address s) + unat (memory_size s) \<le> unat hi')"
  using assms
proof (induction "length ss - i" arbitrary: i lo hi)
  case 0
  then show ?case by (subst (asm) virtual_range.simps) simp
next
  case (Suc d)
  then have i: "i < length ss" by simp
  then have l: "loads (ss ! i)" using virtual_range_not_loaded[OF i] Suc.prems by (cases "loads (ss ! i)") auto
  from Suc.prems obtain e where e: "checked_add (virtual_address (ss ! i)) (memory_size (ss ! i)) = Some e"
    unfolding virtual_range_loaded[OF i l] by (auto split: option.splits)
  let ?lo = "min lo (virtual_address (ss ! i))" and ?hi = "max hi e"
  have d: "drop i ss = ss ! i # drop (Suc i) ss" using i by (simp add: Cons_nth_drop_Suc)
  have step: "lo' \<le> ?lo \<and> ?hi \<le> hi' \<and> (\<forall>s \<in> set (drop (Suc i) ss). loads s
      \<and> lo' \<le> virtual_address s \<and> unat (virtual_address s) + unat (memory_size s) \<le> unat hi')"
  proof (cases "Suc i = length ss")
    case True
    then show ?thesis using Suc.prems e unfolding virtual_range_loaded[OF i l] by auto
  next
    case False
    then have "virtual_range ss (Suc i) ?lo ?hi = Some (Ret (lo', hi'))"
      using Suc.prems e unfolding virtual_range_loaded[OF i l] by auto
    moreover have "d = length ss - Suc i" using Suc.hyps(2) by simp
    ultimately show ?thesis using Suc.hyps(1) by blast
  qed
  then have "lo' \<le> lo" "lo' \<le> virtual_address (ss ! i)" "hi \<le> hi'" "unat e \<le> unat hi'"
    by (auto simp: word_le_nat_alt[of e])
  moreover have "unat (virtual_address (ss ! i)) + unat (memory_size (ss ! i)) = unat e"
    using checked_add_Some_unat[OF e] by simp
  ultimately show ?case using step l unfolding d by auto
qed

text \<open>Rounding up to a page wraps to zero or not at all.\<close>

lemma unat_next_page:
  assumes "next_multiple_of hi PAGE_SIZE \<noteq> 0"
  shows "unat (next_multiple_of hi PAGE_SIZE) = (unat hi + 4095) div 4096 * 4096"
proof (cases "unat hi + 4096 \<le> 2 ^ 64")
  case True
  then show ?thesis using unat_next_multiple_of[of PAGE_SIZE hi] by (simp add: PAGE_SIZE_def)
next
  case False
  have "unat hi < 2 ^ LENGTH(64)" by (rule unsigned_less)
  moreover define r where "r = unat hi - 18446744073709547520"
  ultimately have r: "unat hi = 18446744073709547520 + r" "0 < r" "r < 4096" using False by simp_all
  have "unat hi = r + 4096 * 4503599627370495" using r(1) by simp
  then have "unat hi mod 4096 = r" using r(3) by (simp only: mod_mult_self2 mod_less)
  then have m: "unat (hi mod PAGE_SIZE) = r" by (simp add: PAGE_SIZE_def unat_mod_distrib)
  then have "hi mod PAGE_SIZE \<noteq> 0" using r(2) by (metis less_irrefl unat_0)
  moreover have "unat (PAGE_SIZE - hi mod PAGE_SIZE) = 4096 - r"
    using m r(3) by (simp add: unat_sub word_le_nat_alt PAGE_SIZE_def)
  then have "unat (hi + (PAGE_SIZE - hi mod PAGE_SIZE)) = 0"
    using r by (simp add: unat_word_ariths)
  ultimately have "next_multiple_of hi PAGE_SIZE = 0" by (simp add: next_multiple_of_def unat_eq_zero)
  then show ?thesis using assms by simp
qed

text \<open>All segments lie between the two constants, and the second is a page boundary.\<close>

lemma kernel_virtual_addresses_bounds:
  assumes "kernel_virtual_addresses ss = Some (Ret (base, next))"
    and "next \<noteq> 0"
  shows "\<forall>s \<in> set ss. segment_type s = SegLoad \<and> base \<le> virtual_address s
      \<and> unat (virtual_address s) + unat (memory_size s) \<le> unat next"
    and "4096 dvd unat next" and "ss \<noteq> []"
proof -
  obtain hi where r: "virtual_range ss 0 (- 1) 0 = Some (Ret (base, hi))" "next = next_multiple_of hi PAGE_SIZE"
    using assms(1) by (auto simp: kernel_virtual_addresses_def exec_simps split: option.splits if_splits prod.splits)
  show ne: "ss \<noteq> []" using r(1) by (subst (asm) virtual_range.simps) auto
  have n: "unat next = (unat hi + 4095) div 4096 * 4096"
    using unat_next_page[of hi] assms(2) unfolding r(2) .
  then show "4096 dvd unat next" by simp
  have "unat hi \<le> unat next" unfolding n by linarith
  then show "\<forall>s \<in> set ss. segment_type s = SegLoad \<and> base \<le> virtual_address s
      \<and> unat (virtual_address s) + unat (memory_size s) \<le> unat next"
    using virtual_range_bounds[OF r(1)] by (fastforce simp: loads_iff)
qed

text \<open>What is known of the kernel once the bootloader has been compiled.\<close>

lemma collect_segments_aligned: "collect_segments xs = Ret ss \<Longrightarrow> s \<in> set ss \<Longrightarrow> alignment s = 4096"
  by (induction xs arbitrary: ss rule: collect_segments.induct) (auto simp: bind_exec_Ret_iff split: if_splits)

lemma compiled_bootloader_layout:
  assumes "compile_bootloader bs = Some (Ret c)" and "bc_next_v_addr c \<noteq> 0"
  shows "PAGE_SIZE dvd bc_bootinfo c" "bc_bootinfo c \<noteq> 0" "PAGE_SIZE dvd bc_virtual_base c"
    "4096 dvd unat (bc_next_v_addr c)"
    "\<And>s. s \<in> set (bc_segments c) \<Longrightarrow> segment_type s = SegLoad \<and> alignment s = 4096
       \<and> bc_virtual_base c \<le> virtual_address s
       \<and> unat (virtual_address s) + unat (memory_size s) \<le> unat (bc_next_v_addr c)"
proof -
  obtain elf where elf: "kernel_segments elf = Ret (bc_segments c)" "kernel_bootinfo_address elf = Ret (bc_bootinfo c)"
    "kernel_virtual_addresses (bc_segments c) = Some (Ret (bc_virtual_base c, bc_next_v_addr c))"
    using assms(1) by (auto simp: compile_bootloader_def bind_exec_Ret_iff split: exec.splits)
  note range = kernel_virtual_addresses_bounds[OF elf(3) assms(2)]
  show "PAGE_SIZE dvd bc_bootinfo c" "bc_bootinfo c \<noteq> 0"
    using elf(2) by (auto simp: kernel_bootinfo_address_def bind_exec_Ret_iff mod_eq_0_iff_dvd split: if_splits)
  show "PAGE_SIZE dvd bc_virtual_base c"
    using elf(3) by (auto simp: kernel_virtual_addresses_def exec_simps mod_eq_0_iff_dvd
        split: option.splits if_splits prod.splits)
  show "4096 dvd unat (bc_next_v_addr c)" by (rule range(2))
  fix s assume s: "s \<in> set (bc_segments c)"
  have "alignment s = 4096"
    using elf(1) s collect_segments_aligned
    by (auto simp: kernel_segments_def Let_def bind_exec_Ret_iff split: if_splits)
  with range(1) s show "segment_type s = SegLoad \<and> alignment s = 4096 \<and> bc_virtual_base c \<le> virtual_address s
       \<and> unat (virtual_address s) + unat (memory_size s) \<le> unat (bc_next_v_addr c)" by blast
qed

section \<open>The pages handed out\<close>

text \<open>Addresses of the upper half below a page boundary.\<close>

definition below :: "nat \<Rightarrow> vaddr \<Rightarrow> bool" where
  "below limit v \<longleftrightarrow> upper_half v \<and> unat v < limit"

lemma below_apart:
  assumes "same_page u w" "below limit w" "4096 dvd limit" "limit \<le> unat u"
  shows False
proof -
  have "upper_half u" using assms(2,4) by (auto simp: below_def upper_half_def word_le_nat_alt)
  then have eq: "unat u div 4096 = unat w div 4096" using same_page_upper assms(1,2) by (auto simp: below_def)
  obtain q where q: "limit = 4096 * q" using assms(3) by (auto elim: dvdE)
  then have "unat w div 4096 < q" using assms(2) by (simp add: below_def div_less_iff_less_mult mult.commute)
  moreover have "q \<le> unat u div 4096"
    using assms(4) q by (simp add: less_eq_div_iff_mult_less_eq mult.commute)
  ultimately show False using eq by simp
qed

lemma segment_requests_below:
  assumes "upper_half (virtual_address s)"
    and "unat (virtual_address s) + unat (memory_size s) \<le> limit"
    and "(p, v, f) \<in> set (segment_requests kernel_ptr base s)" "limit < 2 ^ 64"
  shows "below limit v"
proof -
  obtain k where k: "k < (unat (memory_size s) + 4095) div 4096" "v = virtual_address s + of_nat (4096 * k)"
    using assms(3) by (auto simp: segment_requests_def page_steps_def)
  have "4096 * Suc k \<le> unat (memory_size s) + 4095"
    using k(1) less_eq_div_iff_mult_less_eq[of 4096 "Suc k" "unat (memory_size s) + 4095"] by simp
  then have lt: "4096 * k < unat (memory_size s)" by simp
  have "unat v = unat (virtual_address s) + 4096 * k"
  proof -
    have "v = of_nat (unat (virtual_address s) + 4096 * k)" using k(2) by simp
    then show ?thesis by (rule of_nat_inverse[OF sym]) (use lt assms(2,4) in simp)
  qed
  then show ?thesis using assms(1,2) lt by (auto simp: below_def upper_half_def word_le_nat_alt)
qed

lemma next_free_page_below:
  assumes "next_free_page start p n f = (v0, stop, rs)" "upper_half start"
    and "unat start + unat n * 4096 < 2 ^ 64"
  shows "unat stop = unat start + unat n * 4096" "\<And>q v g. (q, v, g) \<in> set rs \<Longrightarrow> below (unat stop) v"
proof -
  have add: "unat (start + of_nat k * PAGE_SIZE) = unat start + k * 4096" if "k \<le> unat n" for k
    using assms(3) that by (intro unat_add_pages) linarith
  have stop: "stop = start + of_nat (unat n) * PAGE_SIZE" using assms(1) by (auto simp: next_free_page_def)
  show s: "unat stop = unat start + unat n * 4096" unfolding stop by (rule add) simp
  fix q v g assume "(q, v, g) \<in> set rs"
  then obtain k where k: "k < unat n" "v = start + of_nat k * PAGE_SIZE"
    using assms(1) by (auto simp: next_free_page_def Let_def)
  then show "below (unat stop) v"
    using add[of k] s assms(2) by (auto simp: below_def upper_half_def word_le_nat_alt)
qed

lemma below_mono: "below a v \<Longrightarrow> a \<le> b \<Longrightarrow> below b v"
  by (auto simp: below_def)

text \<open>
  C16: The range of virtual addresses that the boot information reports as available is free: when
  the kernel starts, the processor faults on every address from \<open>v_addr_start\<close> on that is not in
  the recursive slot. The kernel is linked into the upper half, the switcher runs in the lower
  half, and the address space does not end before the frame buffer does.
\<close>

theorem reported_range_is_free:
  assumes "firmware_ok taken fw" and "cr3 m = None"
    and "setup_uefi_and_exit segments virtual_base next_v_addr bootinfo_address kernel_entry fw m
      = Ret (u, block, mem, m1)"
    and "kernel_virtual_addresses segments = Some (Ret (virtual_base, next_v_addr))"
    and "upper_half virtual_base" and "next_v_addr \<noteq> 0" and "unat (fw_switcher fw) < 2 ^ 47"
    and "\<And>info. case fw_frame_buffer fw info of (fb_phys, fb_size) \<Rightarrow>
      unat next_v_addr + (8 + unat (frame_buffer_pages fb_phys fb_size)) * 4096 < 2 ^ 64"
    and "bb_v_addr_start block \<le> v" and "pml4_index (vaddr_info v) \<noteq> boot_recursion_index"
  shows "mmu_frame (frames (snd (enter_kernel u m1))) (ui_pml4_phys u) v = None"
proof -
  from setup_run[OF assms(1-3)] obtain info fb_phys fb_size kernel_ptr stack_ptr requests stack_base fb where r:
    "fw_frame_buffer fw info = (fb_phys, fb_size)"
    "boot_requests segments virtual_base next_v_addr kernel_ptr (fw_switcher fw) stack_ptr fb_phys fb_size
       = (requests, stack_base, fb, bb_v_addr_start block)"
    "\<And>v. canonical v \<Longrightarrow> pml4_index (vaddr_info v) \<noteq> boot_recursion_index \<Longrightarrow>
       mmu_frame (frames (switch_to_kernel (ui_pml4_phys u) m1)) (ui_pml4_phys u) v =
         map_option (\<lambda>(p, v, flags). p AND NODE_ADDRESS_MASK) (requested requests v)"
    by metis
  note segs = kernel_virtual_addresses_bounds[OF assms(4,6)]
  have up_seg: "upper_half (virtual_address s)" if "s \<in> set segments" for s
    using segs(1) that assms(5) by (auto simp: upper_half_def intro: order_trans)
  obtain s where "s \<in> set segments" using segs(3) by (cases segments) auto
  then have up: "upper_half next_v_addr"
    using segs(1) up_seg[of s] by (fastforce simp: upper_half_def word_le_nat_alt)
  obtain st next1 stack_map next2 fb_map where np:
    "next_free_page next_v_addr stack_ptr KERNEL_STACK_PAGES VF_WRITABLE = (st, next1, stack_map)"
    "next_free_page next1 fb_phys (frame_buffer_pages fb_phys fb_size)
       (VF_WRITABLE OR VF_WRITE_THROUGH OR VF_CACHE_DISABLED) = (fb, next2, fb_map)"
    "requests = kernel_requests kernel_ptr virtual_base segments
       @ [(fw_switcher fw, fw_switcher fw, 0)] @ stack_map @ fb_map" "bb_v_addr_start block = next2"
    using r(2) by (auto simp: boot_requests_def Let_def split: prod.splits)
  have room: "unat next_v_addr + (8 + unat (frame_buffer_pages fb_phys fb_size)) * 4096 < 2 ^ 64"
    using assms(8)[of info] r(1) by simp
  have pages: "unat KERNEL_STACK_PAGES = 8" by (simp add: KERNEL_STACK_PAGES_def)
  have fit1: "unat next_v_addr + unat KERNEL_STACK_PAGES * 4096 < 2 ^ 64" using room pages by simp
  note n1 = next_free_page_below[OF np(1) up fit1]
  have up1: "upper_half next1" using n1(1) up by (auto simp: upper_half_def word_le_nat_alt)
  have fit2: "unat next1 + unat (frame_buffer_pages fb_phys fb_size) * 4096 < 2 ^ 64"
    using room n1(1) pages by simp
  note n2 = next_free_page_below[OF np(2) up1 fit2]
  have dvd: "4096 dvd unat next2" using n1(1) n2(1) segs(2) by simp
  have le: "unat next_v_addr \<le> unat next2" "unat next1 \<le> unat next2" using n1(1) n2(1) by simp_all
  have v: "unat next2 \<le> unat v" "upper_half v"
    using assms(9) np(4) up le(1) by (auto simp: upper_half_def word_le_nat_alt)
  have "\<not> same_page v w" if w: "(p, w, f) \<in> set requests" for p w f
  proof
    assume same: "same_page v w"
    have "w = fw_switcher fw \<or> below (unat next2) w"
    proof -
      consider (seg) "(p, w, f) \<in> set (kernel_requests kernel_ptr virtual_base segments)"
        | (sw) "w = fw_switcher fw" | (st) "(p, w, f) \<in> set stack_map" | (fb) "(p, w, f) \<in> set fb_map"
        using w unfolding np(3) by auto
      then show ?thesis
      proof cases
        case seg
        then obtain s where s: "s \<in> set segments" "(p, w, f) \<in> set (segment_requests kernel_ptr virtual_base s)"
          by (auto simp: kernel_requests_def)
        have "below (unat next_v_addr) w"
        proof (rule segment_requests_below[OF up_seg[OF s(1)] _ s(2)])
          show "unat (virtual_address s) + unat (memory_size s) \<le> unat next_v_addr" using segs(1) s(1) by blast
          show "unat next_v_addr < 2 ^ 64" using room by simp
        qed
        then show ?thesis using below_mono le(1) by blast
      qed (use n1(2) n2(2) below_mono le(2) in blast)+
    qed
    then show False
      using same_page_lower[OF same v(2)] below_apart[OF same _ dvd v(1)] assms(7) by blast
  qed
  then have "requested requests v = None" by (auto simp: requested_def find_None_iff)
  then show ?thesis
    using r(3)[OF upper_half_canonical[OF v(2)] assms(10)] by (simp add: enter_kernel_def)
qed

end
