(* ===== verification/Boot_Example.thy ===== *)
theory Boot_Example
  imports Boot_Range
begin

text \<open>
  A small firmware and a kernel of one segment, on which the bootloader runs to the jump: a page
  of the kernel, the switcher, eight pages of stack and one of the frame buffer. The run is
  evaluated, so the hypotheses of the hand-over can all hold at once.
\<close>

section \<open>The firmware and the kernel\<close>

definition counting_pages :: "usize \<Rightarrow> usize \<Rightarrow> paddr option \<times> usize" where
  "counting_pages n s =
     (if s + n \<le> 0x10000000000 \<and> s \<le> s + n then (Some (push_bit 12 s), s + n) else (None, s))"

definition small_firmware :: "usize firmware" where
  "small_firmware =
     \<lparr> fw_init = True, fw_gop_handle = True, fw_gop_open = True,
       fw_modes = [\<lparr> resolution = (20, 16), mode_stride = 20, mode_pixel_format = Rgb \<rparr>],
       fw_set_mode = (\<lambda>_. True), fw_frame_buffer = (\<lambda>_. (0x80000000, 1280)),
       fw_allocate_pages = counting_pages, fw_page_bytes = (\<lambda>p n. replicate (4096 * unat n) 7),
       fw_switcher = 0x400000,
       fw_memory_map = (\<lambda>_. [\<lparr> ty = CONVENTIONAL, phys_start = 0x100000, page_count = 16 \<rparr>]) \<rparr>"

abbreviation small_kernel :: "elf_segment64 list" where
  "small_kernel \<equiv> [example_load 0xFFFFFFFF80000000 16]"

lemma small_firmware_ok: "firmware_ok counted small_firmware"
proof -
  have "fresh_allocator counted (counting_pages 1)"
  proof -
    have "counting_pages 1 = counting_alloc"
    proof (rule ext)
      fix s :: usize
      have "(s + 1 \<le> 0x10000000000 \<and> s \<le> s + 1) = (s < 0x10000000000)"
        by (auto simp: word_le_nat_alt word_less_nat_alt unat_word_ariths mod_if split: if_splits)
      then show "counting_pages 1 s = counting_alloc s" by (simp add: counting_pages_def counting_alloc_def)
    qed
    then show ?thesis using counting_alloc_fresh by simp
  qed
  moreover have "counted s \<subseteq> counted (snd (counting_pages n s))" for n s
    by (auto simp: counting_pages_def counted_def intro: order.strict_trans2)
  ultimately show ?thesis by (simp add: firmware_ok_def small_firmware_def)
qed

lemma small_source: "boot_page_table (counting_pages 1) = counting_source"
proof (rule ext)
  fix m :: "usize machine"
  have "(pool m + 1 \<le> 0x10000000000 \<and> pool m \<le> pool m + 1) = (pool m < 0x10000000000)"
    by (auto simp: word_le_nat_alt word_less_nat_alt unat_word_ariths mod_if split: if_splits)
  then show "boot_page_table (counting_pages 1) m = counting_source m"
    by (simp add: boot_page_table_def counting_pages_def counting_source_def)
qed

section \<open>Mapping into tables that exist\<close>

lemma map_existing_tables:
  assumes "vaddr_info v = \<lparr>page_offset = o', pt_index = i1, pd_index = i2, pdpt_index = i3, pml4_index = i4\<rparr>"
    "i1 < 512" "i2 < 512" "i3 < 512" "i4 < 512" "i4 \<noteq> lm_recursion_index (vb_mapper b)" "cr3 m = None"
    "lm_table (vb_mapper b) i4 = link_entry a3" "frames m a3 i3 = link_entry a2" "frames m a2 i2 = link_entry a1"
    "page_frame a3" "page_frame a2" "page_frame a1" "\<not> bit (frames m a1 i1) 0"
    "lm_page_table_ptr (vb_mapper b) = (\<lambda>p. p)"
  shows "builder_map b p v flags m
    = Ret (Inr (), b, m\<lparr> frames := (frames m)(a1 := (frames m a1)(i1 := page_entry_for flags p)) \<rparr>)"
proof -
  have "\<not> 512 \<le> i1" "\<not> 512 \<le> i2" "\<not> 512 \<le> i3" "\<not> 512 \<le> i4" using assms(2-5) by (simp_all add: not_le)
  with assms show ?thesis by (simp add: map_eval Let_def)
qed
  

section \<open>The run\<close>

lemma small_info:
  "vaddr_info 0xFFFFFFFF80000000 =
    \<lparr>page_offset = 0, pt_index = 0, pd_index = 0, pdpt_index = 510, pml4_index = 511\<rparr>"
  "vaddr_info 0xFFFFFFFF80001000 =
    \<lparr>page_offset = 0, pt_index = 1, pd_index = 0, pdpt_index = 510, pml4_index = 511\<rparr>"
  "vaddr_info 0xFFFFFFFF80002000 =
    \<lparr>page_offset = 0, pt_index = 2, pd_index = 0, pdpt_index = 510, pml4_index = 511\<rparr>"
  "vaddr_info 0xFFFFFFFF80003000 =
    \<lparr>page_offset = 0, pt_index = 3, pd_index = 0, pdpt_index = 510, pml4_index = 511\<rparr>"
  "vaddr_info 0xFFFFFFFF80004000 =
    \<lparr>page_offset = 0, pt_index = 4, pd_index = 0, pdpt_index = 510, pml4_index = 511\<rparr>"
  "vaddr_info 0xFFFFFFFF80005000 =
    \<lparr>page_offset = 0, pt_index = 5, pd_index = 0, pdpt_index = 510, pml4_index = 511\<rparr>"
  "vaddr_info 0xFFFFFFFF80006000 =
    \<lparr>page_offset = 0, pt_index = 6, pd_index = 0, pdpt_index = 510, pml4_index = 511\<rparr>"
  "vaddr_info 0xFFFFFFFF80007000 =
    \<lparr>page_offset = 0, pt_index = 7, pd_index = 0, pdpt_index = 510, pml4_index = 511\<rparr>"
  "vaddr_info 0xFFFFFFFF80008000 =
    \<lparr>page_offset = 0, pt_index = 8, pd_index = 0, pdpt_index = 510, pml4_index = 511\<rparr>"
  "vaddr_info 0xFFFFFFFF80009000 =
    \<lparr>page_offset = 0, pt_index = 9, pd_index = 0, pdpt_index = 510, pml4_index = 511\<rparr>"
  by (simp_all add: vaddr_info_def)

lemma small_frames: "page_frame 0x6000" "page_frame 0x7000"
  by (simp_all add: page_frame_def NODE_ADDRESS_MASK_def)

definition small_builder :: "(usize \<Rightarrow> entry) \<Rightarrow> usize virtual_map_builder" where
  "small_builder table = (builder_new 510 counting_source (\<lambda>p. p))
     \<lparr> vb_mapper := \<lparr> lm_table = table, lm_page_table_ptr = (\<lambda>p. p), lm_recursion_index = 510 \<rparr> \<rparr>"

definition kernel_tables :: "(usize \<Rightarrow> entry) \<Rightarrow> paddr \<Rightarrow> usize \<Rightarrow> entry" where
  "kernel_tables T = (\<lambda>_ _. 0)(0x2000 := (\<lambda>_. 0)(510 := link_entry 0x3000),
     0x3000 := (\<lambda>_. 0)(0 := link_entry 0x4000), 0x4000 := T)"

definition all_tables :: "(usize \<Rightarrow> entry) \<Rightarrow> paddr \<Rightarrow> usize \<Rightarrow> entry" where
  "all_tables T = (kernel_tables T)(0x5000 := (\<lambda>_. 0)(0 := link_entry 0x6000),
     0x6000 := (\<lambda>_. 0)(2 := link_entry 0x7000), 0x7000 := (\<lambda>_. 0)(0 := page_entry_for 0 0x400000))"

definition table1 :: "usize \<Rightarrow> entry" where "table1 = (\<lambda>_. 0)(511 := link_entry 0x2000)"
definition table2 :: "usize \<Rightarrow> entry" where
  "table2 = (\<lambda>_. 0)(511 := link_entry 0x2000, 0 := link_entry 0x5000)"

lemma small_kernel_page:
  "builder_maps (builder_new 510 counting_source (\<lambda>p. p)) [(0x1000, 0xFFFFFFFF80000000, f)]
     \<lparr> frames = (\<lambda>_ _. 0), cr3 = None, pool = 2 \<rparr>
   = Ret (small_builder table1, \<lparr> frames = kernel_tables ((\<lambda>_. 0)(0 := page_entry_for f 0x1000)), cr3 = None, pool = 5 \<rparr>)"
  by (simp add: small_builder_def table1_def kernel_tables_def small_info map_eval fun_eq_iff)

lemma small_switcher_page:
  "builder_maps (small_builder table1) [(0x400000, 0x400000, 0)] \<lparr> frames = kernel_tables T, cr3 = None, pool = 5 \<rparr>
   = Ret (small_builder table2, \<lparr> frames = all_tables T, cr3 = None, pool = 8 \<rparr>)"
  by (simp add: small_builder_def table1_def table2_def kernel_tables_def all_tables_def example_info
      small_frames map_eval fun_eq_iff)

lemma small_page:
  assumes "vaddr_info v = \<lparr>page_offset = q, pt_index = i, pd_index = 0, pdpt_index = 510, pml4_index = 511\<rparr>"
    "i < 512" "\<not> bit (T i) 0"
  shows "builder_map (small_builder table2) p v f \<lparr> frames = all_tables T, cr3 = None, pool = 16 \<rparr>
    = Ret (Inr (), small_builder table2,
        \<lparr> frames = all_tables (T(i := page_entry_for f p)), cr3 = None, pool = 16 \<rparr>)"
proof -
  have upd: "(all_tables T)(0x4000 := T(i := e)) = all_tables (T(i := e))" for e
    by (rule ext) (simp add: all_tables_def kernel_tables_def)
  have "builder_map (small_builder table2) p v f \<lparr> frames = all_tables T, cr3 = None, pool = 16 \<rparr>
    = Ret (Inr (), small_builder table2, \<lparr> frames = (all_tables T)(0x4000 := (all_tables T 0x4000)(i := page_entry_for f p)),
        cr3 = None, pool = 16 \<rparr>)"
    by (subst map_existing_tables[OF assms(1), where ?a3.0 = "0x2000" and ?a2.0 = "0x3000" and ?a1.0 = "0x4000"])
      (use assms in \<open>simp_all add: example_frames small_builder_def table2_def all_tables_def kernel_tables_def
         word_le_nat_alt\<close>)
  moreover have "all_tables T 0x4000 = T" by (simp add: all_tables_def kernel_tables_def)
  ultimately show ?thesis by (simp only: upd)
qed

lemma small_stack_pages:
  "\<exists>T. builder_maps (small_builder table2)
       (snd (snd (next_free_page 0xFFFFFFFF80001000 0x8000 KERNEL_STACK_PAGES VF_WRITABLE)))
       \<lparr> frames = all_tables ((\<lambda>_. 0)(0 := e)), cr3 = None, pool = 16 \<rparr>
     = Ret (small_builder table2, \<lparr> frames = all_tables T, cr3 = None, pool = 16 \<rparr>) \<and> T 9 = 0"
  by (simp add: next_free_page_def KERNEL_STACK_PAGES_def PAGE_SIZE_def upt_rec small_page small_info)
    (rule exI, rule conjI, rule refl, simp)

lemma small_fb_page:
  "T 9 = 0 \<Longrightarrow> \<exists>T'. builder_maps (small_builder table2) (snd (snd (next_free_page 0xFFFFFFFF80009000 0x80000000 1 f)))
       \<lparr> frames = all_tables T, cr3 = None, pool = 16 \<rparr>
     = Ret (small_builder table2, \<lparr> frames = all_tables T', cr3 = None, pool = 16 \<rparr>)"
  by (auto simp: next_free_page_def PAGE_SIZE_def small_page small_info)

lemma small_finish:
  "\<exists>c mp m'. builder_finish (small_builder table2) \<lparr> frames = F, cr3 = None, pool = 16 \<rparr> = Ret (Inr (c, mp), m')"
  by (simp add: builder_finish_def Let_def store_table_def map_eval small_builder_def table2_def page_frame_def
      NODE_ADDRESS_MASK_def)

lemma small_fb_pages: "frame_buffer_pages 0x80000000 1280 = 1"
  by (simp add: frame_buffer_pages_def next_multiple_of_def PAGE_SIZE_def Let_def)

lemma small_segment:
  "place_segments 0x1000 0xFFFFFFFF80000000 small_kernel (replicate 4096 7)
     (builder_new 510 counting_source (\<lambda>p. p)) \<lparr> frames = (\<lambda>_ _. 0), cr3 = None, pool = 2 \<rparr>
   = Ret (1 # 7 # replicate 15 0 @ replicate 4079 7, small_builder table1,
       \<lparr> frames = kernel_tables ((\<lambda>_. 0)(0 := page_entry_for (VF_GLOBAL OR VF_WRITABLE) 0x1000)), cr3 = None, pool = 5 \<rparr>)"
proof -
  have req: "segment_requests 0x1000 0xFFFFFFFF80000000 (example_load 0xFFFFFFFF80000000 16)
      = [(0x1000, 0xFFFFFFFF80000000, VF_GLOBAL OR VF_WRITABLE)]"
    by (simp add: segment_requests_def page_steps_def example_load_def contains_def WRITABLE_def)
  have load: "load_segment 0xFFFFFFFF80000000 (example_load 0xFFFFFFFF80000000 16) (replicate 4096 7)
      = Ret (1 # 7 # replicate 15 0 @ replicate 4079 7)"
    by (simp add: load_segment_def write_range_def example_load_def Let_def)
  have "segment_type_eq (segment_type (example_load 0xFFFFFFFF80000000 16)) SegLoad" by (simp add: example_load_def)
  then show ?thesis by (simp only: place_segments.simps req load bind_exec.simps small_kernel_page prod.case if_False not_True_eq_False)
qed

abbreviation small_machine :: "usize machine" where
  "small_machine \<equiv> \<lparr> frames = (\<lambda>_ _. 0), cr3 = None, pool = 1 \<rparr>"

lemma small_setup:
  obtains u block mem m1 where
    "setup_uefi_and_exit small_kernel 0xFFFFFFFF80000000 0xFFFFFFFF80001000 0xFFFFFFFF80000000 0xFFFFFFFF80000000
       small_firmware small_machine = Ret (u, block, mem, m1)"
    "bb_graphics_info block = boot_graphics_info \<lparr> resolution = (20, 16), mode_stride = 20, mode_pixel_format = Rgb \<rparr>
       0xFFFFFFFF80009000 1280"
    "bb_v_addr_start block = 0xFFFFFFFF8000A000"
proof -
  let ?mode = "\<lparr> resolution = (20, 16), mode_stride = 20, mode_pixel_format = Rgb \<rparr>"
  let ?e = "page_entry_for (VF_GLOBAL OR VF_WRITABLE) 0x1000"
  let ?f = "VF_WRITABLE OR VF_WRITE_THROUGH OR VF_CACHE_DISABLED"
  obtain T where T: "builder_maps (small_builder table2)
      (snd (snd (next_free_page 0xFFFFFFFF80001000 0x8000 KERNEL_STACK_PAGES VF_WRITABLE)))
      \<lparr> frames = all_tables ((\<lambda>_. 0)(0 := ?e)), cr3 = None, pool = 16 \<rparr>
      = Ret (small_builder table2, \<lparr> frames = all_tables T, cr3 = None, pool = 16 \<rparr>)" "T 9 = 0"
    using small_stack_pages by blast
  obtain T' where T': "builder_maps (small_builder table2) (snd (snd (next_free_page 0xFFFFFFFF80009000 0x80000000 1 ?f)))
      \<lparr> frames = all_tables T, cr3 = None, pool = 16 \<rparr>
      = Ret (small_builder table2, \<lparr> frames = all_tables T', cr3 = None, pool = 16 \<rparr>)"
    using small_fb_page[of T ?f, OF T(2)] by blast
  obtain c mp m' where fin: "builder_finish (small_builder table2)
      \<lparr> frames = all_tables T', cr3 = None, pool = 16 \<rparr> = Ret (Inr (c, mp), m')"
    using small_finish by blast
  have info: "choose_mode (fw_modes small_firmware) = Ret ?mode" by (simp add: small_firmware_def choose_mode_def)
  have pages: "(0xFFFFFFFF80001000 - 0xFFFFFFFF80000000) div PAGE_SIZE = 1" by (simp add: PAGE_SIZE_def)
  have b0: "builder_new boot_recursion_index (boot_page_table (fw_allocate_pages small_firmware 1)) (\<lambda>p. p)
      = builder_new 510 counting_source (\<lambda>p. p)"
    by (simp add: small_firmware_def small_source boot_recursion_index_def)
  have take1: "take_pages small_firmware 1 small_machine = Ret (0x1000, \<lparr> frames = (\<lambda>_ _. 0), cr3 = None, pool = 2 \<rparr>)"
    by (simp add: take_pages_def small_firmware_def counting_pages_def)
  have take2: "take_pages small_firmware KERNEL_STACK_PAGES \<lparr> frames = F, cr3 = None, pool = 8 \<rparr>
      = Ret (0x8000, \<lparr> frames = F, cr3 = None, pool = 16 \<rparr>)" for F
    by (simp add: take_pages_def small_firmware_def counting_pages_def KERNEL_STACK_PAGES_def)
  have fw: "fw_switcher small_firmware = 0x400000" "fw_init small_firmware"
    "fw_gop_handle small_firmware" "fw_gop_open small_firmware"
    "fw_set_mode small_firmware i" "fw_frame_buffer small_firmware i = (0x80000000, 1280)"
    "fw_page_bytes small_firmware q 1 = replicate 4096 7" for i q
    by (simp_all add: small_firmware_def)
  have next1: "next_free_page 0xFFFFFFFF80001000 q KERNEL_STACK_PAGES VF_WRITABLE
      = (0xFFFFFFFF80001000, 0xFFFFFFFF80009000,
         snd (snd (next_free_page 0xFFFFFFFF80001000 q KERNEL_STACK_PAGES VF_WRITABLE)))" for q
    by (simp add: next_free_page_def KERNEL_STACK_PAGES_def PAGE_SIZE_def)
  have next2: "next_free_page 0xFFFFFFFF80009000 0x80000000 1 ?f
      = (0xFFFFFFFF80009000, 0xFFFFFFFF8000A000, snd (snd (next_free_page 0xFFFFFFFF80009000 0x80000000 1 ?f)))"
    by (simp add: next_free_page_def PAGE_SIZE_def)
  have al: "(0x400000 :: usize) mod PAGE_SIZE = 0" by (simp add: PAGE_SIZE_def)
  have room: "\<not> length (1 # 7 # replicate 15 0 @ replicate 4079 (7 :: u8))
      < unat (0xFFFFFFFF80000000 - 0xFFFFFFFF80000000 :: usize) + size_of_boot_info"
    by (simp add: size_of_boot_info_def)
  have written: "bb_graphics_info (write_regions rs b) = bb_graphics_info b"
    "bb_v_addr_start (write_regions rs b) = bb_v_addr_start b" for rs b
    by (simp_all add: write_regions_def)
  show thesis
    by (rule that, unfold setup_uefi_and_exit_def Let_def info bind_exec.simps fw(1,6,7) pages b0 take1 prod.case
        small_segment small_switcher_page take2, subst next1,
        simp only: prod.case T(1) bind_exec.simps small_fb_pages, subst next2,
        simp only: prod.case T' bind_exec.simps fin sum.case room al if_False if_True fw(2-5) simp_thms,
        simp_all add: written)
qed

section \<open>The properties at work\<close>

theorem bootloader_hands_over_witness:
  "\<exists>u block mem m1. setup_uefi_and_exit small_kernel 0xFFFFFFFF80000000 0xFFFFFFFF80001000 0xFFFFFFFF80000000
       0xFFFFFFFF80000000 small_firmware small_machine = Ret (u, block, mem, m1)
     \<and> kernel_inv counted (bb_virtual_map block) (snd (enter_kernel u m1))
     \<and> jump_rip (fst (enter_kernel u m1)) = 0xFFFFFFFF80000000
     \<and> (\<exists>b. kernel_boot_info block = Ret b \<and> bi_memory_regions b = memory_regions (ui_memory_map u))"
proof -
  obtain u block mem m1 where run: "setup_uefi_and_exit small_kernel 0xFFFFFFFF80000000 0xFFFFFFFF80001000
      0xFFFFFFFF80000000 0xFFFFFFFF80000000 small_firmware small_machine = Ret (u, block, mem, m1)"
    by (rule small_setup)
  obtain j m2 where enter: "enter_kernel u m1 = (j, m2)" by (cases "enter_kernel u m1")
  from bootloader_hands_over[OF small_firmware_ok _ run enter] have
    "jump_rip j = 0xFFFFFFFF80000000 \<and> kernel_inv counted (bb_virtual_map block) m2
     \<and> (\<exists>b. kernel_boot_info block = Ret b \<and> bi_memory_regions b = memory_regions (ui_memory_map u))"
    by auto
  with run enter show ?thesis by auto
qed

lemma small_kernel_range:
  "kernel_virtual_addresses small_kernel = Some (Ret (0xFFFFFFFF80000000, 0xFFFFFFFF80001000))"
  using kernel_virtual_addresses_spec [of small_kernel]
  by (simp add: example_load_def PAGE_SIZE_def next_multiple_of_def)

theorem reported_range_is_free_witness:
  "\<exists>u block mem m1. setup_uefi_and_exit small_kernel 0xFFFFFFFF80000000 0xFFFFFFFF80001000 0xFFFFFFFF80000000
       0xFFFFFFFF80000000 small_firmware small_machine = Ret (u, block, mem, m1)
     \<and> bb_v_addr_start block = 0xFFFFFFFF8000A000
     \<and> mmu_frame (frames (snd (enter_kernel u m1))) (ui_pml4_phys u) 0xFFFFFFFF8000A000 = None"
proof -
  obtain u block mem m1 where run: "setup_uefi_and_exit small_kernel 0xFFFFFFFF80000000 0xFFFFFFFF80001000
      0xFFFFFFFF80000000 0xFFFFFFFF80000000 small_firmware small_machine = Ret (u, block, mem, m1)"
    and start: "bb_v_addr_start block = 0xFFFFFFFF8000A000"
    by (rule small_setup)
  have "mmu_frame (frames (snd (enter_kernel u m1))) (ui_pml4_phys u) 0xFFFFFFFF8000A000 = None"
    by (rule reported_range_is_free[OF small_firmware_ok _ run small_kernel_range])
      (simp_all add: start upper_half_def small_firmware_def small_fb_pages vaddr_info_def boot_recursion_index_def)
  with run start show ?thesis by blast
qed

end
