(* ===== verification/Platform.thy ===== *)
theory Platform
  imports Helpers Thread_Local Racy_Init
begin

text \<open>
  What the port of the standard library offers of files, sockets, pipes, thread-local keys and the
  allocator (\<open>std/sys-src/fs/mod.rs\<close>, \<open>net/connection/mod.rs\<close>, \<open>pipe/mod.rs\<close>,
  \<open>thread_local/key/racy.rs\<close>, \<open>alloc/mod.rs\<close>): nearly all of it is \<open>unimplemented!()\<close>. The values
  that such a call would return have never types, which a type variable stands for; the methods
  of the never types cannot be called. The public functions of \<open>fs\<close> are written over the
  platform's as in the source.
\<close>

section \<open>Unimplemented\<close>

type_synonym 'a io_result = "io_error + 'a"

definition unimplemented :: "'a exec" where "unimplemented = Panic ''not implemented''"

definition unimplemented_with :: "string \<Rightarrow> 'a exec" where
  "unimplemented_with msg = Panic (''not implemented: '' @ msg)"

section \<open>Files\<close>

datatype file_times = FileTimes
datatype open_options = OpenOptions
datatype dir_builder = DirBuilder

text \<open>The settings have no fields, so setting them changes nothing.\<close>

definition set_accessed :: "'time \<Rightarrow> file_times \<Rightarrow> file_times" where "set_accessed t f = f"
definition set_modified :: "'time \<Rightarrow> file_times \<Rightarrow> file_times" where "set_modified t f = f"

datatype open_option =
    Read_Option | Write_Option | Append_Option | Truncate_Option | Create_Option | Create_New_Option

definition set_option :: "open_option \<Rightarrow> bool \<Rightarrow> open_options \<Rightarrow> open_options" where
  "set_option which value opts = opts"

definition file_open :: "'path \<Rightarrow> open_options \<Rightarrow> 'file io_result exec" where
  "file_open path opts = unimplemented"

definition mkdir :: "dir_builder \<Rightarrow> 'path \<Rightarrow> unit io_result exec" where
  "mkdir b p = unimplemented"

definition with_native_path :: "'path \<Rightarrow> ('path \<Rightarrow> 'a io_result exec) \<Rightarrow> 'a io_result exec" where
  "with_native_path path f = f path"

definition imp_readdir :: "'path \<Rightarrow> 'dir io_result exec" where
  "imp_readdir p = unimplemented"

definition imp_unlink :: "'path \<Rightarrow> unit io_result exec" where
  "imp_unlink p = unimplemented"

definition imp_rename :: "'path \<Rightarrow> 'path \<Rightarrow> unit io_result exec" where
  "imp_rename p q = unimplemented"

definition imp_set_times :: "'path \<Rightarrow> file_times \<Rightarrow> unit io_result exec" where
  "imp_set_times p q = unimplemented"

definition imp_set_times_nofollow :: "'path \<Rightarrow> file_times \<Rightarrow> unit io_result exec" where
  "imp_set_times_nofollow p q = unimplemented"

definition imp_rmdir :: "'path \<Rightarrow> unit io_result exec" where
  "imp_rmdir p = unimplemented"

definition imp_remove_dir_all :: "'path \<Rightarrow> unit io_result exec" where
  "imp_remove_dir_all p = unimplemented"

definition imp_exists :: "'path \<Rightarrow> bool io_result exec" where
  "imp_exists p = unimplemented"

definition imp_readlink :: "'path \<Rightarrow> 'path io_result exec" where
  "imp_readlink p = unimplemented"

definition imp_symlink :: "'path \<Rightarrow> 'path \<Rightarrow> unit io_result exec" where
  "imp_symlink p q = unimplemented"

definition imp_link :: "'path \<Rightarrow> 'path \<Rightarrow> unit io_result exec" where
  "imp_link p q = unimplemented"

definition imp_stat :: "'path \<Rightarrow> 'attr io_result exec" where
  "imp_stat p = unimplemented"

definition imp_lstat :: "'path \<Rightarrow> 'attr io_result exec" where
  "imp_lstat p = unimplemented"

definition imp_canonicalize :: "'path \<Rightarrow> 'path io_result exec" where
  "imp_canonicalize p = unimplemented"

definition imp_copy :: "'path \<Rightarrow> 'path \<Rightarrow> u64 io_result exec" where
  "imp_copy p q = unimplemented"

definition std_read_dir :: "'path \<Rightarrow> 'dir io_result exec" where
  "std_read_dir p = imp_readdir p"

definition std_remove_file :: "'path \<Rightarrow> unit io_result exec" where
  "std_remove_file p = with_native_path p imp_unlink"

definition std_rename :: "'path \<Rightarrow> 'path \<Rightarrow> unit io_result exec" where
  "std_rename old new =
     with_native_path old (\<lambda>old. with_native_path new (\<lambda>new. imp_rename old new))"

definition std_remove_dir :: "'path \<Rightarrow> unit io_result exec" where
  "std_remove_dir p = with_native_path p imp_rmdir"

definition std_remove_dir_all :: "'path \<Rightarrow> unit io_result exec" where
  "std_remove_dir_all p = imp_remove_dir_all p"

definition std_read_link :: "'path \<Rightarrow> 'path io_result exec" where
  "std_read_link p = with_native_path p imp_readlink"

definition std_symlink :: "'path \<Rightarrow> 'path \<Rightarrow> unit io_result exec" where
  "std_symlink original link =
     with_native_path original (\<lambda>original. with_native_path link (\<lambda>link. imp_symlink original link))"

definition std_hard_link :: "'path \<Rightarrow> 'path \<Rightarrow> unit io_result exec" where
  "std_hard_link original link =
     with_native_path original (\<lambda>original. with_native_path link (\<lambda>link. imp_link original link))"

definition std_metadata :: "'path \<Rightarrow> 'attr io_result exec" where
  "std_metadata p = with_native_path p imp_stat"

definition std_symlink_metadata :: "'path \<Rightarrow> 'attr io_result exec" where
  "std_symlink_metadata p = with_native_path p imp_lstat"

definition std_canonicalize :: "'path \<Rightarrow> 'path io_result exec" where
  "std_canonicalize p = with_native_path p imp_canonicalize"

definition std_copy :: "'path \<Rightarrow> 'path \<Rightarrow> u64 io_result exec" where
  "std_copy src dst = imp_copy src dst"

definition std_exists :: "'path \<Rightarrow> bool io_result exec" where
  "std_exists p = imp_exists p"

definition std_set_times :: "'path \<Rightarrow> file_times \<Rightarrow> unit io_result exec" where
  "std_set_times p ts = with_native_path p (\<lambda>p. imp_set_times p ts)"

definition std_set_times_nofollow :: "'path \<Rightarrow> file_times \<Rightarrow> unit io_result exec" where
  "std_set_times_nofollow p ts = with_native_path p (\<lambda>p. imp_set_times_nofollow p ts)"

definition std_set_permissions_nofollow :: "'path \<Rightarrow> 'perm \<Rightarrow> unit io_result exec" where
  "std_set_permissions_nofollow path perm =
     unimplemented_with ''`set_permissions_nofollow` is currently only implemented on Unix platforms''"

section \<open>Sockets, pipes, keys, memory\<close>

definition tcp_connect :: "'addr \<Rightarrow> 'stream io_result exec" where "tcp_connect a = unimplemented"

definition tcp_connect_timeout :: "'addr \<Rightarrow> 'duration \<Rightarrow> 'stream io_result exec" where
  "tcp_connect_timeout a d = unimplemented"

definition tcp_bind :: "'addr \<Rightarrow> 'listener io_result exec" where "tcp_bind a = unimplemented"
definition udp_bind :: "'addr \<Rightarrow> 'socket io_result exec" where "udp_bind a = unimplemented"

definition UNSUPPORTED_PLATFORM :: io_error where
  "UNSUPPORTED_PLATFORM =
     \<lparr> io_kind = OtherError ''Unsupported'', io_message = ''operation not supported on this platform'' \<rparr>"

definition pipe :: "('pipe \<times> 'pipe) io_result exec" where "pipe = Ret (Inl UNSUPPORTED_PLATFORM)"

definition hostname :: "'name io_result" where "hostname = Inl UNSUPPORTED_PLATFORM"

definition tls_key_create :: "'dtor option \<Rightarrow> usize exec" where
  "tls_key_create dtor =
     bind_exec (unimplemented_with ''libc::pthread_key_create(&mut key, mem::transmute(dtor)) != 0'')
       (\<lambda>failed. if failed then Panic ''out of TLS keys'' else Ret 0)"

definition tls_key_set :: "usize \<Rightarrow> usize \<Rightarrow> unit exec" where
  "tls_key_set key v = unimplemented_with ''libc::pthread_setspecific(key, value as *mut _)''"

definition tls_key_destroy :: "usize \<Rightarrow> unit exec" where
  "tls_key_destroy key = unimplemented_with ''libc::pthread_key_delete(key)''"

definition system_alloc :: "'layout \<Rightarrow> usize exec" where "system_alloc layout = unimplemented"
definition system_dealloc :: "usize \<Rightarrow> 'layout \<Rightarrow> unit exec" where "system_dealloc p layout = unimplemented"

section \<open>Threads\<close>

definition UNKNOWN_THREAD_COUNT :: io_error where
  "UNKNOWN_THREAD_COUNT =
     \<lparr> io_kind = NotFound, io_message = ''The number of hardware threads is not known for the target platform.'' \<rparr>"

definition thread_new :: "usize \<Rightarrow> 'init \<Rightarrow> 'thread io_result" where
  "thread_new stack init = Inl UNSUPPORTED_PLATFORM"

definition available_parallelism :: "usize io_result" where "available_parallelism = Inl UNKNOWN_THREAD_COUNT"
definition current_os_id :: "u64 option" where "current_os_id = None"

section \<open>What a program sees\<close>

lemma fs_not_implemented:
  "std_read_dir p = Panic ''not implemented''"
  "std_remove_file p = Panic ''not implemented''"
  "std_rename old new = Panic ''not implemented''"
  "std_remove_dir p = Panic ''not implemented''"
  "std_remove_dir_all p = Panic ''not implemented''"
  "std_read_link p = Panic ''not implemented''"
  "std_symlink original link = Panic ''not implemented''"
  "std_hard_link original link = Panic ''not implemented''"
  "std_metadata p = Panic ''not implemented''"
  "std_symlink_metadata p = Panic ''not implemented''"
  "std_canonicalize p = Panic ''not implemented''"
  "std_copy src dst = Panic ''not implemented''"
  "std_exists p = Panic ''not implemented''"
  "std_set_times p ts = Panic ''not implemented''"
  "std_set_times_nofollow p ts = Panic ''not implemented''"
  by (simp_all add: unimplemented_def with_native_path_def
    imp_readdir_def imp_unlink_def imp_rename_def imp_set_times_def imp_set_times_nofollow_def
    imp_rmdir_def imp_remove_dir_all_def imp_exists_def imp_readlink_def imp_symlink_def
    imp_link_def imp_stat_def imp_lstat_def imp_canonicalize_def imp_copy_def
    std_read_dir_def std_remove_file_def std_rename_def std_remove_dir_def
    std_remove_dir_all_def std_read_link_def std_symlink_def std_hard_link_def std_metadata_def
    std_symlink_metadata_def std_canonicalize_def std_copy_def std_exists_def std_set_times_def
    std_set_times_nofollow_def)

text \<open>A thread-local key is never created, not even the sentinel.\<close>

lemma tls_key_create_panics: "\<not> is_ret (tls_key_create dtor)"
  by (simp add: tls_key_create_def unimplemented_with_def)

text \<open>So no key is ever forced here, and the clean-up guard cannot be enabled.\<close>

definition platform_force :: "'dtor option \<Rightarrow> usize \<Rightarrow> (usize \<times> usize) exec" where
  "platform_force dtor cell =
     bind_exec
       (lazy_key_force (\<lambda>_. bind_exec (tls_key_create dtor) (\<lambda>key. Ret (key, ())))
          (\<lambda>key _. bind_exec (tls_key_destroy key) Ret) cell ())
       (\<lambda>(key, cell', _). Ret (key, cell'))"

lemma platform_force_panics:
  "platform_force dtor KEY_SENTVAL
     = Panic ''not implemented: libc::pthread_key_create(&mut key, mem::transmute(dtor)) != 0''"
  by (simp add: platform_force_def lazy_key_force_def tls_key_create_def unimplemented_with_def)

lemma guard_enable_panics:
  assumes "tk_force ks = platform_force dtor"
  shows "\<not> is_ret (guard_enable ks KEY_SENTVAL)"
  using assms by (simp add: guard_enable_def guard_set_def platform_force_panics)

section \<open>Constants and ends of the process\<close>

definition min_align_4 :: "(string \<times> string) list" where
  "min_align_4 = [(''riscv32'', ''espidf''), (''riscv32'', ''zkvm''), (''xtensa'', ''espidf'')]"

definition min_align_8 :: "string list" where
  "min_align_8 =
     [''x86'', ''arm'', ''m68k'', ''csky'', ''loongarch32'', ''mips'', ''mips32r6'', ''powerpc'',
      ''powerpc64'', ''sparc'', ''wasm32'', ''hexagon'', ''riscv32'', ''xtensa'']"

definition min_align_16 :: "string list" where
  "min_align_16 =
     [''x86_64'', ''aarch64'', ''arm64ec'', ''loongarch64'', ''mips64'', ''mips64r6'', ''s390x'',
      ''sparc64'', ''riscv64'', ''wasm64'']"

text \<open>\<open>MIN_ALIGN\<close>, computed when the library is compiled for an architecture and a system.\<close>

definition MIN_ALIGN :: "string \<Rightarrow> string \<Rightarrow> usize exec" where
  "MIN_ALIGN arch os =
     (if (arch, os) \<in> set min_align_4 then Ret 4
      else if arch \<in> set min_align_8 then Ret 8
      else if arch \<in> set min_align_16 then Ret 16
      else Panic ''add a value for MIN_ALIGN'')"

definition OS_FAMILY :: string where "OS_FAMILY = ''''"
definition OS_NAME :: string where "OS_NAME = ''elpytios''"
definition DLL_PREFIX :: string where "DLL_PREFIX = ''lib''"
definition DLL_SUFFIX :: string where "DLL_SUFFIX = ''.so''"
definition DLL_EXTENSION :: string where "DLL_EXTENSION = ''so''"
definition EXE_SUFFIX :: string where "EXE_SUFFIX = ''''"
definition EXE_EXTENSION :: string where "EXE_EXTENSION = ''''"

text \<open>Every way to end the process is an abort; the hooks around \<open>main\<close> do nothing.\<close>

definition process_exit :: "32 word \<Rightarrow> 'a run" where "process_exit code = Abort ''abort''"
definition abort_internal :: "'a run" where "abort_internal = Abort ''abort''"
definition rust_eh_personality :: "'a run" where "rust_eh_personality = Abort ''abort''"
definition unique_thread_exit :: "'w \<Rightarrow> 'w" where "unique_thread_exit w = w"
definition runtime_init :: "isize \<Rightarrow> usize \<Rightarrow> u8 \<Rightarrow> 'w \<Rightarrow> 'w" where "runtime_init argc argv sigpipe w = w"
definition runtime_cleanup :: "'w \<Rightarrow> 'w" where "runtime_cleanup w = w"

lemma min_align_of_this_target: "MIN_ALIGN ''x86_64'' OS_NAME = Ret 16"
  by (simp add: MIN_ALIGN_def min_align_4_def min_align_8_def min_align_16_def)

lemma dll_names_agree: "DLL_SUFFIX = ''.'' @ DLL_EXTENSION"
  by (simp add: DLL_SUFFIX_def DLL_EXTENSION_def)

end
