(* ===== verification/Command_Wrapper.thy ===== *)
theory Command_Wrapper
  imports Process_Env
begin

text \<open>
  The program that stands for a script (\<open>command-wrapper.rs\<close>): it runs the interpreter \<open>py\<close> on the
  file next to it, with its own arguments, and ends with the code of that process. The calls of
  the host system are arguments: the canonical path without its extension, the arguments, and how
  the process ended.
\<close>

section \<open>The command\<close>

definition py_name :: os_string where "py_name = [112, 121]"

definition wrapper_command :: "os_string \<Rightarrow> os_string list \<Rightarrow> 'file command" where
  "wrapper_command file args_os =
     fold command_arg (drop 1 args_os) (command_arg file (command_new py_name))"

section \<open>The exit code\<close>

text \<open>How a process ended on the host: with a code, or, on Unix, by a signal.\<close>

record host_status =
  status_code :: "(32 word) option"
  status_signal :: "(32 word) option"

definition wrapper_code :: "bool \<Rightarrow> host_status \<Rightarrow> 32 word" where
  "wrapper_code unix st =
     (case status_code st of
        Some code \<Rightarrow> code
      | None \<Rightarrow>
          if unix
          then (case status_signal st of Some signal \<Rightarrow> 128 + signal | None \<Rightarrow> - 1)
          else - 1)"

section \<open>The program\<close>

text \<open>
  \<open>main\<close>: the path of the program, its canonical form and the process that is started may all
  fail, which panics.
\<close>

record host =
  h_current_exe :: "string + os_string"
  h_canonicalize :: "os_string \<Rightarrow> string + os_string"
  h_without_extension :: "os_string \<Rightarrow> os_string"
  h_args_os :: "os_string list"
  h_status :: "unit command \<Rightarrow> string + host_status"

definition expect_ok :: "string \<Rightarrow> string + 'a \<Rightarrow> 'a exec" where
  "expect_ok msg r = (case r of Inl e \<Rightarrow> Panic (msg @ '': '' @ e) | Inr x \<Rightarrow> Ret x)"

definition wrapper_main :: "bool \<Rightarrow> host \<Rightarrow> (32 word) exec" where
  "wrapper_main unix h =
     bind_exec (expect_ok ''Couldn't get `current_exe()`'' (h_current_exe h)) (\<lambda>exe.
     bind_exec (expect_ok ''Couldn't canonicalize exe path'' (h_canonicalize h exe)) (\<lambda>path.
     bind_exec (expect_ok ''Couldn't spawn command process''
                  (h_status h (wrapper_command (h_without_extension h path) (h_args_os h)))) (\<lambda>status.
       Ret (wrapper_code unix status))))"

section \<open>What it does\<close>

text \<open>The interpreter is given the file and then every argument but the program's own name.\<close>

lemma wrapper_command_args:
  "get_program (wrapper_command file args_os) = py_name"
  "get_args (wrapper_command file args_os) = file # drop 1 args_os"
  "is_unchanged (command_environment (wrapper_command file args_os))"
proof -
  have same: "program (fold command_arg xs c) = program c"
    "command_environment (fold command_arg xs c) = command_environment c"
    for xs and c :: "'file command"
    by (induction xs arbitrary: c) (simp_all add: command_arg_def)
  have start: "program (command_arg file (command_new py_name)) = py_name"
    "is_unchanged (command_environment (command_arg file (command_new py_name)))"
    by (simp_all add: command_arg_def command_new_def command_env_default_def is_unchanged_def)
  show "get_program (wrapper_command file args_os) = py_name"
    "is_unchanged (command_environment (wrapper_command file args_os))"
    by (simp_all add: wrapper_command_def get_program_def same start)
  show "get_args (wrapper_command file args_os) = file # drop 1 args_os"
    using get_args_added(1)[of "file # drop 1 args_os" py_name] by (simp add: wrapper_command_def)
qed

text \<open>A process that ended with a code passes it on.\<close>

lemma wrapper_main_passes_code:
  assumes "h_current_exe h = Inr exe" and "h_canonicalize h exe = Inr path"
    and "h_status h (wrapper_command (h_without_extension h path) (h_args_os h)) = Inr st"
  shows "wrapper_main unix h = Ret (wrapper_code unix st)"
    and "status_code st = Some code \<Longrightarrow> wrapper_main unix h = Ret code"
  using assms by (simp_all add: wrapper_main_def expect_ok_def wrapper_code_def)

end
