(* ===== verification/Spec2Isabelle.thy ===== *)
theory Spec2Isabelle
  imports Elf_Image Map_Properties Boot_Correct Boot_Memory Display_Correct Sync_Once Thread_Local
    Racy_Init Dwarf_Eh Process_Env Fs_Common Backtrace Std_Thread Std_Io Abi Kernel_Main Page_Alloc
    Boot_Example Platform Command_Wrapper
begin

text \<open>
  A verification library for elpytios, an operating system for x86-64 in Rust.

  \<^bold>\<open>The program.\<close> The bootloader (\<open>bootloader/src/main.rs\<close>) embeds the kernel binary and reads it
  at compile time with the ELF loader (\<open>elf/src\<close>). It chooses a display mode, allocates and fills
  the pages of the kernel, maps them with the virtual map of \<open>bootinfo/src/vaddr\<close>, groups the
  firmware's memory map into regions, writes both into the \<open>BootInfo\<close> of the kernel
  (\<open>bootinfo/src/lib.rs\<close>) and jumps to it. The kernel (\<open>kernel/src\<close>) finds its page tables through
  the recursive entry the bootloader installed, and writes text to the frame buffer it was handed.
  User programs are linked against a port of the standard library (\<open>std/sys-src\<close>) and call the
  kernel through the stubs that a derive macro generates (\<open>abi\<close>).

  \<^bold>\<open>Conventions\<close> (\<open>Prelude\<close>). Integers of the source are words of their width, and their arithmetic
  wraps, as in the release profile the program is built with; where the compile-time evaluation of
  a constant would reject an overflow, the model panics. Code that can panic or be undefined
  returns an \<open>exec\<close>: \<open>Ret\<close>, \<open>Panic\<close> or \<open>Undefined\<close>. A \<open>Result\<close> is a sum with the error on the
  left. State is a record that is passed and returned. Loops are structural recursion or \<open>function\<close>
  with a measure; loops that may run for ever are \<open>partial_function (option)\<close>, and their
  termination is proved as the existence of a result.

  \<^bold>\<open>The ELF loader.\<close> \<open>Elf_Sys\<close> has the on-disk structures of \<open>elf/src/sys\<close> with their layouts,
  \<open>Elf_File\<close> the \<open>Reader\<close>, \<open>Elf::from_bytes\<close> and the program and section tables of
  \<open>elf/src/lib.rs\<close>, \<open>Elf_Tables\<close> the iterator contract (a locale interpreted on both iterators),
  \<open>Elf_Correct\<close> what is accepted and every error in order of precedence, \<open>Elf_Image\<close> a writer and
  the proof that the loader reads back what it writes, each segment and section as its entry
  describes it.

  \<^bold>\<open>Page tables and the virtual map.\<close> \<open>Page_Entries\<close> has the entries of
  \<open>bootinfo/src/vaddr/x86_64/phys.rs\<close> (locale \<open>address_entry\<close>, interpreted for table and page
  entries), \<open>Virt_Addr\<close> and \<open>Virt_Map\<close> the addresses, the builder, the two mappers and
  \<open>VirtualMap::map\<close> of \<open>virt.rs\<close>. Physical memory is a function from frames to tables, and a mapper
  is a record of the operations it offers, as the Rust trait is. \<open>mmu_frame\<close> is the walk of the
  processor, written from its manuals with their indices and masks and not from the accessors of the
  code. \<open>Page_Tree\<close> is the abstract specification: a walk over a tree of tables and the translation
  it stands for.
  \<open>Map_Laws\<close> states the contract between \<open>map\<close> and a mapper as the locale \<open>mapper_laws\<close> and proves
  \<open>map\<close> once inside it; \<open>Map_Correct\<close> interprets it for the bootloader's and the kernel's mapper;
  \<open>Map_Properties\<close> draws the properties: outcome, frame condition and errors of \<open>map\<close>, the hand-over
  by \<open>finish\<close>, and what the processor sees before and after a call of the kernel's map. An error
  for want of a page table is justified only when a table of the path is missing and the source, in
  a state its own answers led to (\<open>supplied\<close>), has just refused one.

  \<^bold>\<open>The bootloader.\<close> \<open>Boot_Kernel\<close> has the compile-time constants and the loading and mapping of
  segments, \<open>Boot_Memory\<close> the grouping of the memory map, \<open>Boot_Display\<close> the choice of the mode. The
  firmware (memory map, allocator, display modes) is an argument. \<open>Boot_Correct\<close> shows when the
  constants can be computed, what is left in memory, and that after the switch the processor
  translates exactly the requested pages. \<open>Boot_Setup\<close> puts them together: the constants of a kernel
  binary, \<open>setup_uefi_and_exit\<close> as one run over a record of firmware calls, the \<open>BootInfo\<close> it
  writes and the jump; \<open>Boot_Range\<close> shows that the virtual addresses reported as available are free,
  and \<open>Boot_Example\<close> evaluates a whole run on a small firmware. At the end of this theory the
  bootloader and the kernel are composed.

  \<^bold>\<open>The kernel.\<close> \<open>Display\<close> has the font, the cursor and \<open>write_str\<close> of \<open>kernel/src/rendering.rs\<close> over
  the frame buffer as a list of pixels; \<open>Display_Correct\<close> refines it to a terminal of character
  cells; \<open>Kernel_Main\<close> is \<open>main\<close> up to its final loop and shows what is then on the screen.

  \<^bold>\<open>Free pages.\<close> The repository holds two allocators that stand in block comments, so the kernel
  does not run them yet; they are modelled as they are written. \<open>Buddy\<close> is the buddy tree of
  \<open>kernel/src/page_alloc_tree.rs\<close>, one byte for every node behind a header; a byte that nobody wrote
  is \<open>None\<close>, and reading one is undefined. \<open>Buddy_Spec\<close> is the abstract buddy system, a map from
  positions in the tree to the state of a block, with its invariants (blocks that are leaves do not
  overlap and cover the region; two free siblings are merged). \<open>Buddy_Correct\<close> shows that the bytes
  implement the map through searching, splitting, merging, \<open>alloc\<close> and \<open>free\<close>. \<open>Alloc_Laws\<close> states
  what a client of an allocator relies on (the locales \<open>page_source\<close>, \<open>page_allocator\<close> and
  \<open>coalescing_allocator\<close>) and proves what follows for every sequence of calls; \<open>Buddy_Laws\<close>
  interprets them on the tree. \<open>free\<close> is modelled as a release build and as a debug build run it:
  the first accepts every address in the first page of a block, the second asserts the alignment and
  checks its arithmetic. \<open>Page_Alloc\<close> is the allocator over several trees of
  \<open>kernel/src/page_alloc.rs\<close> with the interpretation of \<open>page_source\<close>, and three ways in which it
  leaves memory unmanaged. A tree knows where it lies (\<open>bt_self\<close>), so that its memory is kept apart
  from the pages it hands out. Page counts and node numbers are natural numbers; a node in use is below
  twice the number of pages, so the code's \<open>usize\<close> holds it.

  \<^bold>\<open>System calls.\<close> \<open>Abi\<close> has the derive macro of \<open>abi/macros\<close> (parsing and snake case, other
  crates, are arguments) and the assembly blocks of \<open>abi/src/userspace\<close> over the registers of the
  processor, with the kernel as an argument: what enters the kernel, what comes back, and what the
  blocks fail to tell the compiler.

  \<^bold>\<open>The standard library port.\<close> \<open>Sync_Locks\<close>: mutex, reader-writer lock, condition variable and
  parker on a platform without threads, the locale \<open>exclusive_lock\<close> with its two interpretations,
  and the reachable states of the reader-writer lock. \<open>Sync_Once\<close> and \<open>Thread_Local\<close>: \<open>Once\<close> and
  thread-local storage, with closures that may re-enter the cell; programs of nested calls with a
  log of what was started, completed and seen show that a \<open>Once\<close> completes once. \<open>Racy_Init\<close>: \<open>OnceBox\<close> and
  \<open>LazyKey\<close> as step relations over the interleavings of any number of threads, with sequentially
  consistent atomics. \<open>Dwarf\<close>, \<open>Dwarf_Leb\<close> and \<open>Dwarf_Eh\<close>: the reader of exception tables, the LEB128
  readers against the encoders of the standard (an encoding of 64 bits has at most 10 bytes), and
  \<open>find_eh_action\<close> against a lookup in the call-site table. \<open>Process_Env\<close>: the changes to the
  environment (a \<open>BTreeMap\<close> is a red-black tree) and the command builder. \<open>Helpers\<close>: scaling,
  C strings, wide strings, host lookup. \<open>Std_Time\<close> and \<open>Std_Thread\<close>: times, their derived orders as
  class instances, and sleeping until a deadline, with the exact condition for it to return. \<open>Os_Str\<close>:
  OS strings with their capacities, over an argument that says how much room the library asks for;
  their operations refine operations on texts and keep valid UTF-8 within the room.
  \<open>Std_Path\<close>: paths as components and \<open>absolute\<close>. \<open>Backtrace\<close>: which frames a backtrace shows,
  and the lock around it.
  \<open>Std_Io\<close>: the null streams. \<open>Fs_Common\<close>: copying and removing trees over platform operations given
  as a record, with a tree file system as the reference; the depth of the recursion of
  \<open>remove_dir_all\<close> is fuel, and the depth of the tree is shown to be enough.

  \<open>Platform\<close>: the functions for files, sockets, pipes, threads, thread-local keys and memory, nearly
  all of which are \<open>unimplemented!()\<close> in the port, the constants of the target and the ways in which
  a process ends. \<open>Command_Wrapper\<close> is the host program of \<open>command-wrapper.rs\<close> that runs a script
  of the repository with its own arguments and passes its exit code on.

  \<^bold>\<open>Not modelled.\<close> The firmware itself (its calls are arguments), the naked stub of the
  kernel's entry point, its panic handler (an empty loop) and the build script have no logic of their own. The file, socket, pipe
  and thread types of \<open>std/sys-src\<close> are never types, so that no method of them can run.
  \<open>cmath.rs\<close> declares foreign functions and \<open>configure_builtins.rs\<close> is for another architecture.
  \<open>Debug\<close> and \<open>Display\<close> forms are modelled where the program prints them, and those of commands and OS
  strings; those of page-table entries, virtual addresses and the page allocator are not.
  Weak memory orderings are not modelled: the step relations interleave atomic operations.
\<close>

section \<open>From the firmware to the screen\<close>

text \<open>
  C9: The bootloader and the kernel together: when the bootloader reaches its jump and the display
  it chose is large enough for one character and shows colours, the kernel it starts reads the
  boot information the bootloader wrote, reaches its final loop without a panic, and the display
  shows one line for every region of usable memory that the firmware's memory map groups into,
  and the first virtual address the bootloader did not hand out.
\<close>

theorem kernel_reports_firmware_memory:
  assumes "firmware_ok taken fw" and "cr3 m = None"
    and "setup_uefi_and_exit segments virtual_base next_v_addr bootinfo_address kernel_entry fw m
      = Ret (u, block, mem, m1)"
    and "display_fits (bb_graphics_info block) buf"
    and "gi_pixel_format (bb_graphics_info block) \<in> {RGB_8_BIT, BGR_8_BIT}"
  shows "\<exists>b st. kernel_boot_info block = Ret b
    \<and> bi_memory_regions b = memory_regions (ui_memory_map u) \<and> bi_v_addr_start b = bb_v_addr_start block
    \<and> kernel_main main_addr b buf = Ret st
    \<and> displays st (fold type_byte (kernel_text main_addr b)
         (blank_terminal \<lparr> graphics = bb_graphics_info block, line = 0, col = 0 \<rparr>))"
proof -
  from setup_run[OF assms(1-3)] obtain b where b: "kernel_boot_info block = Ret b"
    "bi_memory_regions b = memory_regions (ui_memory_map u)" "bi_v_addr_start b = bb_v_addr_start block"
    by (metis boot_info.select_convs(2,3))
  then have "bi_graphics b = bb_graphics_info block" by (auto simp: kernel_boot_info_def bind_exec_Ret_iff)
  with kernel_main_shows_boot_info[of b buf main_addr] assms(4,5) b show ?thesis by auto
qed

theorem kernel_reports_firmware_memory_witness:
  "\<exists>u block mem m1 b st. setup_uefi_and_exit small_kernel 0xFFFFFFFF80000000 0xFFFFFFFF80001000
       0xFFFFFFFF80000000 0xFFFFFFFF80000000 small_firmware small_machine = Ret (u, block, mem, m1)
     \<and> kernel_boot_info block = Ret b \<and> kernel_main 0xFFFFFFFF80000000 b (replicate 320 0) = Ret st"
proof -
  obtain u block mem m1 where run: "setup_uefi_and_exit small_kernel 0xFFFFFFFF80000000 0xFFFFFFFF80001000
      0xFFFFFFFF80000000 0xFFFFFFFF80000000 small_firmware small_machine = Ret (u, block, mem, m1)"
    and graphics: "bb_graphics_info block = boot_graphics_info
      \<lparr> resolution = (20, 16), mode_stride = 20, mode_pixel_format = Rgb \<rparr> 0xFFFFFFFF80009000 1280"
    by (rule small_setup)
  from kernel_reports_firmware_memory[OF small_firmware_ok _ run, of "replicate 320 0" "0xFFFFFFFF80000000"]
  show ?thesis using run by (auto simp: graphics boot_graphics_info_def display_fits_def)
qed

end
